(* ===== verification/Prelude.thy ===== *)
theory Prelude
  imports Complex_Main "HOL-Library.Code_Target_Numeral"
begin

text \<open>
  Shared vocabulary of the development: the types that stand for Go's basic data, results
  that may be errors, loops that stop at the first error, and the named collections of
  facts that the component theories extend and their proofs use.

  \<^item> A Go string or byte slice is a \<^typ>\<open>string\<close>: one \<open>char\<close> per byte.
  \<^item> A \<open>time.Time\<close> is an \<open>int\<close>, the nanoseconds since Go's zero time, which is 0
    itself; a \<open>time.Duration\<close> is an \<open>int\<close> number of nanoseconds.
  \<^item> A function with an \<open>error\<close> result returns a sum: \<open>Inl\<close> the error,
    \<open>Inr\<close> the value.
\<close>

type_synonym time = int
type_synonym duration = int

named_theorems res_simps "rewriting of results that may be errors"
named_theorems go_simps "the Go library functions, unfolded"
named_theorems model_simps "characteristic equations of the model's operations"

subsection \<open>Results that may be errors\<close>

primrec bindE :: "'e + 'a \<Rightarrow> ('a \<Rightarrow> 'e + 'b) \<Rightarrow> 'e + 'b" where
  "bindE (Inl e) f = Inl e"
| "bindE (Inr x) f = f x"

definition refuse :: "bool \<Rightarrow> 'e \<Rightarrow> 'e + unit" where
  "refuse b e = (if b then Inl e else Inr ())"

lemma refuse_simps [simp, res_simps]:
  "refuse True e = Inl e"
  "refuse False e = Inr ()"
  by (simp_all add: refuse_def)

lemma refuse_eq_Inr [simp]: "refuse b e = Inr u \<longleftrightarrow> \<not> b"
  by (simp add: refuse_def)

lemma refuse_eq_Inl [simp]: "refuse b e = Inl f \<longleftrightarrow> b \<and> f = e"
  by (auto simp: refuse_def)

lemma bindE_eq_Inr [simp]: "bindE r f = Inr y \<longleftrightarrow> (\<exists>x. r = Inr x \<and> f x = Inr y)"
  by (cases r) auto

lemma bindE_eq_Inl: "bindE r f = Inl e \<longleftrightarrow> r = Inl e \<or> (\<exists>x. r = Inr x \<and> f x = Inl e)"
  by (cases r) auto

lemma bindE_refuse [res_simps]: "bindE (refuse b e) f = (if b then Inl e else f ())"
  by (simp add: refuse_def)

lemma bindE_assoc [res_simps]: "bindE (bindE r f) g = bindE r (\<lambda>x. bindE (f x) g)"
  by (cases r) auto

text \<open>An optional value or another error taken over as this function's error.\<close>

lemma case_option_Inr [simp, res_simps]:
  "(case r of None \<Rightarrow> Inl e | Some x \<Rightarrow> Inr (f x)) = Inr y \<longleftrightarrow> (\<exists>x. r = Some x \<and> f x = y)"
  by (cases r) auto

lemma case_sum_Inr [simp, res_simps]:
  "(case r of Inl e \<Rightarrow> Inl (g e) | Inr x \<Rightarrow> Inr (f x)) = Inr y \<longleftrightarrow> (\<exists>x. r = Inr x \<and> f x = y)"
  by (cases r) auto

text \<open>A Go \<open>for range\<close> loop over a slice whose body may return an error.\<close>

primrec foldE :: "('s \<Rightarrow> 'x \<Rightarrow> 'e + 's) \<Rightarrow> 's \<Rightarrow> 'x list \<Rightarrow> 'e + 's" where
  "foldE f s [] = Inr s"
| "foldE f s (x # xs) = bindE (f s x) (\<lambda>s'. foldE f s' xs)"

lemma foldE_append: "foldE f s (xs @ ys) = bindE (foldE f s xs) (\<lambda>s'. foldE f s' ys)"
proof (induction xs arbitrary: s)
  case Nil
  then show ?case by simp
next
  case (Cons x xs)
  then show ?case by (cases "f s x") auto
qed

text \<open>A loop body that keeps no state is a check of every element.\<close>

primrec checkE :: "('x \<Rightarrow> 'e + unit) \<Rightarrow> 'x list \<Rightarrow> 'e + unit" where
  "checkE f [] = Inr ()"
| "checkE f (x # xs) = bindE (f x) (\<lambda>_. checkE f xs)"

lemma checkE_eq_Inr [simp]: "checkE f xs = Inr u \<longleftrightarrow> (\<forall>x\<in>set xs. f x = Inr ())"
  by (induction xs) auto

lemma checkE_eq_InlD: "checkE f xs = Inl e \<Longrightarrow> \<exists>x\<in>set xs. f x = Inl e"
  by (induction xs) (auto simp: bindE_eq_Inl)

subsection \<open>Lists\<close>

lemma find_eq_Some_iff:
  "find P xs = Some x \<longleftrightarrow> (\<exists>ys zs. xs = ys @ x # zs \<and> P x \<and> (\<forall>y\<in>set ys. \<not> P y))"
proof
  show "find P xs = Some x \<Longrightarrow> \<exists>ys zs. xs = ys @ x # zs \<and> P x \<and> (\<forall>y\<in>set ys. \<not> P y)"
  proof (induction xs)
    case Nil
    then show ?case by simp
  next
    case (Cons a xs)
    show ?case
    proof (cases "P a")
      case True
      with Cons.prems show ?thesis by (intro exI [of _ "[]"] exI [of _ xs]) simp
    next
      case False
      with Cons obtain ys zs where "xs = ys @ x # zs \<and> P x \<and> (\<forall>y\<in>set ys. \<not> P y)" by auto
      with False show ?thesis by (intro exI [of _ "a # ys"] exI [of _ zs]) simp
    qed
  qed
  have "(\<forall>y\<in>set ys. \<not> P y) \<Longrightarrow> P x \<Longrightarrow> find P (ys @ x # zs) = Some x" for ys zs
    by (induction ys) auto
  then show "\<exists>ys zs. xs = ys @ x # zs \<and> P x \<and> (\<forall>y\<in>set ys. \<not> P y) \<Longrightarrow> find P xs = Some x"
    by blast
qed

lemma find_SomeD: "find P xs = Some x \<Longrightarrow> x \<in> set xs \<and> P x"
  by (auto simp: find_eq_Some_iff)

lemma find_distinct_key:
  assumes "distinct (map f xs)" and "x \<in> set xs" and "P x"
    and "\<And>y. y \<in> set xs \<Longrightarrow> P y \<Longrightarrow> f y = f x"
  shows "find P xs = Some x"
proof -
  have "find P xs \<noteq> None"
    using assms(2,3) by (auto simp: find_None_iff)
  then obtain y where y: "find P xs = Some y" by blast
  then have "y \<in> set xs" "P y" by (auto dest: find_SomeD)
  with assms have "f y = f x" by blast
  with \<open>y \<in> set xs\<close> assms(1,2) have "y = x" by (auto simp: distinct_map inj_on_def)
  with y show ?thesis by simp
qed

lemma drop_eq_Cons: "i < length xs \<Longrightarrow> drop i xs = xs ! i # drop (Suc i) xs"
  by (simp add: Cons_nth_drop_Suc)

lemma count_list_update:
  "n < length xs \<Longrightarrow>
   count_list (xs[n := y]) x + of_bool (xs ! n = x) = count_list xs x + of_bool (y = x)"
proof (induction xs arbitrary: n)
  case Nil
  then show ?case by simp
next
  case (Cons a xs)
  then show ?case by (cases n) auto
qed

subsection \<open>Places\<close>

text \<open>
  Go bounds its goroutines with a buffered channel of places. The map holds what is alive
  under numbers handed out in order, \<open>n\<close> of the \<open>limit\<close> places are taken.
\<close>

definition placesOK :: "nat \<Rightarrow> (nat \<rightharpoonup> 'p) \<Rightarrow> nat \<Rightarrow> nat \<Rightarrow> bool" where
  "placesOK limit m n next \<longleftrightarrow>
     finite (dom m) \<and> n = card (dom m) \<and> n \<le> limit \<and> (\<forall>s\<in>dom m. s < next)"

lemma placesOK_empty: "placesOK limit Map.empty 0 next"
  by (simp add: placesOK_def)

lemma placesOK_fresh: "placesOK limit m n next \<Longrightarrow> m next = None"
  by (auto simp: placesOK_def)

lemma placesOK_remove:
  assumes "placesOK limit m n next" "m s = Some p"
  shows "placesOK limit (m(s := None)) (n - 1) next"
  using assms by (auto simp: placesOK_def domI card_Diff_singleton)

lemma placesOK_change:
  assumes "placesOK limit m n next" "m s = Some p"
  shows "placesOK limit (m(s \<mapsto> p')) n next"
proof -
  have "insert s (dom m) = dom m" using assms(2) by auto
  then show ?thesis using assms(1) by (simp add: placesOK_def)
qed

lemma placesOK_add:
  assumes "placesOK limit m n next" "n < limit"
  shows "placesOK limit (m(next \<mapsto> p)) (n + 1) (Suc next)"
proof -
  have "next \<notin> dom m" using assms(1) by (auto simp: placesOK_def)
  moreover have "s \<in> dom m \<Longrightarrow> s < Suc next" for s
    using assms(1) less_SucI unfolding placesOK_def by blast
  ultimately show ?thesis using assms by (auto simp: placesOK_def)
qed

subsection \<open>Durations\<close>

definition max_duration :: duration where
  "max_duration = 2 ^ 63 - 1"

definition min_duration :: duration where
  "min_duration = - (2 ^ 63)"

text \<open>\<open>Time.Sub\<close>: the difference of two instants, saturated to a 64-bit duration.\<close>

definition timeSub :: "time \<Rightarrow> time \<Rightarrow> duration" where
  "timeSub t u = max min_duration (min max_duration (t - u))"

abbreviation (input) second :: duration where "second \<equiv> 1000000000"
abbreviation (input) minute :: duration where "minute \<equiv> 60 * second"
abbreviation (input) hour :: duration where "hour \<equiv> 60 * minute"

lemma timeSub_pos_iff [simp]: "0 < timeSub t u \<longleftrightarrow> u < t"
  by (auto simp: timeSub_def min_duration_def max_duration_def)

lemma timeSub_nonpos_iff [simp]: "timeSub t u \<le> 0 \<longleftrightarrow> t \<le> u"
  by (auto simp: timeSub_def min_duration_def max_duration_def)

lemma timeSub_le: "u \<le> t \<Longrightarrow> timeSub t u \<le> t - u"
  by (auto simp: timeSub_def min_duration_def max_duration_def)

lemma timeSub_ge_iff: "d \<le> max_duration \<Longrightarrow> min_duration < d \<Longrightarrow> d \<le> timeSub t u \<longleftrightarrow> d \<le> t - u"
  by (auto simp: timeSub_def min_duration_def max_duration_def)

end
