(* ===== verification/Go_Strings.thy ===== *)
theory Go_Strings
  imports Prelude
begin

text \<open>
  The functions of Go's packages \<open>strings\<close> and \<open>strconv\<close> that the program calls, over
  byte strings. White space is Go's \<open>unicode.IsSpace\<close>: the six ASCII characters and the
  UTF-8 encodings of the other code points. A lead byte of UTF-8 is never a continuation
  byte, so looking for these encodings at any position finds exactly the runes the
  library's decoder finds, malformed strings included.
\<close>

subsection \<open>Prefixes and characters\<close>

definition hasPrefix :: "string \<Rightarrow> string \<Rightarrow> bool" where
  "hasPrefix s p \<longleftrightarrow> take (length p) s = p"

definition hasSuffix :: "string \<Rightarrow> string \<Rightarrow> bool" where
  "hasSuffix s p \<longleftrightarrow> length p \<le> length s \<and> drop (length s - length p) s = p"

definition trimPrefix :: "string \<Rightarrow> string \<Rightarrow> string" where
  "trimPrefix s p = (if hasPrefix s p then drop (length p) s else s)"

definition containsAny :: "string \<Rightarrow> string \<Rightarrow> bool" where
  "containsAny s cs = list_ex (\<lambda>c. c \<in> set cs) s"

fun containsStr :: "string \<Rightarrow> string \<Rightarrow> bool" where
  "containsStr [] p = (p = [])"
| "containsStr (c # s) p = (hasPrefix (c # s) p \<or> containsStr s p)"

text \<open>\<open>strings.LastIndex\<close> for a one-byte separator; \<open>None\<close> is Go's -1.\<close>

primrec lastIndex :: "string \<Rightarrow> char \<Rightarrow> nat option" where
  "lastIndex [] c = None"
| "lastIndex (x # xs) c =
     (case lastIndex xs c of
        Some i \<Rightarrow> Some (Suc i)
      | None \<Rightarrow> if x = c then Some 0 else None)"

text \<open>\<open>strings.Split\<close> for a one-byte separator.\<close>

fun splitOn :: "char \<Rightarrow> string \<Rightarrow> string list" where
  "splitOn c [] = [[]]"
| "splitOn c (x # xs) =
     (if x = c then [] # splitOn c xs
      else (case splitOn c xs of w # ws \<Rightarrow> (x # w) # ws | [] \<Rightarrow> [[x]]))"

text \<open>The first element of \<open>strings.SplitN(s, c, 2)\<close>.\<close>

definition beforeFirst :: "char \<Rightarrow> string \<Rightarrow> string" where
  "beforeFirst c s = takeWhile (\<lambda>x. x \<noteq> c) s"

lemma hasPrefix_append [simp]: "hasPrefix (p @ s) p"
  by (simp add: hasPrefix_def)

lemma hasPrefix_iff: "hasPrefix s p \<longleftrightarrow> (\<exists>r. s = p @ r)"
  by (metis append_take_drop_id hasPrefix_append hasPrefix_def)

lemma trimPrefix_append [simp]: "trimPrefix (p @ s) p = s"
  by (simp add: trimPrefix_def)

lemma containsAny_iff: "containsAny s cs \<longleftrightarrow> (\<exists>c\<in>set s. c \<in> set cs)"
  by (auto simp: containsAny_def list_ex_iff)

lemma splitOn_not_Nil [simp]: "splitOn c s \<noteq> []"
  by (induction s) (auto split: list.splits)

lemma splitOn_no_sep: "c \<notin> set s \<Longrightarrow> splitOn c s = [s]"
  by (induction s) auto

lemma splitOn_sep: "c \<notin> set s \<Longrightarrow> splitOn c (s @ c # t) = s # splitOn c t"
  by (induction s) auto

lemma lastIndex_None: "lastIndex s c = None \<longleftrightarrow> c \<notin> set s"
  by (induction s) (auto split: option.splits)

lemma lastIndex_SomeD:
  "lastIndex s c = Some i \<Longrightarrow>
   i < length s \<and> s ! i = c \<and> c \<notin> set (drop (Suc i) s)"
proof (induction s arbitrary: i)
  case Nil
  then show ?case by simp
next
  case (Cons x xs)
  then show ?case
    by (cases "lastIndex xs c") (auto simp: lastIndex_None split: if_splits)
qed

lemma lastIndex_append_Cons: "c \<notin> set t \<Longrightarrow> lastIndex (s @ c # t) c = Some (length s)"
proof (induction s)
  case Nil
  then show ?case by (simp add: lastIndex_None [THEN iffD2])
next
  case (Cons x xs)
  then show ?case by simp
qed

subsection \<open>White space\<close>

definition spaceRunes :: "string list" where
  "spaceRunes =
    [[CHR 0x09], [CHR 0x0A], [CHR 0x0B], [CHR 0x0C], [CHR 0x0D], [CHR 0x20],
     [CHR 0xC2, CHR 0x85], [CHR 0xC2, CHR 0xA0],
     [CHR 0xE1, CHR 0x9A, CHR 0x80],
     [CHR 0xE2, CHR 0x80, CHR 0x80], [CHR 0xE2, CHR 0x80, CHR 0x81],
     [CHR 0xE2, CHR 0x80, CHR 0x82], [CHR 0xE2, CHR 0x80, CHR 0x83],
     [CHR 0xE2, CHR 0x80, CHR 0x84], [CHR 0xE2, CHR 0x80, CHR 0x85],
     [CHR 0xE2, CHR 0x80, CHR 0x86], [CHR 0xE2, CHR 0x80, CHR 0x87],
     [CHR 0xE2, CHR 0x80, CHR 0x88], [CHR 0xE2, CHR 0x80, CHR 0x89],
     [CHR 0xE2, CHR 0x80, CHR 0x8A], [CHR 0xE2, CHR 0x80, CHR 0xA8],
     [CHR 0xE2, CHR 0x80, CHR 0xA9], [CHR 0xE2, CHR 0x80, CHR 0xAF],
     [CHR 0xE2, CHR 0x81, CHR 0x9F], [CHR 0xE3, CHR 0x80, CHR 0x80]]"

text \<open>The length of the first of the words \<open>ws\<close> that \<open>s\<close> starts with, 0 if there is none.\<close>

definition leadLen :: "string list \<Rightarrow> string \<Rightarrow> nat" where
  "leadLen ws s = (case find (\<lambda>w. hasPrefix s w) ws of None \<Rightarrow> 0 | Some w \<Rightarrow> length w)"

function dropWords :: "string list \<Rightarrow> string \<Rightarrow> string" where
  "dropWords ws s =
     (if s = [] \<or> leadLen ws s = 0 then s else dropWords ws (drop (leadLen ws s) s))"
  by pat_completeness auto
termination
  by (relation "measure (\<lambda>(ws, s). length s)") auto

declare dropWords.simps [simp del]

definition trimSpace :: "string \<Rightarrow> string" where
  "trimSpace s =
     rev (dropWords (map rev spaceRunes) (rev (dropWords spaceRunes s)))"

text \<open>\<open>strings.Fields\<close>: \<open>cur\<close> is the field being read.\<close>

function splitFieldsFrom :: "string \<Rightarrow> string \<Rightarrow> string list" where
  "splitFieldsFrom cur [] = (if cur = [] then [] else [cur])"
| "splitFieldsFrom cur (c # s) =
     (if leadLen spaceRunes (c # s) = 0 then splitFieldsFrom (cur @ [c]) s
      else (if cur = [] then [] else [cur]) @
           splitFieldsFrom [] (drop (leadLen spaceRunes (c # s)) (c # s)))"
  by pat_completeness auto
termination
  by (relation "measure (\<lambda>(cur, s). length s)") auto

definition strFields :: "string \<Rightarrow> string list" where
  "strFields s = splitFieldsFrom [] s"

lemma splitFieldsFrom_nonempty: "w \<in> set (splitFieldsFrom cur s) \<Longrightarrow> w \<noteq> []"
  by (induction cur s rule: splitFieldsFrom.induct) (auto split: if_splits)

lemma strFields_nonempty: "w \<in> set (strFields s) \<Longrightarrow> w \<noteq> []"
  by (auto simp: strFields_def dest: splitFieldsFrom_nonempty)

lemma dropWords_Nil [simp]: "dropWords ws [] = []"
  by (simp add: dropWords.simps)

lemma trimSpace_Nil [simp]: "trimSpace [] = []"
  by (simp add: trimSpace_def)

lemma strFields_Nil [simp]: "strFields [] = []"
  by (simp add: strFields_def)

lemma dropWords_id: "leadLen ws s = 0 \<Longrightarrow> dropWords ws s = s"
  by (simp add: dropWords.simps [of ws s])

lemma dropWords_lead: "leadLen ws (dropWords ws s) = 0 \<or> dropWords ws s = []"
proof (induction ws s rule: dropWords.induct)
  case (1 ws s)
  show ?case
  proof (cases "s = [] \<or> leadLen ws s = 0")
    case True
    then show ?thesis by (auto simp: dropWords.simps [of ws s])
  next
    case False
    with "1.IH" show ?thesis by (simp add: dropWords.simps [of ws s])
  qed
qed

text \<open>A string that trims to nothing is made of white space alone and has no fields.\<close>

lemma dropWords_empty_concat: "dropWords ws s = [] \<Longrightarrow> \<exists>us. s = concat us \<and> set us \<subseteq> set ws"
proof (induction ws s rule: dropWords.induct)
  case (1 ws s)
  show ?case
  proof (cases "s = [] \<or> leadLen ws s = 0")
    case True
    with "1.prems" have "s = []" by (simp add: dropWords.simps [of ws s])
    then show ?thesis by (intro exI [of _ "[]"]) simp
  next
    case False
    with "1.prems" have "dropWords ws (drop (leadLen ws s) s) = []"
      by (simp add: dropWords.simps [of ws s])
    with "1.IH" False obtain us where us: "drop (leadLen ws s) s = concat us" "set us \<subseteq> set ws"
      by blast
    from False obtain w where w: "w \<in> set ws" "hasPrefix s w" "leadLen ws s = length w"
      by (auto simp: leadLen_def dest: find_SomeD split: option.splits)
    then have "s = w @ concat us" using us(1) by (auto simp: hasPrefix_iff)
    with us(2) w(1) show ?thesis by (intro exI [of _ "w # us"]) simp
  qed
qed

lemma leadLen_pos:
  assumes "w \<in> set ws" "w \<noteq> []" "hasPrefix s w" "[] \<notin> set ws"
  shows "0 < leadLen ws s"
proof -
  have "find (\<lambda>w. hasPrefix s w) ws \<noteq> None" using assms by (auto simp: find_None_iff)
  then obtain v where "find (\<lambda>w. hasPrefix s w) ws = Some v" by blast
  moreover from find_SomeD [OF this] assms(4) have "v \<noteq> []" by auto
  ultimately show ?thesis by (simp add: leadLen_def)
qed

lemma spaceRunes_nonempty: "[] \<notin> set spaceRunes"
  by (simp add: spaceRunes_def)

lemma trimSpace_empty: "trimSpace s = [] \<Longrightarrow> dropWords spaceRunes s = []"
proof -
  let ?t = "dropWords spaceRunes s"
  assume "trimSpace s = []"
  then have "dropWords (map rev spaceRunes) (rev ?t) = []" by (simp add: trimSpace_def)
  from dropWords_empty_concat [OF this] obtain us
    where us: "rev ?t = concat us" "set us \<subseteq> rev ` set spaceRunes" by auto
  then have t: "?t = concat (map rev (rev us))" by (metis rev_concat rev_rev_ident rev_map)
  show "?t = []"
  proof (cases "rev us")
    case Nil
    with t show ?thesis by simp
  next
    case (Cons w ws)
    with us(2) have "rev w \<in> set spaceRunes" by (auto simp: subset_iff dest: arg_cong [of _ _ set])
    moreover have "hasPrefix ?t (rev w)" unfolding t Cons by simp
    ultimately have "0 < leadLen spaceRunes ?t"
      using spaceRunes_nonempty by (intro leadLen_pos) auto
    with dropWords_lead [of spaceRunes s] show ?thesis by simp
  qed
qed

lemma dropWords_suffix: "\<exists>p. s = p @ dropWords ws s"
proof (induction ws s rule: dropWords.induct)
  case (1 ws s)
  show ?case
  proof (cases "s = [] \<or> leadLen ws s = 0")
    case False
    with 1 obtain p where "drop (leadLen ws s) s = p @ dropWords ws s"
      by (auto simp: dropWords.simps [of ws s])
    then show ?thesis by (metis append_assoc append_take_drop_id)
  qed (auto simp: dropWords.simps [of ws s])
qed

lemma leadLen_append: "leadLen ws (u @ v) = 0 \<Longrightarrow> [] \<notin> set ws \<Longrightarrow> leadLen ws u = 0"
proof (rule ccontr)
  assume "leadLen ws (u @ v) = 0" "[] \<notin> set ws" "leadLen ws u \<noteq> 0"
  then obtain w where "w \<in> set ws" "hasPrefix u w"
    by (auto simp: leadLen_def split: option.splits dest: find_SomeD)
  then have "hasPrefix (u @ v) w" "w \<noteq> []"
    using \<open>[] \<notin> set ws\<close> by (auto simp: hasPrefix_iff)
  with leadLen_pos [OF \<open>w \<in> set ws\<close>] \<open>[] \<notin> set ws\<close> \<open>leadLen ws (u @ v) = 0\<close> show False by fastforce
qed

lemma leadLen_Nil: "[] \<notin> set ws \<Longrightarrow> leadLen ws [] = 0"
  by (auto simp: leadLen_def hasPrefix_iff split: option.splits dest: find_SomeD)

lemma trimSpace_trimSpace [simp]: "trimSpace (trimSpace s) = trimSpace s"
proof -
  let ?t = "dropWords spaceRunes s"
  let ?u = "dropWords (map rev spaceRunes) (rev ?t)"
  obtain p where "rev ?t = p @ ?u" using dropWords_suffix by blast
  then have "?t = rev ?u @ rev p" by (metis rev_append rev_rev_ident)
  moreover have lead: "leadLen ws (dropWords ws r) = 0" if "[] \<notin> set ws" for ws r
    using dropWords_lead [of ws r] leadLen_Nil [OF that] by auto
  from lead [OF spaceRunes_nonempty] have "leadLen spaceRunes ?t = 0" .
  ultimately have "leadLen spaceRunes (rev ?u) = 0" using leadLen_append spaceRunes_nonempty by metis
  moreover have "leadLen (map rev spaceRunes) ?u = 0"
    using lead [of "map rev spaceRunes"] spaceRunes_nonempty by auto
  ultimately show ?thesis by (simp add: trimSpace_def dropWords_id)
qed

lemma splitFieldsFrom_blank: "dropWords spaceRunes s = [] \<Longrightarrow> splitFieldsFrom [] s = []"
proof (induction s rule: length_induct)
  case (1 s)
  show ?case
  proof (cases s)
    case (Cons c r)
    with "1.prems" have lead: "leadLen spaceRunes (c # r) \<noteq> 0"
      using dropWords_id [of spaceRunes "c # r"] by auto
    with "1.prems" Cons have "dropWords spaceRunes (drop (leadLen spaceRunes (c # r)) (c # r)) = []"
      by (simp add: dropWords.simps [of _ "c # r"])
    with "1.IH" lead Cons show ?thesis by simp
  qed simp
qed

lemma trimSpace_empty_fields: "trimSpace s = [] \<Longrightarrow> strFields s = []"
  by (simp add: strFields_def splitFieldsFrom_blank trimSpace_empty)

text \<open>Visible ASCII characters, which trimming never removes.\<close>

definition isGraphic :: "char \<Rightarrow> bool" where
  "isGraphic c \<longleftrightarrow> 33 \<le> (of_char c :: nat) \<and> (of_char c :: nat) < 127"

lemma leadLen_graphic:
  assumes "list_all (\<lambda>w. w \<noteq> [] \<and> \<not> isGraphic (hd w)) ws" "s \<noteq> []" "isGraphic (hd s)"
  shows "leadLen ws s = 0"
proof -
  have "\<not> hasPrefix s w" if "w \<in> set ws" for w
  proof
    assume "hasPrefix s w"
    then obtain r where "s = w @ r" by (auto simp: hasPrefix_iff)
    moreover have "w \<noteq> []" "\<not> isGraphic (hd w)" using that assms(1) by (auto simp: list_all_iff)
    ultimately show False using assms(3) by simp
  qed
  then have "find (\<lambda>w. hasPrefix s w) ws = None" by (simp add: find_None_iff)
  then show ?thesis by (simp add: leadLen_def)
qed

lemma trimSpace_id:
  assumes "s = [] \<or> isGraphic (hd s) \<and> isGraphic (last s)"
  shows "trimSpace s = s"
proof (cases "s = []")
  case False
  have ws: "list_all (\<lambda>w. w \<noteq> [] \<and> \<not> isGraphic (hd w)) spaceRunes"
    "list_all (\<lambda>w. w \<noteq> [] \<and> \<not> isGraphic (hd w)) (map rev spaceRunes)"
    by (simp_all add: spaceRunes_def isGraphic_def)
  have "dropWords spaceRunes s = s"
    using assms False ws(1) by (intro dropWords_id leadLen_graphic) auto
  moreover have "dropWords (map rev spaceRunes) (rev s) = rev s"
    using assms False ws(2) by (intro dropWords_id leadLen_graphic) (auto simp: hd_rev)
  ultimately show ?thesis by (simp add: trimSpace_def)
qed simp

lemma trimSpace_graphic: "list_all isGraphic s \<Longrightarrow> trimSpace s = s"
  by (intro trimSpace_id) (auto simp: list_all_iff)

subsection \<open>Case folding\<close>

text \<open>
  \<open>strings.ToLower\<close>, as far as a comparison with an ASCII word can see it. Besides A to Z
  only two code points have an ASCII lower case: U+0130 (bytes C4 B0, lower case \<open>i\<close>) and
  U+212A (bytes E2 84 AA, lower case \<open>k\<close>). Every other non-ASCII rune maps to non-ASCII
  runes, which are left as they are.
\<close>

definition lowerByte :: "char \<Rightarrow> char" where
  "lowerByte c =
     (let n = of_char c :: nat in if 65 \<le> n \<and> n \<le> 90 then char_of (n + 32) else c)"

fun toLower :: "string \<Rightarrow> string" where
  "toLower [] = []"
| "toLower (a # s) =
     (case s of
        b # t \<Rightarrow>
          if a = CHR 0xC4 \<and> b = CHR 0xB0 then CHR ''i'' # toLower t
          else (case t of
                  c # u \<Rightarrow>
                    if a = CHR 0xE2 \<and> b = CHR 0x84 \<and> c = CHR 0xAA then CHR ''k'' # toLower u
                    else lowerByte a # toLower s
                | [] \<Rightarrow> lowerByte a # toLower s)
      | [] \<Rightarrow> [lowerByte a])"

subsection \<open>Decimal numbers\<close>

definition isDigit :: "char \<Rightarrow> bool" where
  "isDigit c \<longleftrightarrow> 48 \<le> (of_char c :: nat) \<and> (of_char c :: nat) \<le> 57"

definition digitVal :: "char \<Rightarrow> nat" where
  "digitVal c = of_char c - 48"

datatype numResult = NumSyntax | NumRange | NumOk nat

text \<open>
  The loop of \<open>strconv.ParseUint\<close> in base 10 and 64 bits: the range error is reported as
  soon as the value passes the largest \<open>uint64\<close>, before the rest of the string is read.
\<close>

primrec parseUintFrom :: "nat \<Rightarrow> string \<Rightarrow> numResult" where
  "parseUintFrom n [] = NumOk n"
| "parseUintFrom n (c # s) =
     (if \<not> isDigit c then NumSyntax
      else if 2 ^ 64 - 1 < 10 * n + digitVal c then NumRange
      else parseUintFrom (10 * n + digitVal c) s)"

definition parseUint :: "string \<Rightarrow> numResult" where
  "parseUint s = (if s = [] then NumSyntax else parseUintFrom 0 s)"

definition int64Max :: int where "int64Max = 2 ^ 63 - 1"
definition int64Min :: int where "int64Min = - (2 ^ 63)"

text \<open>
  \<open>v, _ = strconv.Atoi(s)\<close>: the value with the error dropped, 0 for a syntax error and the
  nearest \<open>int64\<close> for a number out of range.
\<close>

definition atoi :: "string \<Rightarrow> int" where
  "atoi s =
     (let neg = hasPrefix s ''-'';
          digits = (if neg \<or> hasPrefix s ''+'' then tl s else s)
      in case parseUint digits of
           NumSyntax \<Rightarrow> 0
         | NumRange \<Rightarrow> (if neg then int64Min else int64Max)
         | NumOk n \<Rightarrow> (if neg then max int64Min (- int n) else min int64Max (int n)))"

lemma atoi_bounds: "int64Min \<le> atoi s \<and> atoi s \<le> int64Max"
  by (auto simp: atoi_def Let_def int64Min_def int64Max_def split: numResult.splits)

text \<open>The number a digit string denotes, with no bound.\<close>

definition decVal :: "string \<Rightarrow> nat" where
  "decVal s = foldl (\<lambda>n c. 10 * n + digitVal c) 0 s"

lemma foldl_dec_mono: "n \<le> foldl (\<lambda>n c. 10 * n + digitVal c) n s"
proof (induction s arbitrary: n)
  case Nil
  then show ?case by simp
next
  case (Cons c s)
  have "n \<le> 10 * n + digitVal c" by simp
  also have "\<dots> \<le> foldl (\<lambda>n c. 10 * n + digitVal c) (10 * n + digitVal c) s"
    by (rule Cons.IH)
  finally show ?case by simp
qed

lemma parseUintFrom_digits:
  "list_all isDigit s \<Longrightarrow> n < 2 ^ 64 \<Longrightarrow>
   parseUintFrom n s =
    (let m = foldl (\<lambda>n c. 10 * n + digitVal c) n s in if m < 2 ^ 64 then NumOk m else NumRange)"
proof (induction s arbitrary: n)
  case Nil
  then show ?case by simp
next
  case (Cons c s)
  let ?m = "10 * n + digitVal c"
  have m: "?m \<le> foldl (\<lambda>n c. 10 * n + digitVal c) ?m s" by (rule foldl_dec_mono)
  show ?case
  proof (cases "?m < 2 ^ 64")
    case True
    with Cons.prems Cons.IH [of ?m] show ?thesis by simp
  next
    case False
    with Cons.prems m show ?thesis by (simp add: Let_def)
  qed
qed

lemma parseUint_digits:
  assumes "s \<noteq> []" and "list_all isDigit s"
  shows "parseUint s = (if decVal s < 2 ^ 64 then NumOk (decVal s) else NumRange)"
  using assms parseUintFrom_digits [of s 0] by (simp add: parseUint_def decVal_def Let_def)

text \<open>A string of digits is read as its number, clamped to the largest \<open>int64\<close>.\<close>

lemma isDigit_isGraphic: "isDigit c \<Longrightarrow> isGraphic c"
  by (simp add: isDigit_def isGraphic_def)

lemma atoi_digits:
  assumes "s \<noteq> []" and "list_all isDigit s"
  shows "atoi s = min int64Max (int (decVal s))"
proof -
  obtain c t where s: "s = c # t" using assms(1) by (cases s) auto
  from assms(2) s have "isDigit c" by simp
  then have "c \<noteq> CHR ''-''" "c \<noteq> CHR ''+''" by (auto simp: isDigit_def)
  with s have "\<not> hasPrefix s ''-''" "\<not> hasPrefix s ''+''" by (auto simp: hasPrefix_def)
  then show ?thesis
    using assms by (auto simp: atoi_def parseUint_digits int64Max_def)
qed

end
