(* ===== verification/Go_Encoding.thy ===== *)
theory Go_Encoding
  imports Go_Strings
begin

text \<open>
  \<open>encoding/base64\<close> and \<open>encoding/hex\<close> as the program uses them: the standard alphabet with
  padding (manifests, signatures, public keys, certificate pins), the URL alphabet without
  padding (tokens), and lower-case hexadecimal (digests).
\<close>

subsection \<open>Base 64\<close>

definition stdAlphabet :: string where
  "stdAlphabet = ''ABCDEFGHIJKLMNOPQRSTUVWXYZabcdefghijklmnopqrstuvwxyz0123456789+/''"

definition urlAlphabet :: string where
  "urlAlphabet = ''ABCDEFGHIJKLMNOPQRSTUVWXYZabcdefghijklmnopqrstuvwxyz0123456789-_''"

text \<open>The position of a character in an alphabet.\<close>

primrec positionFrom :: "nat \<Rightarrow> string \<Rightarrow> char \<Rightarrow> nat option" where
  "positionFrom i [] c = None"
| "positionFrom i (a # as) c = (if a = c then Some i else positionFrom (Suc i) as c)"

definition position :: "string \<Rightarrow> char \<Rightarrow> nat option" where
  "position as c = positionFrom 0 as c"

abbreviation byteVal :: "char \<Rightarrow> nat" where "byteVal c \<equiv> of_char c"

text \<open>The four digits of three bytes.\<close>

definition quads :: "string \<Rightarrow> char \<Rightarrow> char \<Rightarrow> char \<Rightarrow> string" where
  "quads al a b c =
     [al ! (byteVal a div 4), al ! (byteVal a mod 4 * 16 + byteVal b div 16),
      al ! (byteVal b mod 16 * 4 + byteVal c div 64), al ! (byteVal c mod 64)]"

text \<open>One or two bytes at the end are filled up with zeros and their digits cut off.\<close>

fun encode64 :: "string \<Rightarrow> bool \<Rightarrow> string \<Rightarrow> string" where
  "encode64 al pad [] = []"
| "encode64 al pad [a] =
     take 2 (quads al a (CHR 0x00) (CHR 0x00)) @ (if pad then ''=='' else [])"
| "encode64 al pad [a, b] = take 3 (quads al a b (CHR 0x00)) @ (if pad then ''='' else [])"
| "encode64 al pad (a # b # c # s) = quads al a b c @ encode64 al pad s"

definition StdEncode :: "string \<Rightarrow> string" where
  "StdEncode = encode64 stdAlphabet True"

definition RawURLEncode :: "string \<Rightarrow> string" where
  "RawURLEncode = encode64 urlAlphabet False"

text \<open>
  The decoder of the padded encoding skips line ends anywhere, wants whole groups of four
  and nothing after the padding, and ignores the bits that the padding leaves over.
\<close>

fun decodeGroups :: "string \<Rightarrow> string \<Rightarrow> string option" where
  "decodeGroups al [] = Some []"
| "decodeGroups al (a # b # c # d # s) =
     (case (position al a, position al b) of
        (Some w, Some x) \<Rightarrow>
          if c = CHR ''='' then
            (if d = CHR ''='' \<and> s = [] then Some [char_of (w * 4 + x div 16)] else None)
          else (case position al c of
            None \<Rightarrow> None
          | Some y \<Rightarrow>
              if d = CHR ''='' then
                (if s = [] then Some [char_of (w * 4 + x div 16), char_of (x mod 16 * 16 + y div 4)]
                 else None)
              else (case (position al d, decodeGroups al s) of
                (Some z, Some r) \<Rightarrow>
                  Some (char_of (w * 4 + x div 16) # char_of (x mod 16 * 16 + y div 4) #
                        char_of (y mod 4 * 64 + z) # r)
              | _ \<Rightarrow> None))
      | _ \<Rightarrow> None)"
| "decodeGroups al s = None"

definition StdDecode :: "string \<Rightarrow> string option" where
  "StdDecode s = decodeGroups stdAlphabet (filter (\<lambda>c. c \<noteq> CHR 0x0D \<and> c \<noteq> CHR 0x0A) s)"

lemma positionFrom_less: "positionFrom i as c = Some n \<Longrightarrow> i \<le> n \<and> n < i + length as"
proof (induction as arbitrary: i)
  case Nil
  then show ?case by simp
next
  case (Cons a as)
  then show ?case using Cons.IH [of "Suc i"] by (fastforce split: if_splits)
qed

lemma positionFrom_nth:
  "distinct as \<Longrightarrow> n < length as \<Longrightarrow> positionFrom i as (as ! n) = Some (i + n)"
proof (induction as arbitrary: i n)
  case Nil
  then show ?case by simp
next
  case (Cons a as)
  then show ?case by (cases n) auto
qed

lemma position_nth: "distinct as \<Longrightarrow> n < length as \<Longrightarrow> position as (as ! n) = Some n"
  by (simp add: position_def positionFrom_nth)

lemma distinct_alphabets: "distinct stdAlphabet" "distinct urlAlphabet"
  by (simp_all add: stdAlphabet_def urlAlphabet_def)

lemma length_alphabets: "length stdAlphabet = 64" "length urlAlphabet = 64"
  by (simp_all add: stdAlphabet_def urlAlphabet_def)

lemma std_nth: "n < 64 \<Longrightarrow> position stdAlphabet (stdAlphabet ! n) = Some n"
  by (rule position_nth) (simp_all add: distinct_alphabets length_alphabets)

lemma std_nth_safe:
  assumes "n < 64"
  shows "stdAlphabet ! n \<noteq> CHR ''=''" and "stdAlphabet ! n \<noteq> CHR 0x0D"
    and "stdAlphabet ! n \<noteq> CHR 0x0A"
proof -
  have "stdAlphabet ! n \<in> set stdAlphabet" using assms by (simp add: length_alphabets)
  moreover have "set stdAlphabet \<inter> {CHR ''='', CHR 0x0D, CHR 0x0A} = {}"
    by (simp add: stdAlphabet_def)
  ultimately show "stdAlphabet ! n \<noteq> CHR ''=''" "stdAlphabet ! n \<noteq> CHR 0x0D"
    "stdAlphabet ! n \<noteq> CHR 0x0A" by auto
qed

text \<open>The digits of three bytes, and the bytes again.\<close>

lemma sextet_bounds:
  fixes a b c :: nat
  shows "a < 256 \<Longrightarrow> a div 4 < 64" and "b < 256 \<Longrightarrow> a mod 4 * 16 + b div 16 < 64"
    and "c < 256 \<Longrightarrow> b mod 16 * 4 + c div 64 < 64" and "c mod 64 < 64"
    and "a mod 4 * 16 < 64" and "b mod 16 * 4 < 64"
proof -
  show "a < 256 \<Longrightarrow> a div 4 < 64" by linarith
  show "b < 256 \<Longrightarrow> a mod 4 * 16 + b div 16 < 64" by linarith
  show "c < 256 \<Longrightarrow> b mod 16 * 4 + c div 64 < 64" by linarith
  show "c mod 64 < 64" by simp
  show "a mod 4 * 16 < 64" by linarith
  show "b mod 16 * 4 < 64" by linarith
qed

lemma byte_small:
  "byteVal b div 16 mod 16 = byteVal b div 16" "byteVal b div 16 div 16 = 0"
  "byteVal c div 64 mod 4 = byteVal c div 64" "byteVal c div 64 div 4 = 0"
proof -
  have "byteVal b div 16 < 16" using nat_of_char_less_256 [of b] by linarith
  then show "byteVal b div 16 mod 16 = byteVal b div 16" "byteVal b div 16 div 16 = 0"
    by (simp_all only: mod_less div_less)
  have "byteVal c div 64 < 4" using nat_of_char_less_256 [of c] by linarith
  then show "byteVal c div 64 mod 4 = byteVal c div 64" "byteVal c div 64 div 4 = 0"
    by (simp_all only: mod_less div_less)
qed

lemmas group_simps = quads_def std_nth std_nth_safe sextet_bounds byte_small

lemma decode_triple:
  "decodeGroups stdAlphabet s = Some r \<Longrightarrow>
   decodeGroups stdAlphabet (quads stdAlphabet a b c @ s) = Some (a # b # c # r)"
  by (simp add: group_simps)

lemma decode_encode: "decodeGroups stdAlphabet (encode64 stdAlphabet True s) = Some s"
proof (induction "stdAlphabet" True s rule: encode64.induct)
  case 1
  then show ?case by simp
next
  case (2 a)
  then show ?case by (simp add: group_simps)
next
  case (3 a b)
  then show ?case by (simp add: group_simps)
next
  case (4 a b c s)
  then show ?case using decode_triple by simp
qed

lemma quads_alphabet: "set (quads stdAlphabet a b c) \<subseteq> set stdAlphabet"
  using sextet_bounds by (simp add: quads_def length_alphabets)

lemma encode64_alphabet: "set (encode64 stdAlphabet True s) \<subseteq> insert CHR ''='' (set stdAlphabet)"
proof (induction "stdAlphabet" True s rule: encode64.induct)
  case (2 a)
  have "set (take 2 (quads stdAlphabet a (CHR 0x00) (CHR 0x00))) \<subseteq> set stdAlphabet"
    using quads_alphabet set_take_subset by (rule subset_trans [rotated])
  then show ?case by (simp only: encode64.simps if_True set_append list.set) blast
next
  case (3 a b)
  have "set (take 3 (quads stdAlphabet a b (CHR 0x00))) \<subseteq> set stdAlphabet"
    using quads_alphabet set_take_subset by (rule subset_trans [rotated])
  then show ?case by (simp only: encode64.simps if_True set_append list.set) blast
next
  case (4 a b c s)
  then show ?case using quads_alphabet [of a b c] by (simp only: encode64.simps set_append) blast
qed simp

lemma encode64_safe: "c \<in> set (encode64 stdAlphabet True s) \<Longrightarrow> c \<noteq> CHR 0x0D \<and> c \<noteq> CHR 0x0A"
proof -
  have "CHR 0x0D \<notin> insert CHR ''='' (set stdAlphabet)" "CHR 0x0A \<notin> insert CHR ''='' (set stdAlphabet)"
    by (simp_all add: stdAlphabet_def)
  with encode64_alphabet [of s] show "c \<in> set (encode64 stdAlphabet True s) \<Longrightarrow>
    c \<noteq> CHR 0x0D \<and> c \<noteq> CHR 0x0A" by blast
qed

lemma StdDecode_StdEncode: "StdDecode (StdEncode s) = Some s"
proof -
  have "filter (\<lambda>c. c \<noteq> CHR 0x0D \<and> c \<noteq> CHR 0x0A) (StdEncode s) = StdEncode s"
    using encode64_safe [of _ s] by (intro filter_True) (simp add: StdEncode_def)
  then show ?thesis by (simp add: StdDecode_def StdEncode_def decode_encode)
qed

lemma StdEncode_inj: "StdEncode s = StdEncode t \<Longrightarrow> s = t"
  by (metis StdDecode_StdEncode option.inject)

subsection \<open>Hexadecimal\<close>

definition hexDigits :: string where
  "hexDigits = ''0123456789abcdef''"

primrec hexEncode :: "string \<Rightarrow> string" where
  "hexEncode [] = []"
| "hexEncode (c # s) = hexDigits ! (byteVal c div 16) # hexDigits ! (byteVal c mod 16) # hexEncode s"

fun hexDecode :: "string \<Rightarrow> string option" where
  "hexDecode [] = Some []"
| "hexDecode (a # b # s) =
     (case (position hexDigits (lowerByte a), position hexDigits (lowerByte b), hexDecode s) of
        (Some h, Some l, Some r) \<Rightarrow> Some (char_of (h * 16 + l) # r)
      | _ \<Rightarrow> None)"
| "hexDecode [a] = None"

lemma hex_nth:
  assumes "n < 16"
  shows "position hexDigits (lowerByte (hexDigits ! n)) = Some n"
proof -
  have "list_all (\<lambda>n. position hexDigits (lowerByte (hexDigits ! n)) = Some n) [0..<16]"
    by code_simp
  with assms show ?thesis by (simp add: list_all_iff)
qed

lemma hexDecode_hexEncode: "hexDecode (hexEncode s) = Some s"
proof (induction s)
  case Nil
  then show ?case by simp
next
  case (Cons c s)
  have "byteVal c div 16 < 16" using nat_of_char_less_256 [of c] by linarith
  with Cons show ?case by (simp add: hex_nth)
qed

lemma hexEncode_inj: "hexEncode s = hexEncode t \<Longrightarrow> s = t"
  by (metis hexDecode_hexEncode option.inject)

lemma hexEncode_lower: "c \<in> set (hexEncode s) \<Longrightarrow> c \<in> set hexDigits"
proof (induction s)
  case Nil
  then show ?case by simp
next
  case (Cons a s)
  have "length hexDigits = 16" by (simp add: hexDigits_def)
  moreover have "byteVal a div 16 < 16" using nat_of_char_less_256 [of a] by linarith
  ultimately have "hexDigits ! (byteVal a div 16) \<in> set hexDigits"
    "hexDigits ! (byteVal a mod 16) \<in> set hexDigits"
    by (simp_all add: nth_mem)
  with Cons show ?case by (simp only: hexEncode.simps list.set insert_iff) blast
qed

subsection \<open>Strings over the alphabets\<close>

lemma position_Some: "c \<in> set al \<Longrightarrow> \<exists>n. position al c = Some n"
proof -
  have "c \<in> set al \<Longrightarrow> \<exists>n. positionFrom i al c = Some n" for i
    by (induction al arbitrary: i) auto
  then show "c \<in> set al \<Longrightarrow> \<exists>n. position al c = Some n" by (simp add: position_def)
qed

text \<open>Whole groups of digits without padding decode to three bytes each.\<close>

lemma decodeGroups_plain:
  "set s \<subseteq> set stdAlphabet \<Longrightarrow> length s = 4 * n \<Longrightarrow>
   \<exists>r. decodeGroups stdAlphabet s = Some r \<and> length r = 3 * n"
proof (induction n arbitrary: s)
  case 0
  then show ?case by simp
next
  case (Suc n)
  then obtain a b c d t where s: "s = a # b # c # d # t"
    by (auto simp: numeral_eq_Suc length_Suc_conv)
  have eq: "CHR ''='' \<notin> set stdAlphabet" by (simp add: stdAlphabet_def)
  obtain r where r: "decodeGroups stdAlphabet t = Some r" "length r = 3 * n"
    using Suc.IH [of t] Suc.prems s by auto
  from Suc.prems(1) s position_Some obtain w x y z where
    "position stdAlphabet a = Some w" "position stdAlphabet b = Some x"
    "position stdAlphabet c = Some y" "position stdAlphabet d = Some z"
    by (metis insert_subset list.set(2))
  moreover have "c \<noteq> CHR ''=''" "d \<noteq> CHR ''=''" using Suc.prems(1) s eq by auto
  ultimately show ?case using r by (simp add: s)
qed

lemma StdDecode_plain:
  assumes "set s \<subseteq> set stdAlphabet" "length s = 4 * n"
  shows "\<exists>r. StdDecode s = Some r \<and> length r = 3 * n"
proof -
  have "filter (\<lambda>c. c \<noteq> CHR 0x0D \<and> c \<noteq> CHR 0x0A) s = s"
    using assms(1) by (intro filter_True) (auto simp: stdAlphabet_def)
  with decodeGroups_plain [OF assms] show ?thesis by (simp add: StdDecode_def)
qed

lemma length_hexEncode [simp]: "length (hexEncode s) = 2 * length s"
  by (induction s) auto

lemma hexEncode_alphabet: "set (hexEncode s) \<subseteq> set stdAlphabet"
proof -
  have "set hexDigits \<subseteq> set stdAlphabet" by (simp add: hexDigits_def stdAlphabet_def)
  with hexEncode_lower show ?thesis by blast
qed

text \<open>Text that decodes as hexadecimal also decodes as base 64, to other bytes, when its length fits.\<close>

lemma hexDecode_shape: "hexDecode s = Some r \<Longrightarrow> length s = 2 * length r \<and> set s \<subseteq> set stdAlphabet"
proof (induction s arbitrary: r rule: hexDecode.induct)
  case (2 a b s)
  have "list_all (\<lambda>c. position hexDigits (lowerByte c) = None \<or> c \<in> set stdAlphabet)
      (map char_of [0..<256 :: nat])" by code_simp
  moreover have "c \<in> char_of ` {0..<256 :: nat}" for c :: char by (simp add: UNIV_char_of_nat [symmetric])
  ultimately have "position hexDigits (lowerByte c) = None \<or> c \<in> set stdAlphabet" for c
    unfolding list_all_iff set_map set_upt by blast
  then have "c \<in> set stdAlphabet" if "position hexDigits (lowerByte c) = Some n" for c n
    using that by (metis option.distinct(1))
  with 2 show ?case by (auto split: option.splits)
qed simp_all

lemma encodings_graphic: "list_all isGraphic (hexEncode s)" "list_all isGraphic (StdEncode s)"
proof -
  have "list_all isGraphic (CHR ''='' # stdAlphabet)" by code_simp
  with hexEncode_alphabet [of s] encode64_alphabet [of s]
  show "list_all isGraphic (hexEncode s)" "list_all isGraphic (StdEncode s)"
    unfolding list_all_iff StdEncode_def by auto
qed

lemma toLower_plain:
  "a \<noteq> CHR 0xC4 \<Longrightarrow> a \<noteq> CHR 0xE2 \<Longrightarrow> toLower (a # s) = lowerByte a # toLower s"
  by (cases s; cases "tl s") simp_all

lemma toLower_id:
  "list_all (\<lambda>c. lowerByte c = c \<and> c \<noteq> CHR 0xC4 \<and> c \<noteq> CHR 0xE2) s \<Longrightarrow> toLower s = s"
  by (induction s) (simp_all add: toLower_plain del: toLower.simps(2))

lemma toLower_hexEncode [simp]: "toLower (hexEncode s) = hexEncode s"
proof (rule toLower_id)
  have "list_all (\<lambda>c. lowerByte c = c \<and> c \<noteq> CHR 0xC4 \<and> c \<noteq> CHR 0xE2) hexDigits" by code_simp
  with hexEncode_lower [of _ s]
  show "list_all (\<lambda>c. lowerByte c = c \<and> c \<noteq> CHR 0xC4 \<and> c \<noteq> CHR 0xE2) (hexEncode s)"
    unfolding list_all_iff by blast
qed

lemma encode64_not_Nil: "s \<noteq> [] \<Longrightarrow> StdEncode s \<noteq> []"
  by (cases "(stdAlphabet, True, s)" rule: encode64.cases) (auto simp: StdEncode_def quads_def)

lemma RawURLEncode_not_Nil: "s \<noteq> [] \<Longrightarrow> RawURLEncode s \<noteq> []"
  by (cases "(urlAlphabet, False, s)" rule: encode64.cases) (auto simp: RawURLEncode_def quads_def)

end
