(* ===== verification/Release.thy ===== *)
theory Release
  imports Go_Encoding "HOL-Library.List_Lexorder" "HOL-Library.Char_ord"
begin

text \<open>
  \<open>internal/release/release.go\<close> and \<open>trustedkey.go\<close>: the signed manifest of a release, and the
  signing tool \<open>cmd/sshhub-sign/main.go\<close>. What the standard library does to bytes under these
  functions (Ed25519, SHA-256, the JSON encoders and decoders) is a record of functions,
  \<open>releaseLib\<close>, that every operation takes; base 64 and hexadecimal are modelled.
\<close>

subsection \<open>Data\<close>

definition ManifestVersion :: int where "ManifestVersion = 1"
definition PublicKeySize :: nat where "PublicKeySize = 32"
definition PrivateKeySize :: nat where "PrivateKeySize = 64"

text \<open>\<open>Artifacts\<close> is a Go map: an association list with one entry for a key.\<close>

record Manifest =
  mf_SchemaVersion :: int
  mf_Version :: string
  mf_PublishedAt :: time
  mf_Artifacts :: "(string \<times> string) list"
  mf_Urgent :: bool
  mf_UrgentReason :: string

record SignedManifest =
  sm_Manifest :: string
  sm_Signature :: string

datatype untrusted =
    BadKeySize nat
  | SignedNotJSON
  | MissingPart
  | ManifestNotBase64
  | SignatureNotBase64
  | SignatureMismatch
  | ManifestNotJSON
  | UnsupportedSchema int
  | NoArtifacts
  | NotCovered string
  | DigestMismatch string

record releaseLib =
  ed25519_Sign :: "string \<Rightarrow> string \<Rightarrow> string"
  ed25519_Verify :: "string \<Rightarrow> string \<Rightarrow> string \<Rightarrow> bool"
  sha256_Sum :: "string \<Rightarrow> string"
  marshalManifest :: "Manifest \<Rightarrow> string option"
  unmarshalManifest :: "string \<Rightarrow> Manifest option"
  marshalSigned :: "SignedManifest \<Rightarrow> string option"
  unmarshalSigned :: "string \<Rightarrow> SignedManifest option"

subsection \<open>Operations\<close>

definition manifestBytes :: "releaseLib \<Rightarrow> Manifest \<Rightarrow> string option" where
  "manifestBytes lib m = marshalManifest lib m"

definition DigestFor :: "Manifest \<Rightarrow> string \<Rightarrow> string option" where
  "DigestFor m assetName =
     (case map_of (mf_Artifacts m) assetName of None \<Rightarrow> None | Some d \<Rightarrow> Some (toLower d))"

definition ArtifactNames :: "Manifest \<Rightarrow> string list" where
  "ArtifactNames m = sort (map fst (mf_Artifacts m))"

datatype signError = PrivateKeyLength nat | SerializeManifest

definition Sign :: "releaseLib \<Rightarrow> Manifest \<Rightarrow> string \<Rightarrow> signError + SignedManifest" where
  "Sign lib m priv =
     (if length priv \<noteq> PrivateKeySize then Inl (PrivateKeyLength (length priv))
      else case manifestBytes lib m of
        None \<Rightarrow> Inl SerializeManifest
      | Some body \<Rightarrow>
          Inr \<lparr>sm_Manifest = StdEncode body,
               sm_Signature = StdEncode (ed25519_Sign lib priv body)\<rparr>)"

definition Verify :: "releaseLib \<Rightarrow> string \<Rightarrow> string \<Rightarrow> untrusted + Manifest" where
  "Verify lib data pub =
     (if length pub \<noteq> PublicKeySize then Inl (BadKeySize (length pub))
      else case unmarshalSigned lib data of
        None \<Rightarrow> Inl SignedNotJSON
      | Some sm \<Rightarrow>
          if sm_Manifest sm = [] \<or> sm_Signature sm = [] then Inl MissingPart
          else case StdDecode (sm_Manifest sm) of
            None \<Rightarrow> Inl ManifestNotBase64
          | Some body \<Rightarrow>
              (case StdDecode (sm_Signature sm) of
                 None \<Rightarrow> Inl SignatureNotBase64
               | Some sig \<Rightarrow>
                   if \<not> ed25519_Verify lib pub body sig then Inl SignatureMismatch
                   else case unmarshalManifest lib body of
                     None \<Rightarrow> Inl ManifestNotJSON
                   | Some m \<Rightarrow>
                       if mf_SchemaVersion m \<noteq> ManifestVersion
                       then Inl (UnsupportedSchema (mf_SchemaVersion m))
                       else if mf_Artifacts m = [] then Inl NoArtifacts
                       else Inr m))"

definition VerifyArtifact ::
  "releaseLib \<Rightarrow> Manifest \<Rightarrow> string \<Rightarrow> string \<Rightarrow> untrusted + unit" where
  "VerifyArtifact lib m assetName data =
     (case DigestFor m assetName of
        None \<Rightarrow> Inl (NotCovered assetName)
      | Some want \<Rightarrow>
          let got = hexEncode (sha256_Sum lib data) in
          if got \<noteq> want then Inl (DigestMismatch assetName) else Inr ())"

definition ParsePublicKey :: "string \<Rightarrow> string option" where
  "ParsePublicKey s =
     (let s = trimSpace s in
      if s = [] then None
      else case StdDecode s of
        Some raw \<Rightarrow>
          if length raw = PublicKeySize then Some raw
          else (case hexDecode s of
                  Some raw \<Rightarrow> if length raw = PublicKeySize then Some raw else None
                | None \<Rightarrow> None)
      | None \<Rightarrow>
          (case hexDecode s of
             Some raw \<Rightarrow> if length raw = PublicKeySize then Some raw else None
           | None \<Rightarrow> None))"

text \<open>
  The build's key and requirement are package variables that the linker may set;
  \<open>SSHHUB_RELEASE_KEY\<close> is the environment variable.
\<close>

definition TrustedPublicKey :: string where
  "TrustedPublicKey = ''LY7nOn0uWCqGfv6sBy3io9y0SLlW/NVqGg9TB8MWPPE=''"

definition RequireSignature :: string where
  "RequireSignature = ''true''"

definition TrustedKey :: "string \<Rightarrow> string \<Rightarrow> string option" where
  "TrustedKey trustedPublicKey environment =
     (let env = trimSpace environment in
      if env \<noteq> [] then ParsePublicKey env
      else if trustedPublicKey = [] then None
      else ParsePublicKey trustedPublicKey)"

definition SignatureRequired :: "string \<Rightarrow> bool" where
  "SignatureRequired requireSignature \<longleftrightarrow> toLower (trimSpace requireSignature) = ''true''"

subsection \<open>The signing tool\<close>

datatype signToolError =
    RequiresValue string
  | VersionAndDirRequired
  | KeyFileUnreadable
  | NoSigningKey
  | KeyEncoding
  | KeyLength nat
  | ReadDirFailed
  | HashFailed string
  | NoArchives
  | SignFailed signError
  | EncodeFailed

record signArgs =
  sa_version :: string
  sa_dir :: string
  sa_urgent :: string
  sa_key :: string
  sa_out :: string

text \<open>Unknown arguments are skipped; a flag takes the next argument whatever it is.\<close>

fun parseSignArgs :: "signArgs \<Rightarrow> string list \<Rightarrow> signToolError + signArgs" where
  "parseSignArgs a [] = Inr a"
| "parseSignArgs a (f # args) =
     (if f \<in> {''--version'', ''--dir'', ''--urgent'', ''--key'', ''--out''} then
        (case args of
           [] \<Rightarrow> Inl (RequiresValue f)
         | v # rest \<Rightarrow>
             parseSignArgs
               (if f = ''--version'' then a\<lparr>sa_version := v\<rparr>
                else if f = ''--dir'' then a\<lparr>sa_dir := v\<rparr>
                else if f = ''--urgent'' then a\<lparr>sa_urgent := v\<rparr>
                else if f = ''--key'' then a\<lparr>sa_key := v\<rparr>
                else a\<lparr>sa_out := v\<rparr>) rest)
      else parseSignArgs a args)"

definition loadPrivateKey ::
  "string \<Rightarrow> (string \<Rightarrow> string option) \<Rightarrow> string \<Rightarrow> signToolError + string" where
  "loadPrivateKey environment readFile file =
     bindE (if file \<noteq> []
            then (case readFile file of None \<Rightarrow> Inl KeyFileUnreadable | Some b \<Rightarrow> Inr (trimSpace b))
            else Inr (trimSpace environment)) (\<lambda>raw.
     bindE (refuse (raw = []) NoSigningKey) (\<lambda>_.
     bindE (case StdDecode raw of
              Some decoded \<Rightarrow> Inr decoded
            | None \<Rightarrow> (case hexDecode raw of None \<Rightarrow> Inl KeyEncoding | Some decoded \<Rightarrow> Inr decoded))
       (\<lambda>decoded.
     bindE (refuse (length decoded \<noteq> PrivateKeySize) (KeyLength (length decoded))) (\<lambda>_.
     Inr decoded))))"

text \<open>A directory entry: its name, and a directory, a file that cannot be read, or its contents.\<close>

datatype entryContent = Subdirectory | Unreadable | Contents string

type_synonym dirEntry = "string \<times> entryContent"

definition sha256File :: "releaseLib \<Rightarrow> entryContent \<Rightarrow> string option" where
  "sha256File lib content =
     (case content of Contents bytes \<Rightarrow> Some (hexEncode (sha256_Sum lib bytes)) | _ \<Rightarrow> None)"

text \<open>One turn of the loop over the entries, and the loop.\<close>

definition hashEntry ::
  "releaseLib \<Rightarrow> (string \<times> string) list \<Rightarrow> dirEntry \<Rightarrow> signToolError + (string \<times> string) list" where
  "hashEntry lib artifacts entry =
     (let (n, content) = entry in
      if content = Subdirectory \<or> \<not> hasSuffix n ''.tar.gz'' then Inr artifacts
      else (case sha256File lib content of
              None \<Rightarrow> Inl (HashFailed n)
            | Some digest \<Rightarrow> Inr (artifacts @ [(n, digest)])))"

definition hashEntries ::
  "releaseLib \<Rightarrow> dirEntry list \<Rightarrow> signToolError + (string \<times> string) list" where
  "hashEntries lib entries = foldE (hashEntry lib) [] entries"

text \<open>The archives of a directory with their digests.\<close>

definition releaseArchives :: "releaseLib \<Rightarrow> dirEntry list \<Rightarrow> (string \<times> string) list" where
  "releaseArchives lib entries =
     concat (map (\<lambda>(n, content).
       case content of
         Contents bytes \<Rightarrow>
           if hasSuffix n ''.tar.gz'' then [(n, hexEncode (sha256_Sum lib bytes))] else []
       | _ \<Rightarrow> [])
       entries)"

lemma hashEntries_archives:
  assumes "hashEntries lib es = Inr artifacts"
  shows "artifacts = releaseArchives lib es"
proof -
  have "artifacts = acc @ releaseArchives lib es" if "foldE (hashEntry lib) acc es = Inr artifacts" for acc
    using that
    by (induction es arbitrary: acc)
      (fastforce simp: releaseArchives_def hashEntry_def sha256File_def
        split: entryContent.splits if_splits)+
  from this [of "[]"] assms show ?thesis by (simp add: hashEntries_def)
qed

text \<open>
  \<open>manifest\<close>, up to writing the file: the manifest and its signed form. \<open>now\<close> is the time in
  whole seconds; \<open>readDir\<close> lists a directory.
\<close>

definition signManifest ::
  "releaseLib \<Rightarrow> string \<Rightarrow> (string \<Rightarrow> string option) \<Rightarrow> (string \<Rightarrow> dirEntry list option) \<Rightarrow> time \<Rightarrow>
   string list \<Rightarrow> signToolError + Manifest \<times> string" where
  "signManifest lib environment readFile readDir now args =
     bindE (parseSignArgs \<lparr>sa_version = [], sa_dir = [], sa_urgent = [], sa_key = [], sa_out = []\<rparr> args)
       (\<lambda>a.
     bindE (refuse (sa_version a = [] \<or> sa_dir a = []) VersionAndDirRequired) (\<lambda>_.
     bindE (loadPrivateKey environment readFile (sa_key a)) (\<lambda>priv.
     bindE (case readDir (sa_dir a) of None \<Rightarrow> Inl ReadDirFailed | Some es \<Rightarrow> Inr es) (\<lambda>entries.
     bindE (hashEntries lib entries) (\<lambda>artifacts.
     bindE (refuse (artifacts = []) NoArchives) (\<lambda>_.
     let m = \<lparr>mf_SchemaVersion = ManifestVersion, mf_Version = trimPrefix (sa_version a) ''v'',
              mf_PublishedAt = now div second * second, mf_Artifacts = artifacts,
              mf_Urgent = (sa_urgent a \<noteq> []), mf_UrgentReason = sa_urgent a\<rparr> in
     bindE (case Sign lib m priv of Inl err \<Rightarrow> Inl (SignFailed err) | Inr sm \<Rightarrow> Inr sm) (\<lambda>sm.
     case marshalSigned lib sm of None \<Rightarrow> Inl EncodeFailed | Some data \<Rightarrow> Inr (m, data))))))))"

subsection \<open>What verification establishes\<close>

lemma Verify_Inr:
  "Verify lib data pub = Inr m \<longleftrightarrow>
   length pub = PublicKeySize \<and>
   (\<exists>sm body sig. unmarshalSigned lib data = Some sm \<and>
      sm_Manifest sm \<noteq> [] \<and> sm_Signature sm \<noteq> [] \<and>
      StdDecode (sm_Manifest sm) = Some body \<and> StdDecode (sm_Signature sm) = Some sig \<and>
      ed25519_Verify lib pub body sig \<and> unmarshalManifest lib body = Some m) \<and>
   mf_SchemaVersion m = ManifestVersion \<and> mf_Artifacts m \<noteq> []"
  by (auto simp: Verify_def split: option.splits if_splits)

lemma VerifyArtifact_Inr:
  "VerifyArtifact lib m n data = Inr u \<longleftrightarrow>
   (case map_of (mf_Artifacts m) n of
      None \<Rightarrow> False | Some d \<Rightarrow> toLower d = hexEncode (sha256_Sum lib data))"
  by (auto simp: VerifyArtifact_def DigestFor_def Let_def split: option.splits)

lemma Sign_Verify:
  assumes "Sign lib m priv = Inr sm" and "length pub = PublicKeySize"
    and "unmarshalSigned lib data = Some sm"
    and "\<And>body. marshalManifest lib m = Some body \<Longrightarrow> body \<noteq> [] \<and> unmarshalManifest lib body = Some m"
    and "\<And>body. ed25519_Sign lib priv body \<noteq> [] \<and> ed25519_Verify lib pub body (ed25519_Sign lib priv body)"
    and "mf_SchemaVersion m = ManifestVersion" "mf_Artifacts m \<noteq> []"
  shows "Verify lib data pub = Inr m"
proof -
  from assms(1) obtain body where body: "marshalManifest lib m = Some body"
    and sm: "sm = \<lparr>sm_Manifest = StdEncode body,
      sm_Signature = StdEncode (ed25519_Sign lib priv body)\<rparr>"
    by (auto simp: Sign_def manifestBytes_def split: if_splits option.splits)
  from assms(4) [OF body] assms(5) [of body] show ?thesis
    unfolding Verify_Inr using assms(2,3,6,7) sm
    by (simp add: encode64_not_Nil StdDecode_StdEncode)
qed

lemma releaseArchives_mem:
  "(n, d) \<in> set (releaseArchives lib es) \<longleftrightarrow>
   (\<exists>bytes. (n, Contents bytes) \<in> set es \<and> hasSuffix n ''.tar.gz'' \<and> d = hexEncode (sha256_Sum lib bytes))"
  by (auto simp: releaseArchives_def split: entryContent.splits if_splits)

lemma releaseArchives_map_of:
  assumes "distinct (map fst es)" "(n, Contents bytes) \<in> set es" "hasSuffix n ''.tar.gz''"
  shows "map_of (releaseArchives lib es) n = Some (hexEncode (sha256_Sum lib bytes))"
proof -
  have mem: "(n, hexEncode (sha256_Sum lib bytes)) \<in> set (releaseArchives lib es)"
    using assms by (auto simp: releaseArchives_mem)
  have "d = hexEncode (sha256_Sum lib bytes)" if "(n, d) \<in> set (releaseArchives lib es)" for d
    using that assms(1,2) by (auto simp: releaseArchives_mem dest: eq_key_imp_eq_value)
  moreover obtain d where "map_of (releaseArchives lib es) n = Some d"
    using weak_map_of_SomeI [OF mem] by blast
  ultimately show ?thesis using map_of_SomeD by fastforce
qed

text \<open>The tool's manifest: its fields, and the signature that goes with it.\<close>

lemma signManifest_Inr:
  assumes "signManifest lib env readFile readDir now args = Inr (m, data)"
  shows "\<exists>(a::signArgs) priv es sm. readDir (sa_dir a) = Some es \<and> mf_Artifacts m = releaseArchives lib es \<and>
    mf_Artifacts m \<noteq> [] \<and> mf_SchemaVersion m = ManifestVersion \<and>
    loadPrivateKey env readFile (sa_key a) = Inr priv \<and>
    Sign lib m priv = Inr sm \<and> marshalSigned lib sm = Some data"
  using assms by (clarsimp simp: signManifest_def Let_def dest!: hashEntries_archives) blast

lemma loadPrivateKey_length: "loadPrivateKey env readFile f = Inr k \<Longrightarrow> length k = PrivateKeySize"
  by (auto simp: loadPrivateKey_def)

lemma loadPrivateKey_hex:
  assumes "length k = PrivateKeySize"
  shows "loadPrivateKey (hexEncode k) readFile [] = Inl (KeyLength 96)"
proof -
  have "length (hexEncode k) = 4 * 32" using assms by (simp add: PrivateKeySize_def)
  from StdDecode_plain [OF hexEncode_alphabet this] obtain r
    where "StdDecode (hexEncode k) = Some r" "length r = 96" by auto
  moreover have "hexEncode k \<noteq> []" using assms by (cases k) (auto simp: PrivateKeySize_def)
  ultimately show ?thesis
    by (simp add: loadPrivateKey_def trimSpace_graphic encodings_graphic PrivateKeySize_def)
qed

lemma loadPrivateKey_base64:
  assumes "length k = PrivateKeySize"
  shows "loadPrivateKey (StdEncode k) readFile [] = Inr k"
proof -
  have "k \<noteq> []" using assms by (auto simp: PrivateKeySize_def)
  then show ?thesis using assms
    by (simp add: loadPrivateKey_def trimSpace_graphic encodings_graphic encode64_not_Nil
        StdDecode_StdEncode)
qed

lemma ParsePublicKey_encoded:
  assumes "length k = PublicKeySize"
  shows "ParsePublicKey (StdEncode k) = Some k" and "ParsePublicKey (hexEncode k) = Some k"
proof -
  have k: "k \<noteq> []" using assms by (auto simp: PublicKeySize_def)
  then show "ParsePublicKey (StdEncode k) = Some k" using assms
    by (simp add: ParsePublicKey_def trimSpace_graphic encodings_graphic encode64_not_Nil
        StdDecode_StdEncode)
  have "length (hexEncode k) = 4 * 16" using assms by (simp add: PublicKeySize_def)
  from StdDecode_plain [OF hexEncode_alphabet this] obtain r
    where "StdDecode (hexEncode k) = Some r" "length r = 48" by auto
  moreover have "hexEncode k \<noteq> []" using k by (cases k) auto
  ultimately show "ParsePublicKey (hexEncode k) = Some k" using assms
    by (simp add: ParsePublicKey_def trimSpace_graphic encodings_graphic PublicKeySize_def
        hexDecode_hexEncode)
qed

lemma ParsePublicKey_trim: "ParsePublicKey (trimSpace s) = ParsePublicKey s"
  by (simp add: ParsePublicKey_def)

text \<open>The two readings never compete: 32 bytes in hexadecimal are 48 in base 64.\<close>

lemma ParsePublicKey_iff:
  "ParsePublicKey s = Some k \<longleftrightarrow> trimSpace s \<noteq> [] \<and> length k = PublicKeySize \<and>
   (StdDecode (trimSpace s) = Some k \<or> hexDecode (trimSpace s) = Some k)"
proof -
  have "\<exists>r. StdDecode t = Some r \<and> length r = 48" if "hexDecode t = Some x" "length x = 32" for t x
    using StdDecode_plain [of t 16] hexDecode_shape [OF that(1)] that(2) by simp
  moreover have "trimSpace s \<noteq> []" if "StdDecode (trimSpace s) = Some k \<or> hexDecode (trimSpace s) = Some k"
    "length k = PublicKeySize"
    using that by (cases "trimSpace s") (auto simp: PublicKeySize_def StdDecode_def)
  ultimately show ?thesis
    by (fastforce simp: ParsePublicKey_def Let_def PublicKeySize_def split: option.splits if_splits)
qed

lemma ParsePublicKey_length: "ParsePublicKey s = Some k \<Longrightarrow> length k = PublicKeySize"
  by (auto simp: ParsePublicKey_def Let_def split: if_splits option.splits)

lemma TrustedKey_length: "TrustedKey t e = Some k \<Longrightarrow> length k = PublicKeySize"
  by (auto simp: TrustedKey_def Let_def dest: ParsePublicKey_length split: if_splits)

subsection \<open>A signed release\<close>

definition exampleEntries :: "dirEntry list" where
  "exampleEntries = [(''sshhub-linux-amd64.tar.gz'', Contents ''gz''), (''notes.txt'', Contents ''x''),
     (''sub'', Subdirectory)]"

definition exampleManifest :: Manifest where
  "exampleManifest = \<lparr>mf_SchemaVersion = 1, mf_Version = ''0.5.0'', mf_PublishedAt = 7000000000,
     mf_Artifacts = [(''sshhub-linux-amd64.tar.gz'', ''677a'')], mf_Urgent = True,
     mf_UrgentReason = ''fix''\<rparr>"

text \<open>A stand-in for the library: the digest is the data, the signature a constant.\<close>

definition exampleLib :: releaseLib where
  "exampleLib = \<lparr>ed25519_Sign = (\<lambda>priv msg. ''sig''), ed25519_Verify = (\<lambda>pub msg sig. sig = ''sig''),
     sha256_Sum = (\<lambda>data. data), marshalManifest = (\<lambda>m. if m = exampleManifest then Some ''m'' else None),
     unmarshalManifest = (\<lambda>b. if b = ''m'' then Some exampleManifest else None),
     marshalSigned = (\<lambda>sm.
       if sm = \<lparr>sm_Manifest = StdEncode ''m'', sm_Signature = StdEncode ''sig''\<rparr>
       then Some (StdEncode ''m'' @ '','' @ StdEncode ''sig'') else None),
     unmarshalSigned = (\<lambda>b. if b = StdEncode ''m'' @ '','' @ StdEncode ''sig''
       then Some \<lparr>sm_Manifest = StdEncode ''m'', sm_Signature = StdEncode ''sig''\<rparr> else None)\<rparr>"

definition exampleArgs :: "string list" where
  "exampleArgs = [''--version'', ''v0.5.0'', ''--dir'', ''dist'', ''--urgent'', ''fix'']"

lemma exampleManifest_signed:
  "signManifest exampleLib (StdEncode (replicate 64 CHR ''k'')) (\<lambda>_. None)
     (\<lambda>d. if d = ''dist'' then Some exampleEntries else None) 7123456789 exampleArgs =
   Inr (exampleManifest, StdEncode ''m'' @ '','' @ StdEncode ''sig'')"
  by code_simp

lemma exampleManifest_verified:
  "Verify exampleLib (StdEncode ''m'' @ '','' @ StdEncode ''sig'') (replicate 32 CHR ''p'') = Inr exampleManifest"
  by code_simp

subsection \<open>Properties\<close>

text \<open>What the signing tool publishes, the updater accepts. With JSON that reads back what it
  wrote and Ed25519 that verifies what the matching key signed, the output of a successful
  run verifies to the manifest the tool built, and every archive of the directory passes the
  digest check under its own name.\<close>

theorem signed_release_accepted:
  assumes run: "signManifest lib env readFile readDir now args = Inr (m, data)"
    and json: "\<And>sm d. marshalSigned lib sm = Some d \<Longrightarrow> unmarshalSigned lib d = Some sm"
      "\<And>body. marshalManifest lib m = Some body \<Longrightarrow> body \<noteq> [] \<and> unmarshalManifest lib body = Some m"
    and pair: "\<And>f priv body. loadPrivateKey env readFile f = Inr priv \<Longrightarrow>
      ed25519_Sign lib priv body \<noteq> [] \<and> ed25519_Verify lib pub body (ed25519_Sign lib priv body)"
    and "length pub = PublicKeySize"
    and dir: "\<And>d es. readDir d = Some es \<Longrightarrow> es = entries" "distinct (map fst entries)"
  shows "Verify lib data pub = Inr m \<and>
    list_all (\<lambda>(n, content). case content of Contents bytes \<Rightarrow>
        if hasSuffix n ''.tar.gz'' then VerifyArtifact lib m n bytes = Inr () else True
      | _ \<Rightarrow> True)
      entries"
proof -
  from signManifest_Inr [OF run] obtain a :: signArgs and priv es sm where
    es: "readDir (sa_dir a) = Some es" "mf_Artifacts m = releaseArchives lib es"
    and m: "mf_Artifacts m \<noteq> []" "mf_SchemaVersion m = ManifestVersion"
    and priv: "loadPrivateKey env readFile (sa_key a) = Inr priv"
    and sm: "Sign lib m priv = Inr sm" "marshalSigned lib sm = Some data"
    by blast
  have "Verify lib data pub = Inr m"
    using sm(1) assms(5) json(1) [OF sm(2)] json(2) pair [OF priv] m(2,1) by (rule Sign_Verify)
  moreover have "es = entries" using dir(1) es(1) by blast
  ultimately show ?thesis
    using es(2) releaseArchives_map_of [OF dir(2)]
    by (auto simp: list_all_iff VerifyArtifact_Inr split: entryContent.splits)
qed

theorem signed_release_accepted_witness:
  "Verify exampleLib (StdEncode ''m'' @ '','' @ StdEncode ''sig'') (replicate 32 CHR ''p'') =
     Inr exampleManifest \<and>
   VerifyArtifact exampleLib exampleManifest ''sshhub-linux-amd64.tar.gz'' ''gz'' = Inr ()"
proof -
  have "Verify exampleLib (StdEncode ''m'' @ '','' @ StdEncode ''sig'') (replicate 32 CHR ''p'') =
      Inr exampleManifest \<and>
    list_all (\<lambda>(n, content). case content of Contents bytes \<Rightarrow>
        if hasSuffix n ''.tar.gz'' then VerifyArtifact exampleLib exampleManifest n bytes = Inr ()
          else True
      | _ \<Rightarrow> True) exampleEntries"
    by (rule signed_release_accepted [OF exampleManifest_signed])
      (auto simp: exampleLib_def PublicKeySize_def exampleEntries_def split: if_splits)
  then show ?thesis by (simp add: exampleEntries_def hasSuffix_def)
qed

text \<open>The digest binds the download. An artifact passes only if the signed manifest names it,
  and two downloads that pass under one name have the same SHA-256 digest; the comparison
  accepts upper-case digests but nothing else.\<close>

theorem artifact_bound_to_digest:
  assumes "VerifyArtifact lib m n data = Inr u" "VerifyArtifact lib m n data' = Inr u'"
  shows "n \<in> fst ` set (mf_Artifacts m) \<and> sha256_Sum lib data = sha256_Sum lib data'"
  using assms
  by (auto simp: VerifyArtifact_Inr map_of_eq_None_iff split: option.splits
      dest: map_of_SomeD intro: hexEncode_inj rev_image_eqI)

theorem artifact_bound_to_digest_witness:
  "''sshhub-linux-amd64.tar.gz'' \<in> fst ` set (mf_Artifacts exampleManifest) \<and>
   sha256_Sum exampleLib ''gz'' = sha256_Sum exampleLib ''gz''"
proof -
  have "VerifyArtifact exampleLib exampleManifest ''sshhub-linux-amd64.tar.gz'' ''gz'' = Inr ()"
    by code_simp
  from artifact_bound_to_digest [OF this this] show ?thesis .
qed

text \<open>C36: how a trusted key is read. Either spelling of a key of 32 bytes, base 64 or hexadecimal, from
  the build or from the environment, is read as that key. An environment value that is not blank
  decides alone: the key is what it spells in one of the two ways if this has 32 bytes, and
  otherwise there is none; the built-in key is never fallen back to.\<close>

theorem TrustedKey_reads_both_encodings:
  assumes "length k = PublicKeySize"
  shows "TrustedKey (StdEncode k) [] = Some k \<and> TrustedKey (hexEncode k) [] = Some k \<and>
    TrustedKey built (StdEncode k) = Some k \<and> TrustedKey built (hexEncode k) = Some k \<and>
    (trimSpace env \<noteq> [] \<longrightarrow>
      (TrustedKey built env = Some x \<longleftrightarrow> length x = PublicKeySize \<and>
         (StdDecode (trimSpace env) = Some x \<or> hexDecode (trimSpace env) = Some x)))"
proof -
  have hex: "hexEncode k \<noteq> []" using assms by (cases k) (simp_all add: PublicKeySize_def)
  have std: "StdEncode k \<noteq> []" using assms by (intro encode64_not_Nil) (auto simp: PublicKeySize_def)
  have env: "TrustedKey t e = ParsePublicKey e" if "list_all isGraphic e" "e \<noteq> []" for t e
    using that by (simp add: TrustedKey_def trimSpace_graphic)
  have built: "TrustedKey t [] = ParsePublicKey t" if "t \<noteq> []" for t
    using that by (simp add: TrustedKey_def)
  have "TrustedKey built env = Some x \<longleftrightarrow> length x = PublicKeySize \<and>
      (StdDecode (trimSpace env) = Some x \<or> hexDecode (trimSpace env) = Some x)" if "trimSpace env \<noteq> []"
    using that ParsePublicKey_iff [of env] by (simp add: TrustedKey_def ParsePublicKey_trim)
  with ParsePublicKey_encoded [OF assms] show ?thesis
    by (simp add: env built hex std encodings_graphic)
qed

theorem TrustedKey_reads_both_encodings_witness:
  "TrustedKey (hexEncode (replicate 32 CHR ''k'')) [] = Some (replicate 32 CHR ''k'') \<and>
   TrustedKey (hexEncode (replicate 32 CHR ''k'')) (StdEncode ''short'') = None"
proof -
  have "StdDecode (trimSpace (StdEncode ''short'')) = Some ''short''" "trimSpace (StdEncode ''short'') \<noteq> []"
    "hexDecode (trimSpace (StdEncode ''short'')) = None"
    by code_simp+
  with TrustedKey_reads_both_encodings [of "replicate 32 CHR ''k''" _ "StdEncode ''short''"] show ?thesis
    by (cases "TrustedKey (hexEncode (replicate 32 CHR ''k'')) (StdEncode ''short'')") (auto simp: PublicKeySize_def)
qed

text \<open>The signing tool says its private key may be base 64 or hexadecimal, but a hexadecimal
  key is always refused: its 128 digits are also valid base 64, for 96 bytes.\<close>

theorem hex_private_keys_refused:
  assumes "length k = PrivateKeySize"
  shows "loadPrivateKey (StdEncode k) readFile [] = Inr k \<and>
    loadPrivateKey (hexEncode k) readFile [] = Inl (KeyLength 96)"
  using loadPrivateKey_base64 [OF assms] loadPrivateKey_hex [OF assms] by simp

theorem hex_private_keys_refused_witness:
  "loadPrivateKey (hexEncode (replicate 64 CHR ''k'')) (\<lambda>_. None) [] = Inl (KeyLength 96)"
  using hex_private_keys_refused [of "replicate 64 CHR ''k''" "\<lambda>_. None"]
  by (simp add: PrivateKeySize_def)

end
