(* ===== verification/Versions.thy ===== *)
theory Versions
  imports Go_Strings
begin

text \<open>
  The comparison of release versions in \<open>internal/hubupdate/update.go\<close>: \<open>IsNewer\<close> and
  \<open>compareVersions\<close>. Components are read with \<open>strconv.Atoi\<close> and its error is dropped.
\<close>

subsection \<open>The comparison\<close>

text \<open>\<open>internal/version/version.go\<close>: the version of builds that the linker does not tell another.\<close>

definition Version :: string where "Version = ''0.9.0''"

definition versionParts :: "string \<Rightarrow> string list" where
  "versionParts s = splitOn CHR ''.'' (beforeFirst CHR ''-'' s)"

function compareFrom :: "string list \<Rightarrow> string list \<Rightarrow> nat \<Rightarrow> nat \<Rightarrow> int" where
  "compareFrom as bs n i =
     (if i < n then
        let av = (if i < length as then atoi (as ! i) else 0);
            bv = (if i < length bs then atoi (bs ! i) else 0)
        in if av \<noteq> bv then (if bv < av then 1 else -1) else compareFrom as bs n (Suc i)
      else 0)"
  by pat_completeness auto
termination
  by (relation "measure (\<lambda>(as, bs, n, i). n - i)") auto

declare compareFrom.simps [simp del]

definition compareVersions :: "string \<Rightarrow> string \<Rightarrow> int" where
  "compareVersions a b =
     (let as = versionParts a; bs = versionParts b;
          n = length as;
          n = (if n < length bs then length bs else n)
      in compareFrom as bs n 0)"

definition IsNewer :: "string \<Rightarrow> string \<Rightarrow> bool" where
  "IsNewer latest current =
     (let latest = trimPrefix (trimSpace latest) ''v'';
          current = trimPrefix (trimSpace current) ''v''
      in if latest = [] \<or> current = [] then False
         else 0 < compareVersions latest current)"

subsection \<open>Versions as sequences of numbers\<close>

text \<open>The \<open>i\<close>-th number of a version, 0 after its end.\<close>

definition component :: "string \<Rightarrow> nat \<Rightarrow> int" where
  "component s i = (let ps = versionParts s in if i < length ps then atoi (ps ! i) else 0)"

text \<open>The first difference decides, the greater number being the newer version.\<close>

definition newerAt :: "(nat \<Rightarrow> int) \<Rightarrow> (nat \<Rightarrow> int) \<Rightarrow> nat \<Rightarrow> bool" where
  "newerAt f g i \<longleftrightarrow> g i < f i \<and> (\<forall>j<i. f j = g j)"

lemma newerAt_unique:
  "newerAt f g i \<Longrightarrow> newerAt f g j \<Longrightarrow> i = j"
  by (metis newerAt_def less_irrefl linorder_neqE_nat)

lemma newerAt_asym: "newerAt f g i \<Longrightarrow> \<not> newerAt g f j"
  by (metis newerAt_def less_asym less_irrefl linorder_neqE_nat)

lemma newerAt_trans:
  assumes "newerAt f g i" "newerAt g h j"
  shows "newerAt f h (min i j)"
proof -
  consider "i < j" | "i = j" | "j < i" by linarith
  then show ?thesis
    using assms by cases (auto simp: newerAt_def min_def)
qed

lemma component_zero: "length (versionParts s) \<le> i \<Longrightarrow> component s i = 0"
  by (simp add: component_def Let_def)

lemma compareFrom_step:
  "compareFrom (versionParts a) (versionParts b) n i =
    (if i < n then
       if component a i \<noteq> component b i then (if component b i < component a i then 1 else -1)
       else compareFrom (versionParts a) (versionParts b) n (Suc i)
     else 0)"
  by (subst compareFrom.simps) (simp add: component_def Let_def)

lemma compareFrom_sign:
  assumes "\<forall>j<i. component a j = component b j"
    and "\<And>j. n \<le> j \<Longrightarrow> component a j = component b j"
  shows "(0 < compareFrom (versionParts a) (versionParts b) n i \<longleftrightarrow>
           (\<exists>k. newerAt (component a) (component b) k)) \<and>
         (compareFrom (versionParts a) (versionParts b) n i < 0 \<longleftrightarrow>
           (\<exists>k. newerAt (component b) (component a) k))"
  using assms(1)
proof (induction "n - i" arbitrary: i)
  case 0
  then have eq: "component a = component b"
    using assms(2) by (intro ext) (metis diff_is_0_eq le_less_trans not_less)
  from 0 show ?case by (simp add: compareFrom_step [of a b] newerAt_def eq)
next
  case (Suc d)
  then have i: "i < n" by simp
  consider (eq) "component a i = component b i" | (gt) "component b i < component a i"
    | (lt) "component a i < component b i" by linarith
  then show ?case
  proof cases
    case eq
    with Suc.prems have "\<forall>j<Suc i. component a j = component b j" by (simp add: less_Suc_eq)
    with Suc i eq show ?thesis by (simp add: compareFrom_step [of a b n i])
  next
    case gt
    with Suc.prems have "newerAt (component a) (component b) i" by (simp add: newerAt_def)
    with gt i newerAt_asym show ?thesis by (auto simp: compareFrom_step [of a b n i])
  next
    case lt
    with Suc.prems have "newerAt (component b) (component a) i" by (simp add: newerAt_def)
    with lt i newerAt_asym show ?thesis by (auto simp: compareFrom_step [of a b n i])
  qed
qed

lemma compareVersions_sign:
  "0 < compareVersions a b \<longleftrightarrow> (\<exists>k. newerAt (component a) (component b) k)"
  "compareVersions a b < 0 \<longleftrightarrow> (\<exists>k. newerAt (component b) (component a) k)"
proof -
  have "max (length (versionParts a)) (length (versionParts b)) \<le> j \<Longrightarrow>
      component a j = component b j" for j
    by (simp add: component_zero)
  from compareFrom_sign [of 0, OF _ this]
  show "0 < compareVersions a b \<longleftrightarrow> (\<exists>k. newerAt (component a) (component b) k)"
    "compareVersions a b < 0 \<longleftrightarrow> (\<exists>k. newerAt (component b) (component a) k)"
    by (simp_all add: compareVersions_def Let_def max_def split: if_splits)
qed

subsection \<open>Successive updates\<close>

text \<open>A history of versions, each newer than the one it replaced.\<close>

fun upgrades :: "(string \<Rightarrow> string \<Rightarrow> bool) \<Rightarrow> string \<Rightarrow> string list \<Rightarrow> bool" where
  "upgrades newer v [] \<longleftrightarrow> True"
| "upgrades newer v (w # ws) \<longleftrightarrow> newer w v \<and> upgrades newer w ws"

text \<open>
  What an updater needs of its notion of newer: it is a strict order. Then a chain of
  updates only ever climbs, and never comes back.
\<close>

locale update_order =
  fixes newer :: "string \<Rightarrow> string \<Rightarrow> bool"
  assumes newer_asym: "newer b a \<Longrightarrow> \<not> newer a b"
    and newer_trans: "newer b a \<Longrightarrow> newer c b \<Longrightarrow> newer c a"
begin

lemma newer_irrefl: "\<not> newer a a"
  using newer_asym by blast

lemma upgrades_newer: "upgrades newer v ws \<Longrightarrow> w \<in> set ws \<Longrightarrow> newer w v"
proof (induction ws arbitrary: v)
  case Nil
  then show ?case by simp
next
  case (Cons x xs)
  then show ?case using newer_trans [of x v w] by auto
qed

lemma upgrades_distinct: "upgrades newer v ws \<Longrightarrow> distinct (v # ws)"
proof (induction ws arbitrary: v)
  case Nil
  then show ?case by simp
next
  case (Cons x xs)
  then show ?case using upgrades_newer [of v "x # xs"] newer_irrefl by auto
qed

text \<open>A history in which each version is the one before or newer never goes back at all.\<close>

lemma climbing:
  assumes "successively (\<lambda>v w. w = v \<or> newer w v) vs"
  shows "sorted_wrt (\<lambda>v w. w = v \<or> newer w v) vs"
proof -
  have "transp (\<lambda>v w. w = v \<or> newer w v)" by (auto intro!: transpI dest: newer_trans)
  with assms show ?thesis by (simp add: successively_conv_sorted_wrt)
qed

end

text \<open>The number sequence a version string stands for, with its prefix and blanks removed.\<close>

definition bareVersion :: "string \<Rightarrow> string" where
  "bareVersion s = trimPrefix (trimSpace s) ''v''"

lemma IsNewer_iff:
  "IsNewer latest current \<longleftrightarrow>
   bareVersion latest \<noteq> [] \<and> bareVersion current \<noteq> [] \<and>
   (\<exists>k. newerAt (component (bareVersion latest)) (component (bareVersion current)) k)"
  by (auto simp: IsNewer_def Let_def bareVersion_def compareVersions_sign)

interpretation updates: update_order IsNewer
proof
  show "IsNewer b a \<Longrightarrow> \<not> IsNewer a b" for a b
    by (auto simp: IsNewer_iff dest: newerAt_asym)
  show "IsNewer b a \<Longrightarrow> IsNewer c b \<Longrightarrow> IsNewer c a" for a b c
    by (auto simp: IsNewer_iff dest: newerAt_trans)
qed

subsection \<open>Ordinary versions\<close>

definition triple :: "string \<Rightarrow> string \<Rightarrow> string \<Rightarrow> string" where
  "triple x y z = x @ ''.'' @ y @ ''.'' @ z"

definition isNumber :: "string \<Rightarrow> bool" where
  "isNumber s \<longleftrightarrow> s \<noteq> [] \<and> list_all isDigit s \<and> decVal s < 2 ^ 63"

lemma isNumber_chars:
  assumes "isNumber s"
  shows "CHR ''.'' \<notin> set s" "CHR ''-'' \<notin> set s" "list_all isGraphic s" "\<not> hasPrefix s ''v''"
  using assms by (auto simp: isNumber_def list_all_iff isDigit_def isGraphic_def hasPrefix_iff)

lemma atoi_number: "isNumber s \<Longrightarrow> atoi s = int (decVal s)"
  by (simp add: isNumber_def atoi_digits int64Max_def)

lemma versionParts_triple:
  assumes "isNumber x" "isNumber y" "isNumber z"
  shows "versionParts (triple x y z) = [x, y, z]"
proof -
  have "beforeFirst CHR ''-'' (triple x y z) = triple x y z"
    using assms [THEN isNumber_chars(2)]
    by (auto simp: beforeFirst_def triple_def takeWhile_eq_all_conv)
  then show ?thesis
    using assms [THEN isNumber_chars(1)]
    by (simp add: versionParts_def triple_def splitOn_sep splitOn_no_sep)
qed

lemma bareVersion_triple:
  assumes "isNumber x" "isNumber y" "isNumber z"
  shows "bareVersion (triple x y z) = triple x y z"
    and "bareVersion (''v'' @ triple x y z) = triple x y z"
proof -
  have g: "list_all isGraphic (triple x y z)"
    using assms [THEN isNumber_chars(3)] by (simp add: triple_def isGraphic_def)
  moreover have "\<not> hasPrefix (triple x y z) ''v''"
    using isNumber_chars(4) [OF assms(1)] assms(1)
    by (cases x) (auto simp: triple_def hasPrefix_def isNumber_def)
  ultimately show "bareVersion (triple x y z) = triple x y z"
    by (simp add: bareVersion_def trimSpace_graphic trimPrefix_def)
  have "list_all isGraphic (''v'' @ triple x y z)" using g by (simp add: isGraphic_def)
  then show "bareVersion (''v'' @ triple x y z) = triple x y z"
    by (simp add: bareVersion_def trimSpace_graphic trimPrefix_def hasPrefix_def)
qed

lemma newerAt_3:
  assumes "\<And>i. 3 \<le> i \<Longrightarrow> f i = g i"
  shows "(\<exists>k. newerAt f g k) \<longleftrightarrow>
    g 0 < f 0 \<or> f 0 = g 0 \<and> (g 1 < f 1 \<or> f 1 = g 1 \<and> g 2 < f 2)"
proof
  assume "\<exists>k. newerAt f g k"
  then obtain k where k: "g k < f k" "\<forall>j<k. f j = g j" by (auto simp: newerAt_def)
  with assms have "k < 3" by (metis less_irrefl not_le)
  then consider "k = 0" | "k = 1" | "k = 2" by linarith
  then show "g 0 < f 0 \<or> f 0 = g 0 \<and> (g 1 < f 1 \<or> f 1 = g 1 \<and> g 2 < f 2)"
    using k by cases auto
next
  assume "g 0 < f 0 \<or> f 0 = g 0 \<and> (g 1 < f 1 \<or> f 1 = g 1 \<and> g 2 < f 2)"
  then have "newerAt f g 0 \<or> newerAt f g 1 \<or> newerAt f g 2"
    by (auto simp: newerAt_def less_Suc_eq numeral_2_eq_2)
  then show "\<exists>k. newerAt f g k" by blast
qed

lemma component_triple:
  assumes "isNumber x" "isNumber y" "isNumber z"
  shows "component (triple x y z) 0 = int (decVal x)" "component (triple x y z) 1 = int (decVal y)"
    "component (triple x y z) 2 = int (decVal z)" "3 \<le> i \<Longrightarrow> component (triple x y z) i = 0"
  using assms by (simp_all add: component_def versionParts_triple atoi_number)

lemma triple_not_Nil [simp]: "triple x y z \<noteq> []"
  by (simp add: triple_def)

lemma IsNewer_triple:
  assumes "isNumber x" "isNumber y" "isNumber z" "isNumber x'" "isNumber y'" "isNumber z'"
  shows "IsNewer (''v'' @ triple x y z) (triple x' y' z') \<longleftrightarrow>
    decVal x' < decVal x \<or> decVal x' = decVal x \<and>
      (decVal y' < decVal y \<or> decVal y' = decVal y \<and> decVal z' < decVal z)"
proof -
  note new = assms(1-3) and old = assms(4-6)
  have "3 \<le> i \<Longrightarrow> component (triple x y z) i = component (triple x' y' z') i" for i
    using component_triple(4) [OF new] component_triple(4) [OF old] by simp
  from newerAt_3 [OF this] show ?thesis
    by (auto simp: IsNewer_iff bareVersion_triple [OF new] bareVersion_triple [OF old]
        component_triple [OF new] component_triple [OF old] simp del: append.simps One_nat_def)
qed

subsection \<open>Properties\<close>

text \<open>C30: the newer of two release tags is the one whose first differing number is greater, as
  numbers and not as text, so 0.10.0 is newer than 0.9.1.\<close>

theorem IsNewer_releases:
  assumes "isNumber x" "isNumber y" "isNumber z" "isNumber x'" "isNumber y'" "isNumber z'"
  shows "IsNewer (''v'' @ triple x y z) (triple x' y' z') \<longleftrightarrow>
    decVal x' < decVal x \<or> decVal x' = decVal x \<and>
      (decVal y' < decVal y \<or> decVal y' = decVal y \<and> decVal z' < decVal z)"
  using assms by (rule IsNewer_triple)

theorem IsNewer_releases_witness:
  "IsNewer (''v'' @ triple ''0'' ''10'' ''0'') (triple ''0'' ''9'' ''1'')"
  using IsNewer_releases [of "''0''" "''10''" "''0''" "''0''" "''9''" "''1''"]
  by (simp add: isNumber_def isDigit_def decVal_def digitVal_def)

text \<open>A hub that installs only releases newer than the one it runs climbs a strict order: in
  any history of updates no version comes up twice, so an update never leads back.\<close>

theorem updates_never_return:
  assumes "upgrades IsNewer v ws"
  shows "distinct (v # ws)"
  using assms by (rule updates.upgrades_distinct)

theorem updates_never_return_witness: "distinct (''0.2.0'' # [''v0.9.1'', ''v0.10.0''])"
proof (rule updates_never_return)
  show "upgrades IsNewer ''0.2.0'' [''v0.9.1'', ''v0.10.0'']" by code_simp
qed

text \<open>A component that is no number counts as 0 and does not stop the comparison, so a
  malformed version can be newer than a valid one.\<close>

lemma malformed_can_be_newer:
  "IsNewer ''abc.9'' ''0.1'' \<and> \<not> IsNewer ''abc'' ''0.1'' \<and> \<not> IsNewer ''v1.0.0-rc1'' ''1.0.0''"
  by code_simp

end
