(* ===== verification/Updater.thy ===== *)
theory Updater
  imports Release Versions
begin

text \<open>
  \<open>internal/hubupdate/update.go\<close>: deciding about an update, fetching and verifying it, and
  replacing the two binaries. The network is a function from a URL to the response, the gzip
  and tar readers a function from an archive to its items, the operating system's failures a
  record; the installation directory is a map from names to contents, and the states it
  passes through are returned in order.
\<close>

subsection \<open>The network\<close>

definition githubRepo :: string where "githubRepo = ''Trickhish/sshhub''"
definition manifestAssetName :: string where "manifestAssetName = ''sshhub-manifest.json''"
definition maxArtifactBytes :: nat where "maxArtifactBytes = 2 ^ 28"
definition maxManifestBytes :: nat where "maxManifestBytes = 2 ^ 20"

text \<open>\<open>None\<close> is a failed request; a body that cannot be read to the end is \<open>None\<close> too.\<close>

type_synonym network = "string \<Rightarrow> (int \<times> string option) option"

definition assetURL :: "string \<Rightarrow> string \<Rightarrow> string" where
  "assetURL tag asset =
     (if tag \<noteq> [] then ''https://github.com/'' @ githubRepo @ ''/releases/download/'' @ tag @ ''/'' @ asset
      else ''https://github.com/'' @ githubRepo @ ''/releases/latest/download/'' @ asset)"

datatype updateError =
    InvalidReleaseVersion
  | NotNewer
  | LockFailed
  | AlreadyRunning
  | NoTrustedKey
  | ManifestFetch
  | ManifestStatus int
  | ManifestRead
  | ManifestUntrusted untrusted
  | ManifestVersionMismatch
  | ArtifactFetch
  | ArtifactStatus int
  | ArtifactRead
  | ArtifactTooLarge
  | ArtifactUntrusted untrusted
  | BadGzip
  | TempDirFailed
  | BadTar
  | BadEntry
  | CreateFailed string
  | ExtractFailed string
  | MissingBinaries
  | ReplaceFailed string

definition fetchVerifiedManifest ::
  "releaseLib \<Rightarrow> string option \<Rightarrow> network \<Rightarrow> string \<Rightarrow> updateError + Manifest" where
  "fetchVerifiedManifest lib trustedKey net tag =
     (case trustedKey of
        None \<Rightarrow> Inl NoTrustedKey
      | Some trusted \<Rightarrow>
          (case net (assetURL tag manifestAssetName) of
             None \<Rightarrow> Inl ManifestFetch
           | Some (status, body) \<Rightarrow>
               if status \<noteq> 200 then Inl (ManifestStatus status)
               else case body of
                 None \<Rightarrow> Inl ManifestRead
               | Some bytes \<Rightarrow>
                   (case Verify lib (take maxManifestBytes bytes) trusted of
                      Inl err \<Rightarrow> Inl (ManifestUntrusted err)
                    | Inr m \<Rightarrow>
                        if tag = [] \<or> trimPrefix tag ''v'' \<noteq> mf_Version m
                        then Inl ManifestVersionMismatch
                        else Inr m)))"

definition LatestManifest ::
  "releaseLib \<Rightarrow> string option \<Rightarrow> network \<Rightarrow> string \<Rightarrow> updateError + Manifest" where
  "LatestManifest lib trustedKey net tag = fetchVerifiedManifest lib trustedKey net tag"

definition signedUrgentFromManifest ::
  "releaseLib \<Rightarrow> string option \<Rightarrow> network \<Rightarrow> string \<Rightarrow> bool \<times> string" where
  "signedUrgentFromManifest lib trustedKey net tag =
     (case LatestManifest lib trustedKey net tag of
        Inl err \<Rightarrow> (False, [])
      | Inr m \<Rightarrow>
          if \<not> mf_Urgent m then (False, [])
          else (True, if mf_UrgentReason m = [] then ''no reason given'' else mf_UrgentReason m))"

text \<open>The tag at the end of the \<open>Location\<close> of the release redirect, if it is one.\<close>

definition tagOfLocation :: "string \<Rightarrow> string option" where
  "tagOfLocation loc =
     (if loc = [] then None
      else let tag = last (splitOn CHR ''/'' loc)
           in if tag \<noteq> [] \<and> tag \<noteq> ''latest'' then Some tag else None)"

text \<open>The redirect first, then the API. \<open>None\<close> is an error; the API's answer is decoded JSON.\<close>

definition FetchLatestVersion ::
  "string option \<Rightarrow> (int \<times> (string \<times> time) option) option \<Rightarrow> string option" where
  "FetchLatestVersion location api =
     (case (case location of None \<Rightarrow> None | Some loc \<Rightarrow> tagOfLocation loc) of
        Some tag \<Rightarrow> Some tag
      | None \<Rightarrow>
          (case api of
             None \<Rightarrow> None
           | Some (status, rel) \<Rightarrow>
               if status \<noteq> 200 then None
               else (case rel of None \<Rightarrow> None | Some (tag, published) \<Rightarrow> Some tag)))"

definition FetchLatestRelease ::
  "(int \<times> (string \<times> time) option) option \<Rightarrow> (string \<times> time) option" where
  "FetchLatestRelease api =
     (case api of
        None \<Rightarrow> None
      | Some (status, rel) \<Rightarrow>
          if status \<noteq> 200 then None
          else (case rel of
                  None \<Rightarrow> None
                | Some (tag, published) \<Rightarrow> if tag = [] then None else Some (tag, published)))"

definition defaultChecker ::
  "string option \<Rightarrow> (int \<times> (string \<times> time) option) option \<Rightarrow> duration \<Rightarrow> (string \<times> time) option" where
  "defaultChecker location api soak =
     (if soak \<le> 0
      then (case FetchLatestVersion location api of None \<Rightarrow> None | Some tag \<Rightarrow> Some (tag, 0))
      else FetchLatestRelease api)"

subsection \<open>Installing\<close>

text \<open>The regular expression \<open>^v?[0-9]+\.[0-9]+\.[0-9]+$\<close>.\<close>

definition releaseTag :: "string \<Rightarrow> bool" where
  "releaseTag s \<longleftrightarrow>
     (let ps = splitOn CHR ''.'' (if hasPrefix s ''v'' then tl s else s)
      in length ps = 3 \<and> list_all (\<lambda>p. p \<noteq> [] \<and> list_all isDigit p) ps)"

text \<open>\<open>filepath.Base\<close>.\<close>

definition filepathBase :: "string \<Rightarrow> string" where
  "filepathBase p =
     (if p = [] then ''.''
      else let q = rev (dropWhile (\<lambda>c. c = CHR ''/'') (rev p))
           in if q = [] then ''/'' else rev (takeWhile (\<lambda>c. c \<noteq> CHR ''/'') (rev q)))"

text \<open>An item of the archive: a header with what can be read of its contents, or an error.\<close>

record tarHeader =
  tar_Name :: string
  tar_Regular :: bool
  tar_Size :: int
  tar_Content :: "string option"

type_synonym archive = "string \<Rightarrow> tarHeader option list option"

record installFaults =
  if_LockOpen :: bool
  if_LockBusy :: bool
  if_MkdirTemp :: bool
  if_Create :: "string \<Rightarrow> bool"
  if_Rename :: "string \<Rightarrow> bool"

definition binNames :: "string list" where
  "binNames = [''sshhub'', ''sshhub-ctl'']"

text \<open>One turn of the extraction loop: the files in the temporary directory and the count.\<close>

definition extractItem ::
  "installFaults \<Rightarrow> (string \<times> string) list \<times> nat \<Rightarrow> tarHeader option \<Rightarrow>
   updateError + (string \<times> string) list \<times> nat" where
  "extractItem flt st item =
     (case item of
        None \<Rightarrow> Inl BadTar
      | Some h \<Rightarrow>
          let (tmp, found) = st; baseName = filepathBase (tar_Name h) in
          if tar_Regular h \<and> (baseName = ''sshhub'' \<or> baseName = ''sshhub-ctl'') then
            if tar_Name h \<noteq> baseName \<or> tar_Size h \<le> 0 \<or> int maxArtifactBytes < tar_Size h
            then Inl BadEntry
            else if if_Create flt baseName \<or> map_of tmp baseName \<noteq> None
            then Inl (CreateFailed baseName)
            else (case tar_Content h of
                    None \<Rightarrow> Inl (ExtractFailed baseName)
                  | Some bytes \<Rightarrow> Inr ((baseName, bytes) # tmp, Suc found))
          else Inr (tmp, found))"

text \<open>\<open>os.Rename\<close> of the prepared file over the installed one; a failed \<open>Chmod\<close> is ignored.\<close>

definition replaceBinary ::
  "installFaults \<Rightarrow> string \<Rightarrow> string \<Rightarrow> (string \<rightharpoonup> string) \<Rightarrow> (string \<rightharpoonup> string) option" where
  [simp]: "replaceBinary flt n bytes fs = (if if_Rename flt n then None else Some (fs(n \<mapsto> bytes)))"

text \<open>The replacement loop: a binary that is not in the temporary directory is skipped.\<close>

primrec replaceAll ::
  "installFaults \<Rightarrow> (string \<times> string) list \<Rightarrow> (string \<rightharpoonup> string) \<Rightarrow> string list \<Rightarrow>
   (updateError + unit) \<times> (string \<rightharpoonup> string) list" where
  "replaceAll flt tmp fs [] = (Inr (), [])"
| "replaceAll flt tmp fs (n # ns) =
     (case map_of tmp n of
        None \<Rightarrow> replaceAll flt tmp fs ns
      | Some bytes \<Rightarrow>
          (case replaceBinary flt n bytes fs of
             None \<Rightarrow> (Inl (ReplaceFailed n), [])
           | Some fs' \<Rightarrow> let (r, trace) = replaceAll flt tmp fs' ns in (r, fs' # trace)))"

text \<open>Everything up to the replacement: the contents of the temporary directory.\<close>

definition prepareUpdate ::
  "releaseLib \<Rightarrow> string option \<Rightarrow> network \<Rightarrow> archive \<Rightarrow> installFaults \<Rightarrow> string \<Rightarrow> string \<Rightarrow>
   string \<Rightarrow> updateError + (string \<times> string) list" where
  "prepareUpdate lib trustedKey net untar flt running assetName targetVersion =
     bindE (refuse (\<not> releaseTag targetVersion) InvalidReleaseVersion) (\<lambda>_.
     bindE (refuse (\<not> IsNewer targetVersion running) NotNewer) (\<lambda>_.
     let tag = (if targetVersion \<noteq> [] \<and> \<not> hasPrefix targetVersion ''v''
                then ''v'' @ targetVersion else targetVersion) in
     bindE (refuse (if_LockOpen flt) LockFailed) (\<lambda>_.
     bindE (refuse (if_LockBusy flt) AlreadyRunning) (\<lambda>_.
     bindE (fetchVerifiedManifest lib trustedKey net tag) (\<lambda>manifest.
     bindE (case net (assetURL tag assetName) of
              None \<Rightarrow> Inl ArtifactFetch
            | Some (status, body) \<Rightarrow>
                if status \<noteq> 200 then Inl (ArtifactStatus status)
                else (case body of None \<Rightarrow> Inl ArtifactRead | Some bytes \<Rightarrow> Inr (take maxArtifactBytes bytes)))
       (\<lambda>payload.
     bindE (refuse (length payload = maxArtifactBytes) ArtifactTooLarge) (\<lambda>_.
     bindE (case VerifyArtifact lib manifest assetName payload of
              Inl err \<Rightarrow> Inl (ArtifactUntrusted err) | Inr u \<Rightarrow> Inr u) (\<lambda>_.
     bindE (case untar payload of None \<Rightarrow> Inl BadGzip | Some items \<Rightarrow> Inr items) (\<lambda>items.
     bindE (refuse (if_MkdirTemp flt) TempDirFailed) (\<lambda>_.
     bindE (foldE (extractItem flt) ([], 0) items) (\<lambda>(tmp, found).
     bindE (refuse (found \<noteq> 2) MissingBinaries) (\<lambda>_.
     Inr tmp))))))))))))"

definition DownloadAndApplyHubUpdate ::
  "releaseLib \<Rightarrow> string option \<Rightarrow> network \<Rightarrow> archive \<Rightarrow> installFaults \<Rightarrow> string \<Rightarrow> string \<Rightarrow>
   string \<Rightarrow> (string \<rightharpoonup> string) \<Rightarrow> (updateError + unit) \<times> (string \<rightharpoonup> string) list" where
  "DownloadAndApplyHubUpdate lib trustedKey net untar flt running assetName targetVersion fs =
     (case prepareUpdate lib trustedKey net untar flt running assetName targetVersion of
        Inl err \<Rightarrow> (Inl err, [])
      | Inr tmp \<Rightarrow> replaceAll flt tmp fs binNames)"

subsection \<open>Deciding\<close>

definition UrgentCheckInterval :: duration where
  "UrgentCheckInterval = 5 * minute"

text \<open>
  One check. The result says whether the service restarts, and which tags were handed to the
  installer. \<open>now\<close> is the clock that \<open>time.Since\<close> reads.
\<close>

definition applyIfDueWith ::
  "duration \<Rightarrow> (duration \<Rightarrow> (string \<times> time) option) \<Rightarrow> (string \<Rightarrow> bool) \<Rightarrow> string \<Rightarrow>
   (string \<Rightarrow> bool \<times> string) \<Rightarrow> time \<Rightarrow> bool \<times> string list" where
  "applyIfDueWith soak check install current signedUrgent now =
     (if soak < 0 then (False, [])
      else case check soak of
        None \<Rightarrow> (False, [])
      | Some (latest, published) \<Rightarrow>
          if \<not> IsNewer latest current then (False, [])
          else
            let go = (if install latest then (True, [latest]) else (False, [latest])) in
            if 0 < soak then
              let (urgent, reason) = signedUrgent latest in
              if urgent then go
              else if published = 0 then (False, [])
              else if timeSub now published < soak then (False, [])
              else go
            else go)"

text \<open>What one turn of the background loop meets.\<close>

record pollEnv =
  poll_Check :: "duration \<Rightarrow> (string \<times> time) option"
  poll_Install :: "string \<Rightarrow> bool"
  poll_Urgent :: "string \<Rightarrow> bool \<times> string"
  poll_Now :: time

definition applyIfDue :: "string \<Rightarrow> duration \<Rightarrow> pollEnv \<Rightarrow> bool \<times> string list" where
  "applyIfDue current soak p =
     applyIfDueWith soak (poll_Check p) (poll_Install p) current (poll_Urgent p) (poll_Now p)"

text \<open>The loop over the polls so far; it returns once an update has been applied.\<close>

primrec updaterLoop :: "string \<Rightarrow> duration \<Rightarrow> pollEnv list \<Rightarrow> string list" where
  "updaterLoop current soak [] = []"
| "updaterLoop current soak (p # ps) =
     (let (applied, tags) = applyIfDue current soak p
      in if applied then tags else tags @ updaterLoop current soak ps)"

definition pollInterval :: "duration \<Rightarrow> duration" where
  "pollInterval interval =
     (if UrgentCheckInterval < interval then UrgentCheckInterval else interval)"

definition StartAutoUpdater :: "string \<Rightarrow> duration \<Rightarrow> pollEnv list \<Rightarrow> string list" where
  "StartAutoUpdater current soak polls =
     (if soak < 0 then [] else updaterLoop current soak polls)"

subsection \<open>The archive\<close>

text \<open>What the extraction loop has put into the temporary directory.\<close>

definition extracted :: "tarHeader option list \<Rightarrow> (string \<times> string) list \<times> nat \<Rightarrow> bool" where
  "extracted items st \<longleftrightarrow>
     snd st = length (fst st) \<and> distinct (map fst (fst st)) \<and>
     list_all (\<lambda>(n, bytes). n \<in> set binNames \<and>
       list_ex (\<lambda>item. case item of None \<Rightarrow> False
         | Some h \<Rightarrow> tar_Name h = n \<and> tar_Regular h \<and> tar_Content h = Some bytes) items) (fst st)"

lemma extracted_mono: "extracted items st \<Longrightarrow> extracted (items @ rest) st"
  by (auto simp: extracted_def list_all_iff list_ex_iff)

lemma extractItem_extracted:
  assumes "extractItem flt st item = Inr st'" "extracted items st"
  shows "extracted (items @ [item]) st'"
proof (cases "st' = st")
  case True
  with assms(2) show ?thesis by (simp add: extracted_mono)
next
  case False
  obtain tmp n where st: "st = (tmp, n)" by (cases st)
  from assms(1) False obtain h bytes where h: "item = Some h" "tar_Regular h"
      "tar_Content h = Some bytes" "tar_Name h \<in> set binNames" "map_of tmp (tar_Name h) = None"
    and st': "st' = ((tar_Name h, bytes) # tmp, Suc n)"
    by (auto simp: extractItem_def st Let_def binNames_def split: option.splits if_splits)
  then have "tar_Name h \<notin> fst ` set tmp" by (simp add: map_of_eq_None_iff)
  with extracted_mono [OF assms(2), of "[item]"] show ?thesis
    by (simp add: extracted_def st st' h)
qed

lemma extract_all:
  "foldE (extractItem flt) st todo = Inr st' \<Longrightarrow> extracted items st \<Longrightarrow> extracted (items @ todo) st'"
proof (induction todo arbitrary: st items)
  case Nil
  then show ?case by simp
next
  case (Cons item todo)
  then obtain st1 where st1: "extractItem flt st item = Inr st1"
    "foldE (extractItem flt) st1 todo = Inr st'" by auto
  from Cons.IH [OF st1(2) extractItem_extracted [OF st1(1) Cons.prems(2)]] show ?case by simp
qed

lemma two_binaries:
  assumes "extracted items (tmp, 2)" "n \<in> set binNames"
  shows "\<exists>bytes. map_of tmp n = Some bytes"
proof -
  have d: "distinct (map fst tmp)" and len: "length tmp = 2"
    and sub: "fst ` set tmp \<subseteq> set binNames"
    using assms(1) by (auto simp: extracted_def list_all_iff)
  have "card (fst ` set tmp) = card (set binNames)"
    using distinct_card [OF d] len by (simp add: binNames_def)
  then have "fst ` set tmp = set binNames"
    using sub by (intro card_subset_eq) simp_all
  with assms(2) have "map_of tmp n \<noteq> None" by (simp add: map_of_eq_None_iff)
  then show ?thesis by blast
qed

subsection \<open>Where installed bytes come from\<close>

definition updateTag :: "string \<Rightarrow> string" where
  "updateTag target = (if target \<noteq> [] \<and> \<not> hasPrefix target ''v'' then ''v'' @ target else target)"

text \<open>
  The bytes are an entry of the archive whose digest the manifest lists, and the manifest is
  signed by the trusted key for exactly the release that was asked for.
\<close>

definition authentic ::
  "releaseLib \<Rightarrow> string option \<Rightarrow> network \<Rightarrow> archive \<Rightarrow> string \<Rightarrow> string \<Rightarrow> string \<Rightarrow> string \<Rightarrow> bool" where
  "authentic lib trustedKey net untar assetName target n bytes \<longleftrightarrow>
     (\<exists>pub data m payload items h.
        trustedKey = Some pub \<and> Verify lib data pub = Inr m \<and>
        mf_Version m = trimPrefix (updateTag target) ''v'' \<and>
        VerifyArtifact lib m assetName payload = Inr () \<and>
        untar payload = Some items \<and> Some h \<in> set items \<and>
        tar_Name h = n \<and> tar_Regular h \<and> tar_Content h = Some bytes)"

lemma fetchVerifiedManifest_Inr:
  assumes "fetchVerifiedManifest lib key net tag = Inr m"
  shows "\<exists>pub data. key = Some pub \<and> Verify lib data pub = Inr m \<and>
    mf_Version m = trimPrefix tag ''v'' \<and> tag \<noteq> []"
  using assms
  by (auto simp: fetchVerifiedManifest_def split: option.splits sum.splits if_splits)

lemma prepareUpdate_Inr:
  assumes "prepareUpdate lib key net untar flt running asset target = Inr tmp"
  shows "releaseTag target" and "IsNewer target running"
    and "\<exists>m payload items. fetchVerifiedManifest lib key net (updateTag target) = Inr m \<and>
      VerifyArtifact lib m asset payload = Inr () \<and> untar payload = Some items \<and>
      extracted items (tmp, 2)"
proof -
  show "releaseTag target" "IsNewer target running"
    using assms by (simp_all add: prepareUpdate_def Let_def)
  from assms obtain m payload items where
    m: "fetchVerifiedManifest lib key net (updateTag target) = Inr m"
      "VerifyArtifact lib m asset payload = Inr ()" "untar payload = Some items"
      "foldE (extractItem flt) ([], 0) items = Inr (tmp, 2)"
    unfolding prepareUpdate_def Let_def updateTag_def [symmetric]
    by (auto simp del: bindE_eq_Inr simp: bindE_eq_Inr split: prod.splits)
  from extract_all [OF m(4), of "[]"] have "extracted items (tmp, 2)"
    by (simp add: extracted_def)
  with m show "\<exists>m payload items. fetchVerifiedManifest lib key net (updateTag target) = Inr m \<and>
      VerifyArtifact lib m asset payload = Inr () \<and> untar payload = Some items \<and>
      extracted items (tmp, 2)" by blast
qed

lemma prepared_authentic:
  assumes "prepareUpdate lib key net untar flt running asset target = Inr tmp"
    and "map_of tmp n = Some bytes"
  shows "n \<in> set binNames" and "authentic lib key net untar asset target n bytes"
proof -
  from prepareUpdate_Inr(3) [OF assms(1)] obtain m payload items where
    m: "fetchVerifiedManifest lib key net (updateTag target) = Inr m"
      "VerifyArtifact lib m asset payload = Inr ()" "untar payload = Some items"
      "extracted items (tmp, 2)" by blast
  from m(4) map_of_SomeD [OF assms(2)] obtain item
    where i: "n \<in> set binNames" "item \<in> set items"
      "case item of None \<Rightarrow> False
       | Some h \<Rightarrow> tar_Name h = n \<and> tar_Regular h \<and> tar_Content h = Some bytes"
    by (auto simp: extracted_def list_all_iff list_ex_iff)
  then obtain h where "Some h \<in> set items" "tar_Name h = n" "tar_Regular h" "tar_Content h = Some bytes"
    by (cases item) auto
  with m fetchVerifiedManifest_Inr [OF m(1)]
  show "authentic lib key net untar asset target n bytes" unfolding authentic_def by blast
  show "n \<in> set binNames" by (rule i(1))
qed

text \<open>Replacement writes nothing but prepared files, one name at a time.\<close>

lemma replaceAll_trace:
  assumes "replaceAll flt tmp fs ns = (r, trace)" "fs' \<in> set trace"
  shows "fs' n = fs n \<or> n \<in> set ns \<and> fs' n = map_of tmp n \<and> map_of tmp n \<noteq> None"
  using assms
proof (induction ns arbitrary: fs trace)
  case Nil
  then show ?case by simp
next
  case (Cons a ns)
  show ?case
  proof (cases "map_of tmp a")
    case None
    with Cons show ?thesis by auto
  next
    case (Some bytes)
    show ?thesis
    proof (cases "if_Rename flt a")
      case True
      with Cons.prems Some show ?thesis by simp
    next
      case False
      then obtain t1 where r1: "replaceAll flt tmp (fs(a \<mapsto> bytes)) ns = (r, t1)"
        "trace = (fs(a \<mapsto> bytes)) # t1"
        using Cons.prems(1) Some by (auto simp: Let_def split: prod.splits)
      with Cons.prems(2) Cons.IH [OF r1(1)] Some show ?thesis by (auto split: if_splits)
    qed
  qed
qed

lemma replaceAll_last:
  assumes "replaceAll flt tmp fs ns = (Inr u, trace)" "distinct ns"
  shows "last (fs # trace) n =
    (if n \<in> set ns \<and> map_of tmp n \<noteq> None then map_of tmp n else fs n)"
  using assms
proof (induction ns arbitrary: fs trace)
  case Nil
  then show ?case by simp
next
  case (Cons a ns)
  show ?case
  proof (cases "map_of tmp a")
    case None
    with Cons show ?thesis by auto
  next
    case (Some bytes)
    then obtain t1 where t1: "replaceAll flt tmp (fs(a \<mapsto> bytes)) ns = (Inr u, t1)"
      "trace = (fs(a \<mapsto> bytes)) # t1"
      using Cons.prems(1) by (auto simp: Let_def split: prod.splits if_splits)
    have "last (fs # trace) n = last (fs(a \<mapsto> bytes) # t1) n" by (simp add: t1(2))
    then show ?thesis using Cons.IH [OF t1(1)] Cons.prems(2) Some by auto
  qed
qed

lemma Download_trace:
  assumes "DownloadAndApplyHubUpdate lib key net untar flt running asset target fs = (r, trace)"
    and "fs' \<in> set trace"
  shows "fs' n = fs n \<or> n \<in> set binNames \<and> IsNewer target running \<and>
    (\<exists>bytes. fs' n = Some bytes \<and> authentic lib key net untar asset target n bytes)"
proof -
  from assms obtain tmp where
    tmp: "prepareUpdate lib key net untar flt running asset target = Inr tmp"
      "replaceAll flt tmp fs binNames = (r, trace)"
    by (auto simp: DownloadAndApplyHubUpdate_def split: sum.splits)
  show ?thesis
  proof (cases "map_of tmp n")
    case None
    with replaceAll_trace [OF tmp(2) assms(2), of n] show ?thesis by auto
  next
    case (Some bytes)
    with replaceAll_trace [OF tmp(2) assms(2), of n] prepareUpdate_Inr(2) [OF tmp(1)]
      prepared_authentic [OF tmp(1) Some]
    show ?thesis by auto
  qed
qed

lemma Download_success:
  assumes "DownloadAndApplyHubUpdate lib key net untar flt running asset target fs = (Inr u, trace)"
    and "n \<in> set binNames"
  shows "\<exists>bytes. last (fs # trace) n = Some bytes \<and>
    authentic lib key net untar asset target n bytes"
proof -
  from assms obtain tmp where
    tmp: "prepareUpdate lib key net untar flt running asset target = Inr tmp"
      "replaceAll flt tmp fs binNames = (Inr u, trace)"
    by (auto simp: DownloadAndApplyHubUpdate_def split: sum.splits)
  from prepareUpdate_Inr(3) [OF tmp(1)] obtain items where "extracted items (tmp, 2)" by blast
  from two_binaries [OF this assms(2)] obtain bytes where bytes: "map_of tmp n = Some bytes" by blast
  have "distinct binNames" by (simp add: binNames_def)
  from replaceAll_last [OF tmp(2) this, of n] bytes assms(2) prepared_authentic(2) [OF tmp(1) bytes]
  show ?thesis by simp
qed

subsection \<open>When an update is due\<close>

definition due :: "duration \<Rightarrow> string \<Rightarrow> pollEnv \<Rightarrow> string \<Rightarrow> time \<Rightarrow> bool" where
  "due soak current p tag published \<longleftrightarrow>
     IsNewer tag current \<and>
     (soak = 0 \<or> fst (poll_Urgent p tag) \<or>
      (published \<noteq> 0 \<and> soak \<le> timeSub (poll_Now p) published))"

lemma applyIfDue_iff:
  "applyIfDue current soak p =
   (if soak < 0 then (False, [])
    else case poll_Check p soak of
      None \<Rightarrow> (False, [])
    | Some (tag, published) \<Rightarrow>
        if due soak current p tag published then (poll_Install p tag, [tag]) else (False, []))"
  by (auto simp: applyIfDue_def applyIfDueWith_def due_def Let_def split: option.splits prod.splits)

lemma updaterLoop_due:
  assumes "tag \<in> set (updaterLoop current soak polls)"
  shows "0 \<le> soak \<and> (\<exists>p\<in>set polls. \<exists>published.
    poll_Check p soak = Some (tag, published) \<and> due soak current p tag published)"
  using assms
proof (induction polls)
  case Nil
  then show ?case by simp
next
  case (Cons p ps)
  then show ?case
    by (auto simp: applyIfDue_iff Let_def split: if_splits option.splits prod.splits)
qed

lemma updaterLoop_stops:
  assumes "updaterLoop current soak polls = tags @ [tag]"
  shows "list_all (\<lambda>t. list_ex (\<lambda>p. \<not> poll_Install p t) polls) tags"
  using assms
proof (induction polls arbitrary: tags)
  case Nil
  then show ?case by simp
next
  case (Cons p ps)
  have grow: "list_all (\<lambda>t. list_ex (\<lambda>p. \<not> poll_Install p t) (p # ps)) ts"
    if "list_all (\<lambda>t. list_ex (\<lambda>p. \<not> poll_Install p t) ps) ts" for ts
    using that by (auto simp: list_all_iff)
  obtain applied new where pi: "applyIfDue current soak p = (applied, new)" by force
  show ?case
  proof (cases "applied \<or> new = []")
    case True
    with Cons pi grow show ?thesis
      by (auto simp: applyIfDue_iff split: if_splits option.splits prod.splits)
  next
    case False
    with pi obtain t where t: "new = [t]" "\<not> poll_Install p t"
      by (auto simp: applyIfDue_iff split: if_splits option.splits prod.splits)
    show ?thesis
    proof (cases tags)
      case Nil
      then show ?thesis by simp
    next
      case (Cons t' ts)
      with Cons.prems pi False t have "t' = t" "updaterLoop current soak ps = ts @ [tag]" by auto
      with Cons.IH [of ts] grow t(2) Cons show ?thesis by simp
    qed
  qed
qed

lemma signedUrgent_signed:
  assumes "fst (signedUrgentFromManifest lib key net tag)"
  shows "\<exists>pub data m. key = Some pub \<and> Verify lib data pub = Inr m \<and> mf_Urgent m \<and>
    mf_Version m = trimPrefix tag ''v''"
proof -
  from assms obtain m where "fetchVerifiedManifest lib key net tag = Inr m" "mf_Urgent m"
    by (auto simp: signedUrgentFromManifest_def LatestManifest_def split: sum.splits if_splits)
  with fetchVerifiedManifest_Inr [OF this(1)] show ?thesis by blast
qed

subsection \<open>An update\<close>

definition exampleNet :: network where
  "exampleNet url =
     (if url = assetURL ''v0.5.0'' manifestAssetName
      then Some (200, Some (StdEncode ''m'' @ '','' @ StdEncode ''sig''))
      else if url = assetURL ''v0.5.0'' ''sshhub-linux-amd64.tar.gz'' then Some (200, Some ''gz'')
      else None)"

definition exampleArchive :: archive where
  "exampleArchive payload =
     (if payload = ''gz'' then Some
        [Some \<lparr>tar_Name = ''README'', tar_Regular = True, tar_Size = 3, tar_Content = Some ''txt''\<rparr>,
         Some \<lparr>tar_Name = ''sshhub'', tar_Regular = True, tar_Size = 3, tar_Content = Some ''hub''\<rparr>,
         Some \<lparr>tar_Name = ''sshhub-ctl'', tar_Regular = True, tar_Size = 3, tar_Content = Some ''ctl''\<rparr>]
      else None)"

definition smooth :: installFaults where
  "smooth = \<lparr>if_LockOpen = False, if_LockBusy = False, if_MkdirTemp = False,
     if_Create = (\<lambda>_. False), if_Rename = (\<lambda>_. False)\<rparr>"

definition exampleUpdate :: "(updateError + unit) \<times> (string \<rightharpoonup> string) list" where
  "exampleUpdate = DownloadAndApplyHubUpdate exampleLib (Some (replicate 32 CHR ''p'')) exampleNet
     exampleArchive smooth ''0.4.9'' ''sshhub-linux-amd64.tar.gz'' ''0.5.0'' Map.empty"

lemma exampleUpdate_succeeds: "fst exampleUpdate = Inr ()"
  by code_simp

lemma exampleUpdate_pair:
  "DownloadAndApplyHubUpdate exampleLib (Some (replicate 32 CHR ''p'')) exampleNet
     exampleArchive smooth ''0.4.9'' ''sshhub-linux-amd64.tar.gz'' ''0.5.0'' Map.empty =
   (Inr (), snd exampleUpdate)"
  using exampleUpdate_succeeds by (simp add: prod_eq_iff exampleUpdate_def)

definition examplePoll :: "time \<Rightarrow> pollEnv" where
  "examplePoll now = \<lparr>poll_Check = (\<lambda>soak. Some (''v0.5.0'', 1000)), poll_Install = (\<lambda>tag. True),
     poll_Urgent = (\<lambda>tag. (False, [])), poll_Now = now\<rparr>"

subsection \<open>Properties\<close>

text \<open>Only signed binaries are installed. Whatever the network, the archive and the system
  do, in every state of the installation directory a changed file is one of the two
  binaries and holds an entry of an archive whose digest is in a manifest that the trusted
  key signed for exactly the release asked for, and that release is newer than the running
  one. A failure before that leaves every file as it was.\<close>

theorem only_signed_binaries:
  assumes "DownloadAndApplyHubUpdate lib key net untar flt running asset target fs = (r, trace)"
    and "fs' \<in> set trace"
  shows "fs' n = fs n \<or> n \<in> set binNames \<and> IsNewer target running \<and>
    (\<exists>bytes. fs' n = Some bytes \<and> authentic lib key net untar asset target n bytes)"
  using assms by (rule Download_trace)

theorem only_signed_binaries_witness:
  "last (Map.empty # snd exampleUpdate) ''README'' = None"
proof (cases "snd exampleUpdate")
  case Nil
  then show ?thesis by simp
next
  case (Cons fs' rest)
  then have "last (snd exampleUpdate) \<in> set (snd exampleUpdate)" by simp
  from only_signed_binaries [OF exampleUpdate_pair this, of "''README''"] Cons show ?thesis
    by (simp add: binNames_def)
qed

text \<open>A successful update has installed both binaries, each from the signed archive.\<close>

theorem update_installs_both:
  assumes "DownloadAndApplyHubUpdate lib key net untar flt running asset target fs = (Inr u, trace)"
    and "n \<in> {''sshhub'', ''sshhub-ctl''}"
  shows "\<exists>bytes. last (fs # trace) n = Some bytes \<and>
    authentic lib key net untar asset target n bytes"
  using Download_success [OF assms(1)] assms(2) by (simp add: binNames_def)

theorem update_installs_both_witness:
  "last (Map.empty # snd exampleUpdate) ''sshhub-ctl'' \<noteq> None"
  using update_installs_both [OF exampleUpdate_pair, of "''sshhub-ctl''"] by auto

text \<open>The soak period is kept. The automatic updater hands a tag to the installer only if
  updates are not disabled and some check found that tag as the latest release, newer than
  the running version, and either there is no wait, or it is marked urgent, or it has been
  public, with a known time, for at least the wait.\<close>

theorem soak_respected:
  assumes "tag \<in> set (StartAutoUpdater current soak polls)"
  shows "0 \<le> soak \<and> (\<exists>p\<in>set polls. \<exists>published.
    poll_Check p soak = Some (tag, published) \<and> IsNewer tag current \<and>
    (soak = 0 \<or> fst (poll_Urgent p tag) \<or>
     (published \<noteq> 0 \<and> soak \<le> timeSub (poll_Now p) published)))"
  using updaterLoop_due [of tag current soak polls] assms
  by (auto simp: StartAutoUpdater_def due_def split: if_splits)

theorem soak_respected_witness:
  "\<exists>p\<in>set [examplePoll 50000, examplePoll 172800000001000]. \<exists>published.
     poll_Check p 172800000000000 = Some (''v0.5.0'', published) \<and>
     172800000000000 \<le> timeSub (poll_Now p) published"
proof -
  have "''v0.5.0'' \<in> set (StartAutoUpdater ''0.4.9'' 172800000000000
      [examplePoll 50000, examplePoll 172800000001000])"
    by code_simp
  from soak_respected [OF this] show ?thesis by (fastforce simp: examplePoll_def)
qed

text \<open>Skipping the wait takes the signing key. The urgent marker is believed only from a
  manifest that the trusted key signed for that very release: without a key, or with an
  unsigned, wrongly signed or mismatched manifest, a release is not urgent.\<close>

theorem urgent_needs_signature:
  assumes "fst (signedUrgentFromManifest lib key net tag)"
  shows "\<exists>pub data m. key = Some pub \<and> Verify lib data pub = Inr m \<and> mf_Urgent m \<and>
    mf_Version m = trimPrefix tag ''v''"
  using assms by (rule signedUrgent_signed)

theorem urgent_needs_signature_witness:
  "\<exists>pub data m. Some (replicate 32 CHR ''p'') = Some pub \<and> Verify exampleLib data pub = Inr m \<and>
     mf_Urgent m \<and> mf_Version m = trimPrefix ''v0.5.0'' ''v''"
proof (rule urgent_needs_signature)
  show "fst (signedUrgentFromManifest exampleLib (Some (replicate 32 CHR ''p'')) exampleNet ''v0.5.0'')"
    by code_simp
qed

text \<open>The loop ends with the first update that succeeds: every tag handed to the installer
  before the last one was refused by it.\<close>

theorem stops_after_update:
  assumes "StartAutoUpdater current soak polls = tags @ [tag]"
  shows "list_all (\<lambda>t. list_ex (\<lambda>p. \<not> poll_Install p t) polls) tags"
  using assms by (intro updaterLoop_stops [of current soak polls])
    (simp add: StartAutoUpdater_def split: if_splits)

theorem stops_after_update_witness:
  "list_all (\<lambda>t. list_ex (\<lambda>p. \<not> poll_Install p t)
     [(examplePoll 50)\<lparr>poll_Install := (\<lambda>tag. False)\<rparr>, examplePoll 60, examplePoll 70]) [''v0.5.0'']"
proof (rule stops_after_update)
  show "StartAutoUpdater ''0.4.9'' 0 [(examplePoll 50)\<lparr>poll_Install := (\<lambda>tag. False)\<rparr>,
      examplePoll 60, examplePoll 70] = [''v0.5.0''] @ [''v0.5.0'']"
    by code_simp
qed

end
