(* ===== verification/Agent_Update.thy ===== *)
theory Agent_Update
  imports Updater
begin

text \<open>
  \<open>cmd/sshhub-agent-update/main.go\<close>: the one-shot updater of the agent. What it prints and its
  exit are the constructors of \<open>agentOutcome\<close>; running the installer is one of them, with the
  arguments it is given.
\<close>

subsection \<open>The agent's arguments\<close>

datatype argsError = MalformedExecStart string | NoAgentFlags | SystemctlFailed

definition durableTokenFile :: string where
  "durableTokenFile = ''/etc/sshhub-agent/token''"

text \<open>The loop over the words of \<open>ExecStart\<close>.\<close>

fun collectArgs :: "string list \<Rightarrow> argsError + string list" where
  "collectArgs [] = Inr []"
| "collectArgs (f # fs) =
     (if f \<in> {''--hub'', ''--hub-pin'', ''--sshd''} then
        (case fs of
           [] \<Rightarrow> Inl (MalformedExecStart f)
         | v # rest \<Rightarrow> bindE (collectArgs rest) (\<lambda>args. Inr (f # v # args)))
      else if f = ''--token-file'' then
        (case fs of
           [] \<Rightarrow> Inl (MalformedExecStart f)
         | p # rest \<Rightarrow>
             let p = (if containsStr p ''/credentials/'' then durableTokenFile else p)
             in bindE (collectArgs rest) (\<lambda>args. Inr (''--token-file'' # p # args)))
      else collectArgs fs)"

definition currentAgentArgs :: "string option \<Rightarrow> argsError + string list" where
  "currentAgentArgs execStart =
     (case execStart of
        None \<Rightarrow> Inl SystemctlFailed
      | Some out \<Rightarrow>
          bindE (collectArgs (strFields out)) (\<lambda>args.
          bindE (refuse (args = []) NoAgentFlags) (\<lambda>_. Inr args)))"

subsection \<open>The update\<close>

datatype agentOutcome =
    NoKeyCompiledIn
  | CannotResolve
  | UpToDate
  | NoPublicationTime
  | StillSoaking
  | RefusedUpdate updateError
  | WouldInstall string
  | CannotDetermineArgs argsError
  | RunInstaller "string list"

definition agentUpdateMain ::
  "releaseLib \<Rightarrow> string option \<Rightarrow> network \<Rightarrow> (int \<times> (string \<times> time) option) option \<Rightarrow> string \<Rightarrow>
   duration \<Rightarrow> bool \<Rightarrow> string option \<Rightarrow> time \<Rightarrow> agentOutcome" where
  "agentUpdateMain lib trustedKey net api running soak dryRun execStart now =
     (if trustedKey = None then NoKeyCompiledIn
      else case FetchLatestRelease api of
        None \<Rightarrow> CannotResolve
      | Some (latest, published) \<Rightarrow>
          if \<not> IsNewer latest running then UpToDate
          else if 0 < soak \<and> published = 0 then NoPublicationTime
          else if 0 < soak \<and> timeSub now published < soak then StillSoaking
          else case LatestManifest lib trustedKey net latest of
            Inl err \<Rightarrow> RefusedUpdate err
          | Inr m \<Rightarrow>
              if dryRun then WouldInstall latest
              else case currentAgentArgs execStart of
                Inl err \<Rightarrow> CannotDetermineArgs err
              | Inr args \<Rightarrow> RunInstaller (args @ [''--version'', latest]))"

lemma containsStr_durable: "\<not> containsStr durableTokenFile ''/credentials/''"
  by code_simp

definition safeFlag :: "string \<times> string \<Rightarrow> bool" where
  "safeFlag fv \<longleftrightarrow>
     fst fv \<in> {''--hub'', ''--hub-pin'', ''--sshd'', ''--token-file''} \<and>
     (fst fv \<noteq> ''--token-file'' \<or> \<not> containsStr (snd fv) ''/credentials/'')"

abbreviation spelled :: "(string \<times> string) list \<Rightarrow> string list" where
  "spelled pairs \<equiv> concat (map (\<lambda>(f, v). [f, v]) pairs)"

lemma spelled_Cons:
  "safeFlag (f, v) \<Longrightarrow> \<exists>pairs. args = spelled pairs \<and> list_all safeFlag pairs \<Longrightarrow>
   \<exists>pairs. f # v # args = spelled pairs \<and> list_all safeFlag pairs"
  by (elim exE, rule_tac x = "(f, v) # pairs" in exI) simp

lemma collectArgs_pairs:
  "collectArgs fs = Inr args \<Longrightarrow> \<exists>pairs. args = spelled pairs \<and> list_all safeFlag pairs"
proof (induction fs arbitrary: args rule: collectArgs.induct)
  case 1
  then show ?case by (intro exI [of _ "[]"]) simp
next
  case (2 f fs)
  show ?case
  proof (cases "f \<in> {''--hub'', ''--hub-pin'', ''--sshd''}")
    case plain: True
    with "2.prems" obtain v rest args' where split: "fs = v # rest"
      "collectArgs rest = Inr args'" "args = f # v # args'"
      by (cases fs) auto
    have "safeFlag (f, v)" using plain by (auto simp: safeFlag_def)
    from spelled_Cons [OF this "2.IH"(1) [OF plain split(1,2)]] show ?thesis by (simp add: split)
  next
    case other: False
    show ?thesis
    proof (cases "f = ''--token-file''")
      case token: True
      define p' where "p' p = (if containsStr p ''/credentials/'' then durableTokenFile else p)" for p
      from other token "2.prems" obtain p rest args' where split: "fs = p # rest"
        "collectArgs rest = Inr args'" "args = ''--token-file'' # p' p # args'"
        by (cases fs) (auto simp: p'_def Let_def)
      have "safeFlag (''--token-file'', p' p)"
        by (simp add: safeFlag_def p'_def containsStr_durable)
      from spelled_Cons [OF this "2.IH"(2) [OF other token split(1) _ split(2)]] show ?thesis
        by (simp add: split)
    next
      case False
      with other "2.prems" "2.IH"(3) [OF other False] show ?thesis by simp
    qed
  qed
qed

lemma agentUpdate_runs:
  assumes "agentUpdateMain lib key net api running soak dryRun execStart now = RunInstaller args"
  shows "\<exists>latest published pub data m pairs. FetchLatestRelease api = Some (latest, published) \<and>
    IsNewer latest running \<and> (soak \<le> 0 \<or> published \<noteq> 0 \<and> soak \<le> timeSub now published) \<and>
    key = Some pub \<and> Verify lib data pub = Inr m \<and> mf_Version m = trimPrefix latest ''v'' \<and>
    args = spelled pairs @ [''--version'', latest] \<and> list_all safeFlag pairs"
proof -
  from assms obtain latest published m args' where
    l: "FetchLatestRelease api = Some (latest, published)" "IsNewer latest running"
      "soak \<le> 0 \<or> published \<noteq> 0 \<and> soak \<le> timeSub now published"
      "fetchVerifiedManifest lib key net latest = Inr m"
      "currentAgentArgs execStart = Inr args'" "args = args' @ [''--version'', latest]"
    by (auto simp: agentUpdateMain_def LatestManifest_def split: if_splits option.splits sum.splits)
  from l(5) obtain fs where "collectArgs fs = Inr args'"
    by (auto simp: currentAgentArgs_def split: option.splits)
  from collectArgs_pairs [OF this] fetchVerifiedManifest_Inr [OF l(4)] l(1-3,6)
  show ?thesis by blast
qed

subsection \<open>Properties\<close>

text \<open>C29: the agent's updater runs the installer only for a release newer than the agent, that
  has been public for the wait and whose manifest the trusted key signed; and it passes on
  nothing but the four known flags with their values, a token path inside a systemd
  credentials directory replaced by the durable one.\<close>

theorem agent_update_gate:
  assumes "agentUpdateMain lib key net api running soak dryRun execStart now = RunInstaller args"
  shows "\<exists>latest published pub data m pairs. FetchLatestRelease api = Some (latest, published) \<and>
    IsNewer latest running \<and> (soak \<le> 0 \<or> published \<noteq> 0 \<and> soak \<le> timeSub now published) \<and>
    key = Some pub \<and> Verify lib data pub = Inr m \<and> mf_Version m = trimPrefix latest ''v'' \<and>
    args = spelled pairs @ [''--version'', latest] \<and> list_all safeFlag pairs"
  using assms by (rule agentUpdate_runs)

theorem agent_update_gate_witness:
  "\<exists>latest pairs. [''--hub'', ''h:7443'', ''--token-file'', ''/etc/sshhub-agent/token'', ''--version'', ''v0.5.0''] =
     spelled pairs @ [''--version'', latest] \<and> list_all safeFlag pairs"
proof -
  have "agentUpdateMain exampleLib (Some (replicate 32 CHR ''p'')) exampleNet
      (Some (200, Some (''v0.5.0'', 5))) ''0.4.0'' 10 False
      (Some ''/bin/agent --hub h:7443 --token-file /run/credentials/tok'') 100 =
    RunInstaller [''--hub'', ''h:7443'', ''--token-file'', ''/etc/sshhub-agent/token'', ''--version'', ''v0.5.0'']"
    by code_simp
  from agent_update_gate [OF this] show ?thesis by blast
qed

end
