(* ===== verification/Auto_Update.thy ===== *)
theory Auto_Update
  imports Updater
begin

text \<open>
  \<open>internal/hubupdate/update.go\<close> put together: the background loop of \<open>applyIfDue\<close> with the check,
  the urgent marker and the installer that the program passes to it, over the installation
  directory that each turn leaves to the next; and the way of a release from the signing tool
  (\<open>cmd/sshhub-sign/main.go\<close>) to the installed binaries.
\<close>

subsection \<open>The program's own loop\<close>

text \<open>
  What one turn meets: the release redirect and the API's answer, the network at the look-up of
  the urgent marker and at the installation, the system's failures and the clock.
\<close>

record updateTurn =
  ut_Location :: "string option"
  ut_Api :: "(int \<times> (string \<times> time) option) option"
  ut_UrgentNet :: network
  ut_Net :: network
  ut_Faults :: installFaults
  ut_Now :: time

text \<open>What stays the same: the library, the trusted key, the archive readers, the running version and
  the name of the platform's archive.\<close>

record hubBuild =
  hb_Lib :: releaseLib
  hb_Key :: "string option"
  hb_Untar :: archive
  hb_Running :: string
  hb_Asset :: string

definition installRelease ::
  "hubBuild \<Rightarrow> updateTurn \<Rightarrow> (string \<rightharpoonup> string) \<Rightarrow> string \<Rightarrow>
   (updateError + unit) \<times> (string \<rightharpoonup> string) list" where
  "installRelease b w fs tag =
     DownloadAndApplyHubUpdate (hb_Lib b) (hb_Key b) (ut_Net w) (hb_Untar b) (ut_Faults w)
       (hb_Running b) (hb_Asset b) tag fs"

definition hubPoll :: "hubBuild \<Rightarrow> updateTurn \<Rightarrow> (string \<rightharpoonup> string) \<Rightarrow> pollEnv" where
  "hubPoll b w fs =
     \<lparr>poll_Check = defaultChecker (ut_Location w) (ut_Api w),
      poll_Install = (\<lambda>tag. fst (installRelease b w fs tag) = Inr ()),
      poll_Urgent = signedUrgentFromManifest (hb_Lib b) (hb_Key b) (ut_UrgentNet w),
      poll_Now = ut_Now w\<rparr>"

text \<open>A turn: whether the service restarts, and the states the directory passes through.\<close>

definition updateTurnOf ::
  "hubBuild \<Rightarrow> duration \<Rightarrow> updateTurn \<Rightarrow> (string \<rightharpoonup> string) \<Rightarrow> bool \<times> (string \<rightharpoonup> string) list" where
  "updateTurnOf b soak w fs =
     (let (applied, tags) = applyIfDue (hb_Running b) soak (hubPoll b w fs)
      in (applied, concat (map (\<lambda>tag. snd (installRelease b w fs tag)) tags)))"

primrec updateTurns ::
  "hubBuild \<Rightarrow> duration \<Rightarrow> updateTurn list \<Rightarrow> (string \<rightharpoonup> string) \<Rightarrow> (string \<rightharpoonup> string) list" where
  "updateTurns b soak [] fs = []"
| "updateTurns b soak (w # ws) fs =
     (let (applied, trace) = updateTurnOf b soak w fs
      in if applied then trace else trace @ updateTurns b soak ws (last (fs # trace)))"

definition autoUpdates ::
  "hubBuild \<Rightarrow> duration \<Rightarrow> updateTurn list \<Rightarrow> (string \<rightharpoonup> string) \<Rightarrow> (string \<rightharpoonup> string) list" where
  "autoUpdates b soak ws fs = (if soak < 0 then [] else updateTurns b soak ws fs)"

subsection \<open>What a turn does\<close>

text \<open>A release a turn may install: the latest one, newer, and waited for or signed as urgent.\<close>

definition mayInstall :: "hubBuild \<Rightarrow> duration \<Rightarrow> updateTurn \<Rightarrow> string \<Rightarrow> bool" where
  "mayInstall b soak w tag \<longleftrightarrow>
     IsNewer tag (hb_Running b) \<and>
     (soak = 0 \<and> FetchLatestVersion (ut_Location w) (ut_Api w) = Some tag \<or>
      0 < soak \<and> (\<exists>published. FetchLatestRelease (ut_Api w) = Some (tag, published) \<and>
        (published \<noteq> 0 \<and> soak \<le> timeSub (ut_Now w) published \<or>
         (\<exists>pub data m. hb_Key b = Some pub \<and> Verify (hb_Lib b) data pub = Inr m \<and> mf_Urgent m \<and>
            mf_Version m = trimPrefix tag ''v''))))"

lemma applyIfDue_mayInstall:
  assumes "applyIfDue (hb_Running b) soak (hubPoll b w fs) = (applied, tags)"
  shows "tags = [] \<and> \<not> applied \<or>
    (\<exists>tag. tags = [tag] \<and> mayInstall b soak w tag \<and>
       (applied \<longleftrightarrow> fst (installRelease b w fs tag) = Inr ()))"
  using assms
  by (auto simp: applyIfDue_iff hubPoll_def due_def defaultChecker_def mayInstall_def
      dest!: signedUrgent_signed split: if_splits option.splits)

lemma turn_changes:
  assumes "updateTurnOf b soak w fs = (applied, trace)" "fs' \<in> set trace"
  shows "fs' n = fs n \<or> n \<in> set binNames \<and>
    (\<exists>tag bytes. fs' n = Some bytes \<and> mayInstall b soak w tag \<and>
       authentic (hb_Lib b) (hb_Key b) (ut_Net w) (hb_Untar b) (hb_Asset b) tag n bytes)"
proof -
  obtain applied' tags where due: "applyIfDue (hb_Running b) soak (hubPoll b w fs) = (applied', tags)"
    by (metis prod.exhaust)
  with applyIfDue_mayInstall [OF due] assms obtain tag
    where tag: "mayInstall b soak w tag" "fs' \<in> set (snd (installRelease b w fs tag))"
    by (auto simp: updateTurnOf_def)
  obtain r t where run: "installRelease b w fs tag = (r, t)" by (metis prod.exhaust)
  with tag(2) have "fs' \<in> set t" by simp
  from Download_trace [OF run [unfolded installRelease_def] this, of n] tag(1) show ?thesis by blast
qed

lemma turns_change:
  assumes "fs' \<in> set (updateTurns b soak ws fs)"
  shows "fs' n = fs n \<or> n \<in> set binNames \<and>
    (\<exists>w\<in>set ws. \<exists>tag bytes. fs' n = Some bytes \<and> mayInstall b soak w tag \<and>
       authentic (hb_Lib b) (hb_Key b) (ut_Net w) (hb_Untar b) (hb_Asset b) tag n bytes)"
  using assms
proof (induction ws arbitrary: fs)
  case Nil
  then show ?case by simp
next
  case (Cons w ws)
  obtain applied trace where turn: "updateTurnOf b soak w fs = (applied, trace)" by force
  note change = turn_changes [OF turn]
  show ?case
  proof (cases "fs' \<in> set trace")
    case True
    from change [OF this, of n] show ?thesis by auto
  next
    case False
    with Cons.prems turn have later: "fs' \<in> set (updateTurns b soak ws (last (fs # trace)))"
      by (auto split: if_splits)
    have "last (fs # trace) = fs \<or> last (fs # trace) \<in> set trace" by simp
    with Cons.IH [OF later] change [of "last (fs # trace)" n] show ?thesis by (auto split: if_splits)
  qed
qed

subsection \<open>From the signing tool to the installation\<close>

text \<open>The archive that the release workflow packs: the two binaries, under their own names.\<close>

definition packed :: "string \<Rightarrow> string \<Rightarrow> tarHeader option list" where
  "packed hub ctl = map (\<lambda>(n, bytes). Some \<lparr>tar_Name = n, tar_Regular = True,
     tar_Size = int (length bytes), tar_Content = Some bytes\<rparr>) [(''sshhub'', hub), (''sshhub-ctl'', ctl)]"

text \<open>A binary is not empty and not larger than what the updater takes.\<close>

definition binarySize :: "string \<Rightarrow> bool" where
  "binarySize bytes \<longleftrightarrow> bytes \<noteq> [] \<and> length bytes \<le> maxArtifactBytes"

lemma extract_packed:
  assumes "binarySize hub" "binarySize ctl"
  shows "foldE (extractItem smooth) ([], 0) (packed hub ctl) =
    Inr ([(''sshhub-ctl'', ctl), (''sshhub'', hub)], 2)"
proof -
  have "filepathBase ''sshhub'' = ''sshhub''" "filepathBase ''sshhub-ctl'' = ''sshhub-ctl''"
    by code_simp+
  then show ?thesis
    using assms by (simp add: packed_def extractItem_def smooth_def binarySize_def not_less)
qed

text \<open>What the network serves of a release: its manifest and the platform's archive.\<close>

definition hosts :: "hubBuild \<Rightarrow> network \<Rightarrow> string \<Rightarrow> string \<Rightarrow> string \<Rightarrow> bool" where
  "hosts b net tag data payload \<longleftrightarrow>
     net (assetURL (updateTag tag) manifestAssetName) = Some (200, Some data) \<and>
     length data \<le> maxManifestBytes \<and>
     net (assetURL (updateTag tag) (hb_Asset b)) = Some (200, Some payload) \<and>
     length payload < maxArtifactBytes"

lemma install_hosted:
  assumes hosted: "hosts b (ut_Net w) tag data payload" and key: "hb_Key b = Some pub"
    and ver: "Verify (hb_Lib b) data pub = Inr m" "mf_Version m = trimPrefix (updateTag tag) ''v''"
      "VerifyArtifact (hb_Lib b) m (hb_Asset b) payload = Inr ()"
    and arch: "hb_Untar b payload = Some (packed hub ctl)" "binarySize hub" "binarySize ctl"
    and tag: "releaseTag tag" "IsNewer tag (hb_Running b)" and flt: "ut_Faults w = smooth"
  shows "installRelease b w fs tag =
    (Inr (), [fs(''sshhub'' \<mapsto> hub), fs(''sshhub'' \<mapsto> hub, ''sshhub-ctl'' \<mapsto> ctl)])"
proof -
  have ne: "updateTag tag \<noteq> []" using tag(1) by (auto simp: updateTag_def releaseTag_def hasPrefix_def)
  have "fetchVerifiedManifest (hb_Lib b) (hb_Key b) (ut_Net w) (updateTag tag) = Inr m"
    using hosted key ver(1,2) ne by (simp add: fetchVerifiedManifest_def hosts_def)
  moreover have "take maxArtifactBytes payload = payload" "length payload \<noteq> maxArtifactBytes"
    using hosted by (simp_all add: hosts_def)
  ultimately have "prepareUpdate (hb_Lib b) (hb_Key b) (ut_Net w) (hb_Untar b) (ut_Faults w)
      (hb_Running b) (hb_Asset b) tag = Inr [(''sshhub-ctl'', ctl), (''sshhub'', hub)]"
    using hosted ver(3) arch tag extract_packed [OF arch(2,3)]
    unfolding prepareUpdate_def Let_def updateTag_def [symmetric] flt
    by (simp add: hosts_def smooth_def)
  then show ?thesis
    by (simp add: installRelease_def DownloadAndApplyHubUpdate_def binNames_def flt smooth_def Let_def)
qed

text \<open>A release the tool signed and the network serves is one that \<open>install_hosted\<close> speaks of.\<close>

lemma published_verifies:
  assumes "signManifest lib env readFile readDir t args = Inr (m, data)"
    and "\<And>sm d. marshalSigned lib sm = Some d \<Longrightarrow> unmarshalSigned lib d = Some sm"
    and "\<And>body. marshalManifest lib m = Some body \<Longrightarrow> body \<noteq> [] \<and> unmarshalManifest lib body = Some m"
    and "\<And>f priv body. loadPrivateKey env readFile f = Inr priv \<Longrightarrow>
      ed25519_Sign lib priv body \<noteq> [] \<and> ed25519_Verify lib pub body (ed25519_Sign lib priv body)"
    and "length pub = PublicKeySize"
    and "\<And>d es. readDir d = Some es \<Longrightarrow> es = entries" "distinct (map fst entries)"
    and "(asset, Contents payload) \<in> set entries" "hasSuffix asset ''.tar.gz''"
  shows "Verify lib data pub = Inr m" "VerifyArtifact lib m asset payload = Inr ()"
proof -
  have ok: "Verify lib data pub = Inr m \<and>
    list_all (\<lambda>(n, content). case content of Contents bytes \<Rightarrow>
        if hasSuffix n ''.tar.gz'' then VerifyArtifact lib m n bytes = Inr () else True
      | _ \<Rightarrow> True)
      entries"
    using assms(1-7) by (rule signed_release_accepted)
  then show "Verify lib data pub = Inr m" ..
  from ok have "list_all (\<lambda>(n, content). case content of Contents bytes \<Rightarrow>
        if hasSuffix n ''.tar.gz'' then VerifyArtifact lib m n bytes = Inr () else True
      | _ \<Rightarrow> True)
      entries" ..
  with assms(8,9) show "VerifyArtifact lib m asset payload = Inr ()"
    unfolding list_all_iff by (auto dest: bspec [where x = "(asset, Contents payload)"])
qed

subsection \<open>A hub that updates itself\<close>

definition exampleBuild :: hubBuild where
  "exampleBuild = \<lparr>hb_Lib = exampleLib, hb_Key = Some (replicate 32 CHR ''p''),
     hb_Untar = (\<lambda>payload. if payload = ''gz'' then Some (packed ''hub'' ''ctl'') else None),
     hb_Running = ''0.4.9'', hb_Asset = ''sshhub-linux-amd64.tar.gz''\<rparr>"

definition exampleTurn :: "(string \<times> time) option \<Rightarrow> time \<Rightarrow> updateTurn" where
  "exampleTurn latest now = \<lparr>ut_Location = None, ut_Api = Some (200, latest), ut_UrgentNet = (\<lambda>_. None),
     ut_Net = exampleNet, ut_Faults = smooth, ut_Now = now\<rparr>"

subsection \<open>Properties\<close>

text \<open>C5: the updater as the program starts it is safe. Over any number of turns, with any network,
  failures and clock, every change of the installation directory puts into one of the two binaries
  what the trusted key signed for a release, and that release is newer than the running version
  and, unless no wait is configured, was public for the wait or is marked urgent by the same
  key. A disabled updater changes nothing.\<close>

theorem auto_update_safe:
  assumes "fs' \<in> set (autoUpdates b soak ws fs)"
  shows "0 \<le> soak \<and> (fs' n = fs n \<or> n \<in> set binNames \<and>
    (\<exists>w\<in>set ws. \<exists>tag bytes. fs' n = Some bytes \<and>
       authentic (hb_Lib b) (hb_Key b) (ut_Net w) (hb_Untar b) (hb_Asset b) tag n bytes \<and>
       IsNewer tag (hb_Running b) \<and>
       (soak = 0 \<or>
        (\<exists>published. FetchLatestRelease (ut_Api w) = Some (tag, published) \<and> published \<noteq> 0 \<and>
           soak \<le> timeSub (ut_Now w) published) \<or>
        (\<exists>pub data m. hb_Key b = Some pub \<and> Verify (hb_Lib b) data pub = Inr m \<and> mf_Urgent m \<and>
           mf_Version m = trimPrefix tag ''v''))))"
  using assms turns_change [of fs' b soak ws fs n]
  by (auto simp: autoUpdates_def mayInstall_def split: if_splits) blast+

theorem auto_update_safe_witness:
  "\<exists>w\<in>set [exampleTurn None 5, exampleTurn (Some (''v0.5.0'', 1000)) 2000]. \<exists>tag bytes.
     ''hub'' = bytes \<and> IsNewer tag ''0.4.9'' \<and>
     authentic exampleLib (hb_Key exampleBuild) (ut_Net w) (hb_Untar exampleBuild)
       (hb_Asset exampleBuild) tag ''sshhub'' bytes"
proof -
  let ?ws = "[exampleTurn None 5, exampleTurn (Some (''v0.5.0'', 1000)) 2000]"
  have run: "map (\<lambda>fs. fs ''sshhub'') (autoUpdates exampleBuild 1000 ?ws Map.empty) =
      [Some ''hub'', Some ''hub'']"
    by code_simp
  then obtain fs' rest where fs': "autoUpdates exampleBuild 1000 ?ws Map.empty = fs' # rest"
    "fs' ''sshhub'' = Some ''hub''" by auto
  then have "fs' \<in> set (autoUpdates exampleBuild 1000 ?ws Map.empty)" by simp
  from auto_update_safe [OF this, of "''sshhub''"] fs'(2) show ?thesis
    unfolding exampleBuild_def by fastforce
qed

text \<open>C9: a published release gets installed. When the signing tool signed a release for a version,
  the network serves what it wrote together with the platform's archive as the workflow packs it,
  the release is the latest, is newer and has been public for the wait, then a turn without
  failures replaces both binaries with the packed ones, one after the other, and the service
  restarts.\<close>

theorem published_release_installed:
  assumes run: "signManifest (hb_Lib b) env readFile readDir t args = Inr (m, data)"
    and json: "\<And>sm d. marshalSigned (hb_Lib b) sm = Some d \<Longrightarrow> unmarshalSigned (hb_Lib b) d = Some sm"
      "\<And>body. marshalManifest (hb_Lib b) m = Some body \<Longrightarrow>
        body \<noteq> [] \<and> unmarshalManifest (hb_Lib b) body = Some m"
    and pair: "\<And>f priv body. loadPrivateKey env readFile f = Inr priv \<Longrightarrow>
      ed25519_Sign (hb_Lib b) priv body \<noteq> [] \<and>
      ed25519_Verify (hb_Lib b) pub body (ed25519_Sign (hb_Lib b) priv body)"
    and key: "hb_Key b = Some pub" "length pub = PublicKeySize"
    and dir: "\<And>d es. readDir d = Some es \<Longrightarrow> es = entries" "distinct (map fst entries)"
      "(hb_Asset b, Contents payload) \<in> set entries" "hasSuffix (hb_Asset b) ''.tar.gz''"
    and arch: "hb_Untar b payload = Some (packed hub ctl)" "binarySize hub" "binarySize ctl"
    and hosted: "hosts b (ut_Net w) tag data payload" "ut_Faults w = smooth"
    and tag: "releaseTag tag" "mf_Version m = trimPrefix (updateTag tag) ''v''" "IsNewer tag (hb_Running b)"
    and due: "0 < soak" "FetchLatestRelease (ut_Api w) = Some (tag, published)" "published \<noteq> 0"
      "soak \<le> timeSub (ut_Now w) published"
  shows "updateTurnOf b soak w fs =
    (True, [fs(''sshhub'' \<mapsto> hub), fs(''sshhub'' \<mapsto> hub, ''sshhub-ctl'' \<mapsto> ctl)])"
proof -
  from published_verifies [OF run json pair key(2) dir]
  have ver: "Verify (hb_Lib b) data pub = Inr m" "VerifyArtifact (hb_Lib b) m (hb_Asset b) payload = Inr ()"
    by simp_all
  have inst: "installRelease b w fs tag =
      (Inr (), [fs(''sshhub'' \<mapsto> hub), fs(''sshhub'' \<mapsto> hub, ''sshhub-ctl'' \<mapsto> ctl)])"
    by (rule install_hosted [OF hosted(1) key(1) ver(1) tag(2) ver(2) arch tag(1,3) hosted(2)])
  with due tag(3) show ?thesis
    by (simp add: updateTurnOf_def applyIfDue_iff hubPoll_def due_def defaultChecker_def)
qed

theorem published_release_installed_witness:
  "updateTurnOf exampleBuild 1000 (exampleTurn (Some (''v0.5.0'', 1000)) 2000) Map.empty =
     (True, [[''sshhub'' \<mapsto> ''hub''], [''sshhub'' \<mapsto> ''hub'', ''sshhub-ctl'' \<mapsto> ''ctl'']])"
proof (rule published_release_installed)
  show "signManifest (hb_Lib exampleBuild) (StdEncode (replicate 64 CHR ''k'')) (\<lambda>_. None)
      (\<lambda>d. if d = ''dist'' then Some exampleEntries else None) 7123456789 exampleArgs =
     Inr (exampleManifest, StdEncode ''m'' @ '','' @ StdEncode ''sig'')"
    by (simp add: exampleBuild_def exampleManifest_signed)
  show "hosts exampleBuild (ut_Net (exampleTurn (Some (''v0.5.0'', 1000)) 2000)) ''v0.5.0''
      (StdEncode ''m'' @ '','' @ StdEncode ''sig'') ''gz''"
    by code_simp
  show "releaseTag ''v0.5.0''" "IsNewer ''v0.5.0'' (hb_Running exampleBuild)"
    "mf_Version exampleManifest = trimPrefix (updateTag ''v0.5.0'') ''v''"
    "hasSuffix (hb_Asset exampleBuild) ''.tar.gz''"
    by code_simp+
qed (auto simp: exampleBuild_def exampleLib_def exampleEntries_def exampleTurn_def PublicKeySize_def
    binarySize_def maxArtifactBytes_def FetchLatestRelease_def timeSub_def min_duration_def
    max_duration_def split: if_splits)

end
