(* ===== verification/Update_Lock.thy ===== *)
theory Update_Lock
  imports Auto_Update
begin

text \<open>
  Several updaters over one installation directory: the background loop of the hub and
  \<open>sshhub-ctl update\<close> call \<open>DownloadAndApplyHubUpdate\<close> of \<open>internal/hubupdate/update.go\<close> in processes
  of their own. The calls are cut into the steps that other processes can come between; the lock
  on \<open>.sshhub-update.lock\<close> is the only thing they share besides the directory.
\<close>

subsection \<open>One call in steps\<close>

record updateCall =
  uc_Build :: hubBuild
  uc_Turn :: updateTurn
  uc_Target :: string

text \<open>What a call checks until it has the lock; \<open>busy\<close> is whether another process holds it.\<close>

definition takeLock :: "updateCall \<Rightarrow> bool \<Rightarrow> updateError + unit" where
  "takeLock c busy =
     bindE (refuse (\<not> releaseTag (uc_Target c)) InvalidReleaseVersion) (\<lambda>_.
     bindE (refuse (\<not> IsNewer (uc_Target c) (hb_Running (uc_Build c))) NotNewer) (\<lambda>_.
     bindE (refuse (if_LockOpen (ut_Faults (uc_Turn c))) LockFailed) (\<lambda>_.
     refuse busy AlreadyRunning)))"

text \<open>The call with the lock in its hands, up to the replacement, and all of it at one moment.\<close>

definition unlockedFaults :: "updateCall \<Rightarrow> installFaults" where
  "unlockedFaults c = (ut_Faults (uc_Turn c))\<lparr>if_LockBusy := False\<rparr>"

definition prepareCall :: "updateCall \<Rightarrow> updateError + (string \<times> string) list" where
  "prepareCall c =
     (let b = uc_Build c in
      prepareUpdate (hb_Lib b) (hb_Key b) (ut_Net (uc_Turn c)) (hb_Untar b) (unlockedFaults c)
        (hb_Running b) (hb_Asset b) (uc_Target c))"

definition wholeCall ::
  "updateCall \<Rightarrow> (string \<rightharpoonup> string) \<Rightarrow> (updateError + unit) \<times> (string \<rightharpoonup> string) list" where
  "wholeCall c fs =
     (let b = uc_Build c in
      DownloadAndApplyHubUpdate (hb_Lib b) (hb_Key b) (ut_Net (uc_Turn c)) (hb_Untar b)
        (unlockedFaults c) (hb_Running b) (hb_Asset b) (uc_Target c) fs)"

datatype updPhase =
    Calling updateCall
  | Locked updateCall
  | Replacing updateCall "(string \<times> string) list" "string list"
  | Returned updateCall "updateError + unit"

text \<open>
  \<open>us_Log\<close> is the history of the lock: who gave it back, of which call, and with which result, \<open>None\<close>
  for a process that was killed.
\<close>

record updSystem =
  us_Files :: "string \<rightharpoonup> string"
  us_Lock :: "nat option"
  us_Procs :: "nat \<rightharpoonup> updPhase"
  us_Log :: "(nat \<times> updateCall \<times> (updateError + unit) option) list"

definition startSystem :: "(string \<rightharpoonup> string) \<Rightarrow> updSystem" where
  "startSystem fs = \<lparr>us_Files = fs, us_Lock = None, us_Procs = Map.empty, us_Log = []\<rparr>"

definition setProc :: "updSystem \<Rightarrow> nat \<Rightarrow> updPhase \<Rightarrow> updSystem" where
  "setProc s p ph = s\<lparr>us_Procs := (us_Procs s)(p \<mapsto> ph)\<rparr>"

text \<open>The deferred unlock runs on every return.\<close>

definition returnFrom :: "updSystem \<Rightarrow> nat \<Rightarrow> updateCall \<Rightarrow> updateError + unit \<Rightarrow> updSystem" where
  "returnFrom s p c r =
     (setProc s p (Returned c r))\<lparr>us_Lock := None, us_Log := us_Log s @ [(p, c, Some r)]\<rparr>"

text \<open>The call that a process makes under the lock, if it has it.\<close>

fun underLock :: "updPhase \<Rightarrow> updateCall option" where
  "underLock (Locked c) = Some c"
| "underLock (Replacing c tmp ns) = Some c"
| "underLock ph = None"

text \<open>The operating system takes the lock of a killed process away.\<close>

definition kill :: "updSystem \<Rightarrow> nat \<Rightarrow> updPhase \<Rightarrow> updSystem" where
  "kill s p ph =
     (let s = s\<lparr>us_Procs := (us_Procs s)(p := None)\<rparr> in
      case underLock ph of
        None \<Rightarrow> s
      | Some c \<Rightarrow> s\<lparr>us_Lock := None, us_Log := us_Log s @ [(p, c, None)]\<rparr>)"

text \<open>\<open>mayDie\<close> allows a process to be killed.\<close>

inductive updStep :: "bool \<Rightarrow> updSystem \<Rightarrow> updSystem \<Rightarrow> bool" for mayDie where
  Call:
    "us_Procs s p = None \<Longrightarrow> updStep mayDie s (setProc s p (Calling c))"
| NoLock:
    "us_Procs s p = Some (Calling c) \<Longrightarrow> takeLock c (us_Lock s \<noteq> None) = Inl err \<Longrightarrow>
     updStep mayDie s (setProc s p (Returned c (Inl err)))"
| Lock:
    "us_Procs s p = Some (Calling c) \<Longrightarrow> takeLock c (us_Lock s \<noteq> None) = Inr u \<Longrightarrow>
     updStep mayDie s ((setProc s p (Locked c))\<lparr>us_Lock := Some p\<rparr>)"
| Unprepared:
    "us_Procs s p = Some (Locked c) \<Longrightarrow> prepareCall c = Inl err \<Longrightarrow>
     updStep mayDie s (returnFrom s p c (Inl err))"
| Prepared:
    "us_Procs s p = Some (Locked c) \<Longrightarrow> prepareCall c = Inr tmp \<Longrightarrow>
     updStep mayDie s (setProc s p (Replacing c tmp binNames))"
| Missing:
    "us_Procs s p = Some (Replacing c tmp (n # ns)) \<Longrightarrow> map_of tmp n = None \<Longrightarrow>
     updStep mayDie s (setProc s p (Replacing c tmp ns))"
| Replace:
    "us_Procs s p = Some (Replacing c tmp (n # ns)) \<Longrightarrow> map_of tmp n = Some bytes \<Longrightarrow>
     replaceBinary (unlockedFaults c) n bytes (us_Files s) = Some fs \<Longrightarrow>
     updStep mayDie s ((setProc s p (Replacing c tmp ns))\<lparr>us_Files := fs\<rparr>)"
| NotReplaced:
    "us_Procs s p = Some (Replacing c tmp (n # ns)) \<Longrightarrow> map_of tmp n = Some bytes \<Longrightarrow>
     replaceBinary (unlockedFaults c) n bytes (us_Files s) = None \<Longrightarrow>
     updStep mayDie s (returnFrom s p c (Inl (ReplaceFailed n)))"
| Installed:
    "us_Procs s p = Some (Replacing c tmp []) \<Longrightarrow> updStep mayDie s (returnFrom s p c (Inr ()))"
| Dies:
    "mayDie \<Longrightarrow> us_Procs s p = Some ph \<Longrightarrow> updStep mayDie s (kill s p ph)"

inductive updReach :: "bool \<Rightarrow> (string \<rightharpoonup> string) \<Rightarrow> updSystem \<Rightarrow> bool" for mayDie fs where
  Start: "updReach mayDie fs (startSystem fs)"
| Step: "updReach mayDie fs s \<Longrightarrow> updStep mayDie s s' \<Longrightarrow> updReach mayDie fs s'"

subsection \<open>One call after the other\<close>

text \<open>
  The specification: the calls of a history, made as a whole in this order on the directory \<open>fs0\<close>,
  with their results. The call of a killed process is cut short somewhere.
\<close>

inductive serial ::
  "(string \<rightharpoonup> string) \<Rightarrow> (nat \<times> updateCall \<times> (updateError + unit) option) list \<Rightarrow> (string \<rightharpoonup> string) \<Rightarrow> bool"
  for fs0 where
  Untouched: "serial fs0 [] fs0"
| Whole: "serial fs0 hist fs \<Longrightarrow> wholeCall c fs = (r, trace) \<Longrightarrow>
    serial fs0 (hist @ [(p, c, Some r)]) (last (fs # trace))"
| CutShort: "serial fs0 hist fs \<Longrightarrow>
    serial fs0 (hist @ [(p, c, None)]) (last (fs # take k (snd (wholeCall c fs))))"

text \<open>Where a call in the middle of its replacements stands: \<open>done\<close> are the states behind it.\<close>

definition midway ::
  "(string \<rightharpoonup> string) \<Rightarrow> (nat \<times> updateCall \<times> (updateError + unit) option) list \<Rightarrow> updateCall \<Rightarrow>
   (string \<times> string) list \<Rightarrow> string list \<Rightarrow> (string \<rightharpoonup> string) \<Rightarrow> bool" where
  "midway fs0 hist c tmp ns fs \<longleftrightarrow>
     (\<exists>fs1 before. serial fs0 hist fs1 \<and> fs = last (fs1 # before) \<and>
        wholeCall c fs1 = (fst (replaceAll (unlockedFaults c) tmp fs ns),
          before @ snd (replaceAll (unlockedFaults c) tmp fs ns)))"

text \<open>What the directory holds while a process works under the lock.\<close>

fun progress ::
  "(string \<rightharpoonup> string) \<Rightarrow> (nat \<times> updateCall \<times> (updateError + unit) option) list \<Rightarrow> updPhase option \<Rightarrow>
   (string \<rightharpoonup> string) \<Rightarrow> bool" where
  "progress fs0 hist (Some (Locked c)) fs \<longleftrightarrow> serial fs0 hist fs"
| "progress fs0 hist (Some (Replacing c tmp ns)) fs \<longleftrightarrow> midway fs0 hist c tmp ns fs"
| "progress fs0 hist ph fs \<longleftrightarrow> False"

definition holdsLock :: "updPhase \<Rightarrow> bool" where
  "holdsLock ph \<longleftrightarrow> underLock ph \<noteq> None"

lemma holdsLock_simps [simp]:
  "holdsLock (Locked c)" "holdsLock (Replacing c tmp ns)"
  "\<not> holdsLock (Calling c)" "\<not> holdsLock (Returned c r)"
  by (simp_all add: holdsLock_def)

text \<open>
  A process that has returned has its one entry in the history, unless it was refused before it
  had the lock.
\<close>

definition refused :: "updateCall \<Rightarrow> updateError + unit \<Rightarrow> bool" where
  "refused c r \<longleftrightarrow> (\<exists>busy err. takeLock c busy = Inl err \<and> r = Inl err)"

definition logInv :: "bool \<Rightarrow> updSystem \<Rightarrow> bool" where
  "logInv mayDie s \<longleftrightarrow>
     (\<forall>p c r. us_Procs s p = Some (Returned c r) \<longrightarrow> (p, c, Some r) \<in> set (us_Log s) \<or> refused c r) \<and>
     (\<not> mayDie \<longrightarrow> distinct (map fst (us_Log s)) \<and>
        list_all (\<lambda>(p, c, e). \<exists>r. e = Some r \<and> us_Procs s p = Some (Returned c r)) (us_Log s))"

definition lockInv :: "(string \<rightharpoonup> string) \<Rightarrow> updSystem \<Rightarrow> bool" where
  "lockInv fs0 s \<longleftrightarrow>
     (\<forall>p ph. us_Procs s p = Some ph \<longrightarrow> holdsLock ph \<longrightarrow> us_Lock s = Some p) \<and>
     (case us_Lock s of
        None \<Rightarrow> serial fs0 (us_Log s) (us_Files s)
      | Some p \<Rightarrow> progress fs0 (us_Log s) (us_Procs s p) (us_Files s))"

lemma takeLock_free: "takeLock c busy = Inr u \<Longrightarrow> \<not> busy"
  by (simp add: takeLock_def)

lemma wholeCall_prepared:
  "prepareCall c = Inr tmp \<Longrightarrow> wholeCall c fs = replaceAll (unlockedFaults c) tmp fs binNames"
  by (simp add: prepareCall_def wholeCall_def DownloadAndApplyHubUpdate_def Let_def)

lemma wholeCall_unprepared: "prepareCall c = Inl err \<Longrightarrow> wholeCall c fs = (Inl err, [])"
  by (simp add: prepareCall_def wholeCall_def DownloadAndApplyHubUpdate_def Let_def)

lemma midway_start:
  assumes "serial fs0 hist fs" "prepareCall c = Inr tmp"
  shows "midway fs0 hist c tmp binNames fs"
  unfolding midway_def
  using assms wholeCall_prepared [OF assms(2)] by (intro exI [of _ fs] exI [of _ "[]"]) simp

lemma midway_skip:
  "midway fs0 hist c tmp (n # ns) fs \<Longrightarrow> map_of tmp n = None \<Longrightarrow> midway fs0 hist c tmp ns fs"
  by (simp add: midway_def)

lemma midway_replace:
  assumes "midway fs0 hist c tmp (n # ns) fs" "map_of tmp n = Some bytes"
    "replaceBinary (unlockedFaults c) n bytes fs = Some fs'"
  shows "midway fs0 hist c tmp ns fs'"
proof -
  from assms(1) obtain fs1 before where w: "serial fs0 hist fs1"
    "wholeCall c fs1 = (fst (replaceAll (unlockedFaults c) tmp fs (n # ns)),
       before @ snd (replaceAll (unlockedFaults c) tmp fs (n # ns)))"
    unfolding midway_def by blast
  have "replaceAll (unlockedFaults c) tmp fs (n # ns) =
      (fst (replaceAll (unlockedFaults c) tmp fs' ns), fs' # snd (replaceAll (unlockedFaults c) tmp fs' ns))"
    using assms(2,3) by (simp add: Let_def split_beta split: if_splits)
  with w show ?thesis
    unfolding midway_def by (intro exI [of _ fs1] exI [of _ "before @ [fs']"]) simp
qed

text \<open>A call that returns, or is killed, leaves what the specification says.\<close>

lemma midway_returns:
  assumes "midway fs0 hist c tmp ns fs" "replaceAll (unlockedFaults c) tmp fs ns = (r, [])"
  shows "serial fs0 (hist @ [(p, c, Some r)]) fs"
proof -
  from assms obtain fs1 before where "serial fs0 hist fs1" "fs = last (fs1 # before)"
    "wholeCall c fs1 = (r, before)"
    unfolding midway_def by auto
  with Whole [of fs0 hist fs1 c r before p] show ?thesis by simp
qed

lemma progress_killed:
  assumes "progress fs0 hist (Some ph) fs" "underLock ph = Some c"
  shows "serial fs0 (hist @ [(p, c, None)]) fs"
proof (cases ph)
  case (Locked c')
  with assms CutShort [of fs0 hist fs p c 0] show ?thesis by simp
next
  case (Replacing c' tmp ns)
  with assms obtain fs1 before where "serial fs0 hist fs1" "fs = last (fs1 # before)"
    "snd (wholeCall c fs1) = before @ snd (replaceAll (unlockedFaults c) tmp fs ns)"
    by (auto simp: midway_def)
  with CutShort [of fs0 hist fs1 p c "length before"] show ?thesis by simp
qed (use assms in simp_all)

subsection \<open>The lock keeps the calls apart\<close>

lemma lockInvD:
  assumes "lockInv fs0 s" "us_Procs s p = Some ph" "holdsLock ph"
  shows "us_Lock s = Some p" "progress fs0 (us_Log s) (Some ph) (us_Files s)"
  using assms by (auto simp: lockInv_def)

lemma lock_unique:
  assumes "lockInv fs0 s" "us_Procs s p = Some ph" "holdsLock ph"
    and "us_Procs s q = Some ph'" "holdsLock ph'"
  shows "q = p"
  using lockInvD(1) [OF assms(1-3)] lockInvD(1) [OF assms(1,4,5)] by simp

lemma lockInv_start: "lockInv fs (startSystem fs)"
  by (simp add: lockInv_def startSystem_def Untouched)

text \<open>The holder of the lock works; a process that does not is not its holder.\<close>

lemma lock_working:
  assumes "lockInv fs0 s" "us_Lock s = Some p"
  shows "\<exists>ph. us_Procs s p = Some ph \<and> holdsLock ph"
proof -
  have "progress fs0 (us_Log s) (us_Procs s p) (us_Files s)" using assms by (simp add: lockInv_def)
  then show ?thesis by (cases "us_Procs s p"; cases "the (us_Procs s p)") auto
qed

text \<open>A process without the lock may change its phase to another one without it.\<close>

lemma lockInv_outside:
  assumes "lockInv fs0 s" "\<And>ph. us_Procs s p = Some ph \<Longrightarrow> \<not> holdsLock ph"
    and "\<And>ph. ph' = Some ph \<Longrightarrow> \<not> holdsLock ph"
  shows "lockInv fs0 (s\<lparr>us_Procs := (us_Procs s)(p := ph')\<rparr>)"
proof -
  have "us_Lock s \<noteq> Some p" using lock_working [OF assms(1)] assms(2) by blast
  with assms show ?thesis by (auto simp: lockInv_def split: option.splits)
qed

text \<open>The process with the lock goes on under it, or gives it back.\<close>

lemma lockInv_inside:
  assumes "lockInv fs0 s" "us_Procs s p = Some ph" "holdsLock ph" "holdsLock ph'"
    and "progress fs0 (us_Log s) (Some ph') fs"
  shows "lockInv fs0 ((setProc s p ph')\<lparr>us_Files := fs\<rparr>)"
proof -
  have lock: "us_Lock s = Some p" using lockInvD(1) [OF assms(1-3)] .
  let ?s = "(setProc s p ph')\<lparr>us_Files := fs\<rparr>"
  have "us_Lock ?s = Some q" if "us_Procs ?s q = Some ph''" "holdsLock ph''" for q ph''
    using lock_unique [OF assms(1-3), of q ph''] that lock by (cases "q = p") (simp_all add: setProc_def)
  moreover have "progress fs0 (us_Log ?s) (us_Procs ?s p) (us_Files ?s)" "us_Lock ?s = Some p"
    using lock assms(5) by (simp_all add: setProc_def)
  ultimately show ?thesis unfolding lockInv_def by (metis option.simps(5))
qed

lemma lockInv_unlock:
  assumes "lockInv fs0 s" "us_Procs s p = Some ph" "holdsLock ph"
    and "\<And>ph. ph' = Some ph \<Longrightarrow> \<not> holdsLock ph" "serial fs0 hist (us_Files s)"
  shows "lockInv fs0 (s\<lparr>us_Procs := (us_Procs s)(p := ph'), us_Lock := None, us_Log := hist\<rparr>)"
proof -
  have "\<not> holdsLock ph''" if "((us_Procs s)(p := ph')) q = Some ph''" for q ph''
    using lock_unique [OF assms(1-3), of q ph''] that assms(4) by (cases "q = p") auto
  then show ?thesis using assms(5) by (auto simp: lockInv_def)
qed

lemma lockInv_return:
  assumes "lockInv fs0 s" "us_Procs s p = Some ph" "holdsLock ph"
    and "serial fs0 (us_Log s @ [(p, c, Some r)]) (us_Files s)"
  shows "lockInv fs0 (returnFrom s p c r)"
  using lockInv_unlock [OF assms(1-3) _ assms(4), of "Some (Returned c r)"]
  by (simp add: returnFrom_def setProc_def)

lemma lockInv_kill:
  assumes "lockInv fs0 s" "us_Procs s p = Some ph"
  shows "lockInv fs0 (kill s p ph)"
proof (cases "underLock ph")
  case None
  with assms lockInv_outside [of fs0 s p None] show ?thesis by (simp add: kill_def holdsLock_def)
next
  case (Some c)
  then have "holdsLock ph" by (simp add: holdsLock_def)
  from lockInv_unlock [OF assms this _ progress_killed [OF lockInvD(2) [OF assms this] Some], of None p]
  show ?thesis using Some by (simp add: kill_def)
qed

lemma lockInv_step:
  assumes "updStep mayDie s s'" "lockInv fs0 s"
  shows "lockInv fs0 s'"
  using assms
proof (induction rule: updStep.induct)
  case (Call s p c)
  then show ?case unfolding setProc_def by (intro lockInv_outside) auto
next
  case (NoLock s p c err)
  then show ?case unfolding setProc_def by (intro lockInv_outside) auto
next
  case (Lock s p c u)
  from takeLock_free [OF Lock(2)] Lock(3) show ?case
    by (auto simp: lockInv_def setProc_def)
next
  case (Unprepared s p c err)
  from lockInvD(2) [OF Unprepared(3,1)]
  have "serial fs0 (us_Log s @ [(p, c, Some (Inl err))]) (us_Files s)"
    using Whole [OF _ wholeCall_unprepared [OF Unprepared(2)], where hist = "us_Log s" and p = p] by simp
  then show ?case by (intro lockInv_return [OF Unprepared(3,1)]) simp_all
next
  case (Prepared s p c tmp)
  from lockInvD(2) [OF Prepared(3,1)] midway_start [OF _ Prepared(2)] show ?case
    using lockInv_inside [OF Prepared(3,1), of "Replacing c tmp binNames" "us_Files s"]
    by (simp add: setProc_def)
next
  case (Missing s p c tmp n ns)
  from lockInvD(2) [OF Missing(3,1)] midway_skip [OF _ Missing(2)] show ?case
    using lockInv_inside [OF Missing(3,1), of "Replacing c tmp ns" "us_Files s"]
    by (simp add: setProc_def)
next
  case (Replace s p c tmp n ns bytes fs)
  from lockInvD(2) [OF Replace(4,1)] midway_replace [OF _ Replace(2,3)] show ?case
    by (intro lockInv_inside [OF Replace(4,1)]) simp_all
next
  case (NotReplaced s p c tmp n ns bytes)
  from lockInvD(2) [OF NotReplaced(4,1)] have "midway fs0 (us_Log s) c tmp (n # ns) (us_Files s)" by simp
  from midway_returns [OF this] NotReplaced(2,3) show ?case
    by (intro lockInv_return [OF NotReplaced(4,1)]) (simp_all split: if_splits)
next
  case (Installed s p c tmp)
  from lockInvD(2) [OF Installed(2,1)] have "midway fs0 (us_Log s) c tmp [] (us_Files s)" by simp
  from midway_returns [OF this] show ?case
    by (intro lockInv_return [OF Installed(2,1)]) simp_all
next
  case (Dies s p ph)
  then show ?case by (intro lockInv_kill)
qed

lemma lockInv_reach: "updReach mayDie fs0 s \<Longrightarrow> lockInv fs0 s"
  by (induction rule: updReach.induct) (auto intro: lockInv_start lockInv_step)

lemma logInv_quiet:
  assumes "logInv mayDie s" "\<And>c r. us_Procs s p = Some (Returned c r) \<Longrightarrow> mayDie"
    and "\<And>c r. ph = Some (Returned c r) \<Longrightarrow> refused c r"
  shows "logInv mayDie (s\<lparr>us_Procs := (us_Procs s)(p := ph), us_Lock := l, us_Files := fs\<rparr>)"
  using assms by (force simp: logInv_def list_all_iff)

lemma logInv_return:
  assumes "logInv mayDie s" "us_Procs s p = Some ph" "holdsLock ph"
  shows "logInv mayDie (returnFrom s p c r)"
  using assms by (fastforce simp: logInv_def list_all_iff returnFrom_def setProc_def)

lemma logInv_kill: "logInv True s \<Longrightarrow> logInv True (kill s p ph)"
  by (auto simp: logInv_def kill_def Let_def split: option.splits)

lemma logInv_step:
  assumes "updStep mayDie s s'" "logInv mayDie s"
  shows "logInv mayDie s'"
  using assms
proof (induction rule: updStep.induct)
  case (Call s p c)
  then show ?case
    using logInv_quiet [of mayDie s p "Some (Calling c)", where l = "us_Lock s" and fs = "us_Files s"] by (simp add: setProc_def)
next
  case (NoLock s p c err)
  then have "refused c (Inl err)" by (auto simp: refused_def)
  with NoLock show ?case
    using logInv_quiet [of mayDie s p "Some (Returned c (Inl err))", where l = "us_Lock s" and fs = "us_Files s"]
    by (simp add: setProc_def)
next
  case (Lock s p c u)
  then show ?case
    using logInv_quiet [of mayDie s p "Some (Locked c)", where l = "Some p" and fs = "us_Files s"] by (simp add: setProc_def)
next
  case (Prepared s p c tmp)
  then show ?case
    using logInv_quiet [of mayDie s p "Some (Replacing c tmp binNames)", where l = "us_Lock s" and fs = "us_Files s"]
    by (simp add: setProc_def)
next
  case (Missing s p c tmp n ns)
  then show ?case
    using logInv_quiet [of mayDie s p "Some (Replacing c tmp ns)", where l = "us_Lock s" and fs = "us_Files s"]
    by (simp add: setProc_def)
next
  case (Replace s p c tmp n ns bytes fs)
  then show ?case
    using logInv_quiet [of mayDie s p "Some (Replacing c tmp ns)", where l = "us_Lock s" and fs = fs]
    by (simp add: setProc_def)
next
  case (Dies s p ph)
  then show ?case using logInv_kill by simp
qed (auto intro: logInv_return)

lemma logInv_reach: "updReach mayDie fs0 s \<Longrightarrow> logInv mayDie s"
proof (induction rule: updReach.induct)
  case Start
  show ?case by (simp add: logInv_def startSystem_def)
qed (rule logInv_step)

subsection \<open>Two updaters\<close>

definition exampleCall :: updateCall where
  "exampleCall = \<lparr>uc_Build = exampleBuild, uc_Turn = exampleTurn None 0, uc_Target = ''0.5.0''\<rparr>"

lemma exampleCall_prepared:
  "prepareCall exampleCall = Inr [(''sshhub-ctl'', ''ctl''), (''sshhub'', ''hub'')]"
  "takeLock exampleCall False = Inr ()" "takeLock exampleCall True = Inl AlreadyRunning"
  by code_simp+

text \<open>The second call comes while the first one works.\<close>

lemma example_race:
  "\<exists>s. updReach False Map.empty s \<and> us_Lock s = None \<and>
     us_Procs s 1 = Some (Returned exampleCall (Inl AlreadyRunning)) \<and>
     us_Log s = [(0, exampleCall, Some (Inr ()))] \<and>
     us_Files s = [''sshhub'' \<mapsto> ''hub'', ''sshhub-ctl'' \<mapsto> ''ctl'']"
proof -
  let ?tmp = "[(''sshhub-ctl'', ''ctl''), (''sshhub'', ''hub'')]"
  define s1 where "s1 = setProc (startSystem Map.empty) 0 (Calling exampleCall)"
  define s2 where "s2 = setProc s1 1 (Calling exampleCall)"
  define s3 where "s3 = (setProc s2 0 (Locked exampleCall))\<lparr>us_Lock := Some 0\<rparr>"
  define s4 where "s4 = setProc s3 1 (Returned exampleCall (Inl AlreadyRunning))"
  define s5 where "s5 = setProc s4 0 (Replacing exampleCall ?tmp binNames)"
  define s6 where "s6 = (setProc s5 0 (Replacing exampleCall ?tmp [''sshhub-ctl'']))
    \<lparr>us_Files := [''sshhub'' \<mapsto> ''hub'']\<rparr>"
  define s7 where "s7 = (setProc s6 0 (Replacing exampleCall ?tmp []))
    \<lparr>us_Files := [''sshhub'' \<mapsto> ''hub'', ''sshhub-ctl'' \<mapsto> ''ctl'']\<rparr>"
  note defs = s1_def s2_def s3_def s4_def s5_def s6_def s7_def setProc_def startSystem_def
  note ex = exampleCall_prepared
  have flt: "if_Rename (unlockedFaults exampleCall) n = False" for n
    by (simp add: unlockedFaults_def exampleCall_def exampleTurn_def smooth_def)
  have "updReach False Map.empty s1" unfolding s1_def
    by (rule Step [OF Start Call]) (simp add: startSystem_def)
  then have "updReach False Map.empty s2" unfolding s2_def
    by (rule Step [OF _ Call]) (simp add: defs)
  then have "updReach False Map.empty s3" unfolding s3_def
    by (rule Step [OF _ Lock]) (simp_all add: defs ex)
  then have "updReach False Map.empty s4" unfolding s4_def
    by (rule Step [OF _ NoLock [where c = exampleCall]]) (simp_all add: defs ex)
  then have "updReach False Map.empty s5" unfolding s5_def
    by (rule Step [OF _ Prepared]) (simp_all add: defs ex)
  then have "updReach False Map.empty s6" unfolding s6_def
    by (rule Step [OF _ Replace [where n = "''sshhub''" and bytes = "''hub''"]])
      (simp_all add: defs flt binNames_def)
  then have "updReach False Map.empty s7" unfolding s7_def
    by (rule Step [OF _ Replace [where n = "''sshhub-ctl''" and bytes = "''ctl''"]])
      (simp_all add: defs flt)
  then have "updReach False Map.empty (returnFrom s7 0 exampleCall (Inr ()))"
    by (rule Step [OF _ Installed [where c = exampleCall and tmp = ?tmp]]) (simp add: defs)
  moreover have "us_Lock (returnFrom s7 0 exampleCall (Inr ())) = None"
    "us_Procs (returnFrom s7 0 exampleCall (Inr ())) 1 = Some (Returned exampleCall (Inl AlreadyRunning))"
    "us_Log (returnFrom s7 0 exampleCall (Inr ())) = [(0, exampleCall, Some (Inr ()))]"
    "us_Files (returnFrom s7 0 exampleCall (Inr ())) = [''sshhub'' \<mapsto> ''hub'', ''sshhub-ctl'' \<mapsto> ''ctl'']"
    by (simp_all add: defs returnFrom_def)
  ultimately show ?thesis by blast
qed

subsection \<open>Properties\<close>

text \<open>C11: updaters do not mix. However the steps of any number of updaters interleave, at most the
  holder of the lock is past it. Whenever the lock is free, the installation directory is what the
  calls that had the lock leave when each is made as a whole, one after the other in the order in
  which they gave it back; and each returned what it returns there. A process that has returned is
  one of them, or was refused before it had the lock, and unless processes are killed the calls in
  this sequence are exactly those of processes that have returned, each once. The call of a killed
  process is cut short: a prefix of its replacements.\<close>

theorem updates_serialized:
  assumes "updReach mayDie fs0 s"
  shows "{p. \<exists>ph. us_Procs s p = Some ph \<and> holdsLock ph} \<subseteq> set_option (us_Lock s) \<and>
    (us_Lock s = None \<longrightarrow> serial fs0 (us_Log s) (us_Files s)) \<and>
    (\<forall>p c r. us_Procs s p = Some (Returned c r) \<longrightarrow> (p, c, Some r) \<in> set (us_Log s) \<or> refused c r) \<and>
    (\<not> mayDie \<longrightarrow> distinct (map fst (us_Log s)) \<and>
       list_all (\<lambda>(p, c, e). \<exists>r. e = Some r \<and> us_Procs s p = Some (Returned c r)) (us_Log s))"
  using lockInv_reach [OF assms] logInv_reach [OF assms] by (auto simp: lockInv_def logInv_def)

theorem updates_serialized_witness:
  "\<exists>s :: updSystem. us_Procs s 1 = Some (Returned exampleCall (Inl AlreadyRunning)) \<and>
     us_Files s = [''sshhub'' \<mapsto> ''hub'', ''sshhub-ctl'' \<mapsto> ''ctl''] \<and>
     serial Map.empty [(0, exampleCall, Some (Inr ()))] (us_Files s) \<and>
     refused exampleCall (Inl AlreadyRunning)"
proof -
  obtain s where s: "updReach False Map.empty s" "us_Lock s = None"
    "us_Procs s 1 = Some (Returned exampleCall (Inl AlreadyRunning))"
    "us_Log s = [(0, exampleCall, Some (Inr ()))]"
    "us_Files s = [''sshhub'' \<mapsto> ''hub'', ''sshhub-ctl'' \<mapsto> ''ctl'']"
    using example_race by blast
  from updates_serialized [OF s(1)] s(2-4) have "serial Map.empty [(0, exampleCall, Some (Inr ()))] (us_Files s)"
    "refused exampleCall (Inl AlreadyRunning)" by force+
  with s(3,5) show ?thesis by (intro exI [of _ s] conjI) simp_all
qed

end
