(* ===== verification/Generations.thy ===== *)
theory Generations
  imports Auto_Update
begin

text \<open>
  A machine whose hub updates itself, over the generations of its binary: the updater of
  \<open>internal/hubupdate/update.go\<close> replaces the files and restarts the service, and the process that
  starts is the new binary, with its own version and trusted key. The process may also die at any
  moment, in the middle of an update too.
\<close>

subsection \<open>Generations\<close>

record machine =
  mc_Dir :: "string \<rightharpoonup> string"
  mc_Running :: string

text \<open>
  A turn of the updater, and a restart that comes when the updater has done \<open>k\<close> of the changes of
  a turn (with \<open>k = 0\<close>: between two turns).
\<close>

datatype machineEvent = Turn updateTurn | Dies updateTurn nat

text \<open>\<open>reports\<close> is the version that is linked into a binary; without one nothing starts.\<close>

definition boot :: "(string \<Rightarrow> string) \<Rightarrow> machine \<Rightarrow> machine" where
  "boot reports m =
     (case mc_Dir m ''sshhub'' of None \<Rightarrow> m | Some bytes \<Rightarrow> m\<lparr>mc_Running := reports bytes\<rparr>)"

definition turnHere :: "(string \<Rightarrow> hubBuild) \<Rightarrow> duration \<Rightarrow> machine \<Rightarrow> updateTurn \<Rightarrow> bool \<times> (string \<rightharpoonup> string) list" where
  "turnHere build soak m w =
     (if soak < 0 then (False, []) else updateTurnOf (build (mc_Running m)) soak w (mc_Dir m))"

fun machineStep ::
  "(string \<Rightarrow> hubBuild) \<Rightarrow> (string \<Rightarrow> string) \<Rightarrow> duration \<Rightarrow> machine \<Rightarrow> machineEvent \<Rightarrow> machine" where
  "machineStep build reports soak m (Turn w) =
     (let (applied, trace) = turnHere build soak m w;
          m = m\<lparr>mc_Dir := last (mc_Dir m # trace)\<rparr>
      in if applied then boot reports m else m)"
| "machineStep build reports soak m (Dies w k) =
     (let (applied, trace) = turnHere build soak m w
      in boot reports (m\<lparr>mc_Dir := last (mc_Dir m # take k trace)\<rparr>))"

primrec machineRun ::
  "(string \<Rightarrow> hubBuild) \<Rightarrow> (string \<Rightarrow> string) \<Rightarrow> duration \<Rightarrow> machine \<Rightarrow> machineEvent list \<Rightarrow> machine list" where
  "machineRun build reports soak m [] = [m]"
| "machineRun build reports soak m (e # es) = m # machineRun build reports soak (machineStep build reports soak m e) es"

subsection \<open>What is on the disk is not older than what runs\<close>

text \<open>The release workflow links the version of a release into its binaries.\<close>

definition linked :: "(string \<Rightarrow> hubBuild) \<Rightarrow> (string \<Rightarrow> string) \<Rightarrow> bool" where
  "linked build reports \<longleftrightarrow>
     (\<forall>v net tag bytes. hb_Running (build v) = v \<and>
        (authentic (hb_Lib (build v)) (hb_Key (build v)) net (hb_Untar (build v)) (hb_Asset (build v)) tag
           ''sshhub'' bytes \<longrightarrow> bareVersion (reports bytes) = bareVersion tag))"

definition noOlder :: "string \<Rightarrow> string \<Rightarrow> bool" where
  "noOlder v w \<longleftrightarrow> w = v \<or> IsNewer w v"

definition machineOK :: "(string \<Rightarrow> string) \<Rightarrow> machine \<Rightarrow> bool" where
  "machineOK reports m \<longleftrightarrow>
     (\<exists>bytes. mc_Dir m ''sshhub'' = Some bytes \<and> noOlder (mc_Running m) (reports bytes))"

lemma turnHere_OK:
  assumes "linked build reports" "machineOK reports m" "turnHere build soak m w = (applied, trace)"
    and "fs' \<in> set (mc_Dir m # trace)"
  shows "machineOK reports (m\<lparr>mc_Dir := fs'\<rparr>)"
proof (cases "fs' = mc_Dir m")
  case False
  let ?b = "build (mc_Running m)"
  have running: "hb_Running ?b = mc_Running m" using assms(1) by (simp add: linked_def)
  from False assms(3,4) have turn: "updateTurnOf ?b soak w (mc_Dir m) = (applied, trace)" "fs' \<in> set trace"
    by (auto simp: turnHere_def split: if_splits)
  from turn_changes [OF this, of "''sshhub''"] show ?thesis
  proof (elim disjE conjE exE)
    fix tag bytes assume new: "fs' ''sshhub'' = Some bytes" "mayInstall ?b soak w tag"
      "authentic (hb_Lib ?b) (hb_Key ?b) (ut_Net w) (hb_Untar ?b) (hb_Asset ?b) tag ''sshhub'' bytes"
    then have "IsNewer tag (mc_Running m)" using running by (simp add: mayInstall_def)
    moreover have "bareVersion (reports bytes) = bareVersion tag" using assms(1) new(3) by (simp add: linked_def)
    ultimately have "IsNewer (reports bytes) (mc_Running m)" by (simp add: IsNewer_iff)
    with new(1) show ?thesis by (simp add: machineOK_def noOlder_def)
  qed (use assms(2) in \<open>simp add: machineOK_def\<close>)
qed (use assms(2) in simp)

lemma boot_OK:
  assumes "machineOK reports m"
  shows "machineOK reports (boot reports m)" "noOlder (mc_Running m) (mc_Running (boot reports m))"
  using assms by (auto simp: machineOK_def boot_def noOlder_def)

lemma machineStep_OK:
  assumes "linked build reports" "machineOK reports m"
  shows "machineOK reports (machineStep build reports soak m e) \<and>
    noOlder (mc_Running m) (mc_Running (machineStep build reports soak m e))"
proof (cases e)
  case (Turn w)
  obtain applied trace where t: "turnHere build soak m w = (applied, trace)" by force
  have "last (mc_Dir m # trace) \<in> set (mc_Dir m # trace)" by (rule last_in_set) simp
  from turnHere_OK [OF assms t this] boot_OK show ?thesis
    by (fastforce simp: Turn t noOlder_def)
next
  case (Dies w k)
  obtain applied trace where t: "turnHere build soak m w = (applied, trace)" by force
  have "set (mc_Dir m # take k trace) \<subseteq> set (mc_Dir m # trace)" using set_take_subset by fastforce
  moreover have "last (mc_Dir m # take k trace) \<in> set (mc_Dir m # take k trace)" by (rule last_in_set) simp
  ultimately have "last (mc_Dir m # take k trace) \<in> set (mc_Dir m # trace)" by blast
  from turnHere_OK [OF assms t this] boot_OK show ?thesis
    by (fastforce simp: Dies t)
qed

lemma machineRun_climbs:
  assumes "linked build reports" "machineOK reports m"
  shows "successively noOlder (map mc_Running (machineRun build reports soak m es))"
  using assms(2)
proof (induction es arbitrary: m)
  case (Cons e es)
  let ?m = "machineStep build reports soak m e"
  from machineStep_OK [OF assms(1) Cons.prems] have "machineOK reports ?m"
    and up: "noOlder (mc_Running m) (mc_Running ?m)" by blast+
  from Cons.IH [OF this(1)] up show ?case by (cases es) simp_all
qed simp

subsection \<open>Two generations\<close>

definition exampleBuilds :: "string \<Rightarrow> hubBuild" where
  "exampleBuilds v = exampleBuild\<lparr>hb_Running := v\<rparr>"

definition exampleReports :: "string \<Rightarrow> string" where
  "exampleReports bytes = (if bytes = ''hub'' then ''0.5.0'' else ''0.4.9'')"

definition exampleMachine :: machine where
  "exampleMachine = \<lparr>mc_Dir = [''sshhub'' \<mapsto> ''old''], mc_Running = ''0.4.9''\<rparr>"

definition exampleEvents :: "machineEvent list" where
  "exampleEvents = [Turn (exampleTurn None 5), Dies (exampleTurn (Some (''v0.5.0'', 1000)) 2000) 1,
     Turn (exampleTurn (Some (''v0.5.0'', 1000)) 9000)]"

text \<open>Only one manifest is signed, that of the release 0.5.0, and its binary is the packed one.\<close>

lemma example_authentic:
  assumes "authentic exampleLib key net (hb_Untar exampleBuild) asset tag ''sshhub'' bytes"
  shows "bytes = ''hub'' \<and> trimPrefix (updateTag tag) ''v'' = ''0.5.0''"
proof -
  from assms obtain data pub m payload items h where m: "Verify exampleLib data pub = Inr m"
    "mf_Version m = trimPrefix (updateTag tag) ''v''" "hb_Untar exampleBuild payload = Some items"
    "Some h \<in> set items" "tar_Name h = ''sshhub''" "tar_Content h = Some bytes"
    unfolding authentic_def by blast
  have "m = exampleManifest"
    using m(1) by (auto simp: Verify_Inr exampleLib_def split: if_splits)
  with m(2-6) show ?thesis
    by (auto simp: exampleManifest_def exampleBuild_def packed_def split: if_splits)
qed

lemma bareVersion_updateTag: "trimPrefix (updateTag tag) ''v'' = ''0.5.0'' \<Longrightarrow> bareVersion tag = ''0.5.0''"
proof -
  assume "trimPrefix (updateTag tag) ''v'' = ''0.5.0''"
  then have "tag = ''v0.5.0'' \<or> tag = ''0.5.0''"
    by (auto simp: updateTag_def trimPrefix_def hasPrefix_iff split: if_splits)
  moreover have "bareVersion ''v0.5.0'' = ''0.5.0''" "bareVersion ''0.5.0'' = ''0.5.0''" by code_simp+
  ultimately show ?thesis by auto
qed

lemma example_linked: "linked exampleBuilds exampleReports"
  unfolding linked_def
proof (intro allI conjI impI)
  fix v net tag bytes
  assume "authentic (hb_Lib (exampleBuilds v)) (hb_Key (exampleBuilds v)) net (hb_Untar (exampleBuilds v))
    (hb_Asset (exampleBuilds v)) tag ''sshhub'' bytes"
  then have "authentic exampleLib (hb_Key exampleBuild) net (hb_Untar exampleBuild) (hb_Asset exampleBuild) tag
      ''sshhub'' bytes"
    by (simp add: exampleBuilds_def exampleBuild_def)
  from example_authentic [OF this] have "bytes = ''hub''" "bareVersion tag = ''0.5.0''"
    using bareVersion_updateTag by simp_all
  moreover have "bareVersion ''0.5.0'' = ''0.5.0''" by code_simp
  ultimately show "bareVersion (exampleReports bytes) = bareVersion tag" by (simp add: exampleReports_def)
qed (simp add: exampleBuilds_def)

subsection \<open>Properties\<close>

text \<open>C6: a hub never goes back. Over all generations of its binary, with any network, failures and
  clock, and though the process may die in the middle of an update, a hub whose releases carry their
  own version only ever runs the version it ran before or a newer one; an attacker who serves
  old releases, signed as they are, gets none of them to run.\<close>

theorem hub_never_goes_back:
  assumes "linked build reports"
    and "mc_Dir m ''sshhub'' = Some bytes" "reports bytes = mc_Running m"
  shows "sorted_wrt (\<lambda>v w. w = v \<or> IsNewer w v) (map mc_Running (machineRun build reports soak m es))"
proof -
  have "machineOK reports m" using assms(2,3) by (simp add: machineOK_def noOlder_def)
  from machineRun_climbs [OF assms(1) this] show ?thesis
    unfolding noOlder_def by (rule updates.climbing)
qed

theorem hub_never_goes_back_witness:
  "map mc_Running (machineRun exampleBuilds exampleReports 1000 exampleMachine exampleEvents) =
     [''0.4.9'', ''0.4.9'', ''0.5.0'', ''0.5.0''] \<and>
   sorted_wrt (\<lambda>v w. w = v \<or> IsNewer w v)
     (map mc_Running (machineRun exampleBuilds exampleReports 1000 exampleMachine exampleEvents))"
proof
  show "map mc_Running (machineRun exampleBuilds exampleReports 1000 exampleMachine exampleEvents) =
     [''0.4.9'', ''0.4.9'', ''0.5.0'', ''0.5.0'']"
    by code_simp
  show "sorted_wrt (\<lambda>v w. w = v \<or> IsNewer w v)
     (map mc_Running (machineRun exampleBuilds exampleReports 1000 exampleMachine exampleEvents))"
  proof (rule hub_never_goes_back [OF example_linked])
    show "mc_Dir exampleMachine ''sshhub'' = Some ''old''" by (simp add: exampleMachine_def)
    show "exampleReports ''old'' = mc_Running exampleMachine" by code_simp
  qed
qed

end
