(* ===== verification/Go_Net.thy ===== *)
theory Go_Net
  imports Go_Strings
begin

text \<open>
  Go's \<open>net.SplitHostPort\<close> and \<open>net.JoinHostPort\<close>, which the program uses on listen
  addresses, hub addresses and peer addresses. \<open>None\<close> is the error result.
\<close>

primrec indexByte :: "string \<Rightarrow> char \<Rightarrow> nat option" where
  "indexByte [] c = None"
| "indexByte (x # xs) c = (if x = c then Some 0 else map_option Suc (indexByte xs c))"

definition SplitHostPort :: "string \<Rightarrow> (string \<times> string) option" where
  "SplitHostPort hp =
     (case lastIndex hp CHR '':'' of
        None \<Rightarrow> None
      | Some i \<Rightarrow>
          if hasPrefix hp ''['' then
            (case indexByte hp CHR '']'' of
               None \<Rightarrow> None
             | Some e \<Rightarrow>
                 if e + 1 \<noteq> i then None
                 else if CHR ''['' \<in> set (drop 1 hp) \<or> CHR '']'' \<in> set (drop (e + 1) hp) then None
                 else Some (drop 1 (take e hp), drop (i + 1) hp))
          else if CHR '':'' \<in> set (take i hp) then None
          else if CHR ''['' \<in> set hp \<or> CHR '']'' \<in> set hp then None
          else Some (take i hp, drop (i + 1) hp))"

definition JoinHostPort :: "string \<Rightarrow> string \<Rightarrow> string" where
  "JoinHostPort host port =
     (if CHR '':'' \<in> set host then ''['' @ host @ '']:'' @ port else host @ '':'' @ port)"

lemma indexByte_None: "indexByte s c = None \<longleftrightarrow> c \<notin> set s"
  by (induction s) auto

lemma indexByte_append: "c \<notin> set s \<Longrightarrow> indexByte (s @ c # t) c = Some (length s)"
  by (induction s) auto

text \<open>A plain \<open>host:port\<close> with neither colons nor brackets in its parts.\<close>

lemma SplitHostPort_plain:
  assumes "set h \<inter> {CHR '':'', CHR ''['', CHR '']''} = {}"
    and "set p \<inter> {CHR '':'', CHR ''['', CHR '']''} = {}"
  shows "SplitHostPort (h @ '':'' @ p) = Some (h, p)"
proof -
  have "lastIndex (h @ CHR '':'' # p) CHR '':'' = Some (length h)"
    using assms by (intro lastIndex_append_Cons) auto
  moreover have "\<not> hasPrefix (h @ CHR '':'' # p) ''[''"
    using assms by (cases h) (auto simp: hasPrefix_def)
  ultimately show ?thesis using assms by (auto simp: SplitHostPort_def)
qed

text \<open>A bracketed address, as Go prints an IPv6 peer.\<close>

lemma SplitHostPort_bracketed:
  assumes "set h \<inter> {CHR ''['', CHR '']''} = {}"
    and "set p \<inter> {CHR '':'', CHR ''['', CHR '']''} = {}"
  shows "SplitHostPort (''['' @ h @ '']:'' @ p) = Some (h, p)"
proof -
  let ?hp = "(CHR ''['' # h @ [CHR '']'']) @ CHR '':'' # p"
  have "lastIndex ?hp CHR '':'' = Some (length h + 2)"
    using assms lastIndex_append_Cons [of "CHR '':''" p "CHR ''['' # h @ [CHR '']'']"] by auto
  moreover have "indexByte ?hp CHR '']'' = Some (length h + 1)"
    using assms indexByte_append [of "CHR '']''" "CHR ''['' # h" "CHR '':'' # p"] by auto
  ultimately show ?thesis using assms
    by (auto simp: SplitHostPort_def hasPrefix_def)
qed

end
