(* ===== verification/Float64.thy ===== *)
theory Float64
  imports Prelude
begin

text \<open>
  Go's \<open>float64\<close> arithmetic on the values the program computes with: each operation is the
  exact rational result rounded to the nearest number with a 53-bit significand, ties to
  even. The exponent is not bounded: no computation of the program comes near overflow or
  the subnormal numbers. An architecture on which the compiler fuses \<open>x * y + z\<close> rounds
  once where the model rounds twice.

  The locale \<open>rounding\<close> is what the clients use of it; \<open>f64\<close> is its interpretation.
\<close>

subsection \<open>The interface\<close>

locale rounding =
  fixes fl :: "rat \<Rightarrow> rat" and u :: rat
  assumes fl_zero [simp]: "fl 0 = 0"
    and fl_mono: "0 \<le> x \<Longrightarrow> x \<le> y \<Longrightarrow> fl x \<le> fl y"
    and fl_idem [simp]: "fl (fl x) = fl x"
    and fl_error: "0 \<le> x \<Longrightarrow> \<bar>fl x - x\<bar> \<le> u * x"
    and u_range: "0 \<le> u" "u \<le> 1 / 8"
begin

lemma fl_nonneg: "0 \<le> x \<Longrightarrow> 0 \<le> fl x"
  using fl_mono [of 0 x] by simp

lemma fl_upper: "0 \<le> x \<Longrightarrow> fl x \<le> (1 + u) * x"
  using fl_error [of x] by (simp add: algebra_simps abs_le_iff)

lemma fl_lower: "0 \<le> x \<Longrightarrow> (1 - u) * x \<le> fl x"
  using fl_error [of x] by (simp add: algebra_simps abs_le_iff)

lemma fl_le_repr: "0 \<le> x \<Longrightarrow> x \<le> y \<Longrightarrow> fl y = y \<Longrightarrow> fl x \<le> y"
  using fl_mono [of x y] by simp

lemma fl_scaled:
  assumes "0 \<le> x" "x \<le> (1 + u) ^ n * y"
  shows "fl x \<le> (1 + u) ^ Suc n * y"
proof -
  have "fl x \<le> (1 + u) * x" using assms(1) by (rule fl_upper)
  also have "\<dots> \<le> (1 + u) * ((1 + u) ^ n * y)"
    using assms(2) u_range by (intro mult_left_mono) simp_all
  finally show ?thesis by (simp add: mult.assoc)
qed

lemma u_power4: "(1 + u) ^ 4 \<le> 1 + 5 * u"
proof -
  have "u * u \<le> u * (1 / 8)" "u * u * u \<le> u * (1 / 8) * (1 / 8)"
    "u * u * u * u \<le> u * (1 / 8) * (1 / 8) * (1 / 8)"
    using u_range by (intro mult_mono mult_nonneg_nonneg; simp)+
  moreover have "(1 + u) ^ 4 = 1 + 4 * u + 6 * (u * u) + 4 * (u * u * u) + u * u * u * u"
    by algebra
  ultimately show ?thesis using u_range(1) by simp
qed

text \<open>
  The refill of a token bucket: a level \<open>t\<close> grows by the rounded product of a rounded
  number of seconds \<open>el\<close> and a rate, and is capped at \<open>B\<close>.
\<close>

lemma refill_bound:
  assumes t: "0 \<le> t" "t \<le> B" and D: "0 \<le> D" and R: "0 \<le> R"
    and el: "0 \<le> el" "el \<le> (1 + u) ^ 2 * D"
  shows "min B (fl (t + fl (el * R))) \<le> t + D * R + 10 * u * B"
proof (cases "B \<le> D * R")
  case True
  have "0 \<le> 10 * u * B" using t u_range by simp
  with True t have "B \<le> t + D * R + 10 * u * B" by linarith
  then show ?thesis by (simp add: min_le_iff_disj)
next
  case False
  have one: "1 \<le> (1 + u) ^ 3" using u_range by (intro one_le_power) simp
  have g0: "0 \<le> el * R" "0 \<le> fl (el * R)" using el R by (simp_all add: fl_nonneg)
  have "el * R \<le> (1 + u) ^ 2 * D * R" using el(2) R by (rule mult_right_mono)
  then have "fl (el * R) \<le> (1 + u) ^ 3 * (D * R)"
    using fl_scaled [OF g0(1), of 2 "D * R"] by (simp add: mult.assoc numeral_3_eq_3 numeral_2_eq_2)
  moreover have "t \<le> (1 + u) ^ 3 * t" using one t by (simp add: mult_le_cancel_right1)
  ultimately have "t + fl (el * R) \<le> (1 + u) ^ 3 * (t + D * R)" by (simp add: distrib_left)
  with t g0 have "fl (t + fl (el * R)) \<le> (1 + u) ^ Suc 3 * (t + D * R)" by (intro fl_scaled) simp_all
  also have "\<dots> \<le> (1 + 5 * u) * (t + D * R)"
    using u_power4 t D R by (intro mult_right_mono) (simp_all add: numeral_eq_Suc)
  also have "\<dots> = t + D * R + 5 * u * (t + D * R)" by (simp add: algebra_simps)
  also have "\<dots> \<le> t + D * R + 5 * u * (2 * B)"
    using t False u_range by (intro add_left_mono mult_left_mono) simp_all
  finally show ?thesis by (simp add: min_le_iff_disj)
qed

lemma take_bound: "1 \<le> t \<Longrightarrow> t \<le> B \<Longrightarrow> fl (t - 1) \<le> t - 1 + u * B"
proof -
  assume t: "1 \<le> t" "t \<le> B"
  then have "fl (t - 1) \<le> (1 + u) * (t - 1)" by (intro fl_upper) simp
  also have "\<dots> = t - 1 + u * (t - 1)" by (simp add: algebra_simps)
  also have "\<dots> \<le> t - 1 + u * B"
    using t u_range by (intro add_left_mono mult_left_mono) simp_all
  finally show ?thesis .
qed

end

subsection \<open>Rounding to the nearest integer\<close>

definition roundEven :: "rat \<Rightarrow> int" where
  "roundEven y =
     (let f = \<lfloor>y\<rfloor>; d = y - of_int f in
      if d < 1 / 2 then f else if 1 / 2 < d then f + 1 else if even f then f else f + 1)"

lemma roundEven_of_int [simp]: "roundEven (of_int n) = n"
  by (simp add: roundEven_def)

lemma roundEven_numeral [simp]: "roundEven (numeral n) = numeral n"
  by (metis of_int_numeral roundEven_of_int)

lemma roundEven_cases: "roundEven y = \<lfloor>y\<rfloor> \<or> roundEven y = \<lfloor>y\<rfloor> + 1"
  by (auto simp: roundEven_def Let_def)

lemma roundEven_error: "\<bar>of_int (roundEven y) - y\<bar> \<le> 1 / 2"
  using floor_correct [of y] by (auto simp: roundEven_def Let_def abs_le_iff)

lemma roundEven_mono:
  assumes "x \<le> y"
  shows "roundEven x \<le> roundEven y"
proof (cases "\<lfloor>x\<rfloor> = \<lfloor>y\<rfloor>")
  case True
  with assms show ?thesis by (auto simp: roundEven_def Let_def)
next
  case False
  with assms have "\<lfloor>x\<rfloor> + 1 \<le> \<lfloor>y\<rfloor>" using floor_mono [OF assms] by linarith
  with roundEven_cases [of x] roundEven_cases [of y] show ?thesis by linarith
qed

subsection \<open>The binary exponent\<close>

fun bitLen :: "nat \<Rightarrow> nat" where
  "bitLen n = (if n = 0 then 0 else Suc (bitLen (n div 2)))"

declare bitLen.simps [simp del]

lemma bitLen_0 [simp]: "bitLen 0 = 0"
  by (simp add: bitLen.simps)

lemma bitLen_upper: "n < 2 ^ bitLen n"
proof (induction n rule: bitLen.induct)
  case (1 n)
  then show ?case
    by (cases "n = 0") (auto simp: bitLen.simps [of n])
qed

lemma bitLen_lower: "0 < n \<Longrightarrow> 2 ^ (bitLen n - 1) \<le> n"
proof (induction n rule: bitLen.induct)
  case (1 n)
  show ?case
  proof (cases "n div 2 = 0")
    case True
    with "1.prems" show ?thesis by (simp add: bitLen.simps [of n])
  next
    case False
    then have IH: "2 ^ (bitLen (n div 2) - 1) \<le> n div 2" using "1.IH" "1.prems" by simp
    have "0 < bitLen (n div 2)" using False by (simp add: bitLen.simps [of "n div 2"])
    then have "(2::nat) ^ bitLen (n div 2) = 2 * 2 ^ (bitLen (n div 2) - 1)"
      by (cases "bitLen (n div 2)") simp_all
    with IH have "(2::nat) ^ bitLen (n div 2) \<le> n" by linarith
    with "1.prems" show ?thesis by (simp add: bitLen.simps [of n])
  qed
qed

lemma bitLen_pos: "0 < n \<Longrightarrow> 0 < bitLen n"
  by (simp add: bitLen.simps [of n])

definition pow2 :: "int \<Rightarrow> rat" where
  "pow2 k = (if 0 \<le> k then 2 ^ nat k else 1 / 2 ^ nat (- k))"

lemma pow2_powi: "pow2 k = power_int 2 k"
  by (simp add: pow2_def power_int_def divide_simps)

lemma pow2_pos [simp]: "0 < pow2 k"
  by (simp add: pow2_def)

lemma pow2_nonneg [simp]: "0 \<le> pow2 k"
  by (simp add: less_imp_le)

lemma pow2_not_neg [simp]: "\<not> pow2 k < 0"
  by (simp add: not_less)

lemma pow2_abs [simp]: "\<bar>pow2 k\<bar> = pow2 k"
  by simp

lemma pow2_nonzero [simp]: "pow2 k \<noteq> 0"
  using pow2_pos [of k] by linarith

lemma pow2_add: "pow2 (j + k) = pow2 j * pow2 k"
  by (simp add: pow2_powi power_int_add)

lemma pow2_0 [simp]: "pow2 0 = 1"
  by (simp add: pow2_def)

lemma pow2_minus: "pow2 (- k) * pow2 k = 1"
  by (simp flip: pow2_add)

lemma pow2_mono: "j \<le> k \<Longrightarrow> pow2 j \<le> pow2 k"
  by (simp add: pow2_powi power_int_increasing)

lemma pow2_of_nat: "pow2 (int n) = 2 ^ n"
  by (simp add: pow2_def)

lemma pow2_less_cancel: "pow2 j < pow2 k \<Longrightarrow> j < k"
  using pow2_mono [of k j] by linarith

text \<open>The exponent of a positive number: \<open>2 ^ e \<le> x < 2 ^ (e + 1)\<close>.\<close>

definition expo :: "rat \<Rightarrow> int" where
  "expo x = (if 1 \<le> x then int (bitLen (nat \<lfloor>x\<rfloor>)) - 1 else - int (bitLen (nat (\<lceil>1 / x\<rceil> - 1))))"

lemma expo_bounds:
  assumes "0 < x"
  shows "pow2 (expo x) \<le> x" and "x < pow2 (expo x + 1)"
proof -
  have "pow2 (expo x) \<le> x \<and> x < pow2 (expo x + 1)"
  proof (cases "1 \<le> x")
    case True
    define n where "n = nat \<lfloor>x\<rfloor>"
    from True have n: "0 < n" "of_nat n \<le> x" "x < of_nat n + 1"
      using floor_correct [of x] by (auto simp: n_def le_floor_iff of_nat_nat)
    have e: "expo x = int (bitLen n - 1)" "expo x + 1 = int (bitLen n)"
      using True bitLen_pos [OF n(1)] by (auto simp: expo_def n_def)
    have "2 ^ (bitLen n - 1) \<le> x"
      by (rule order_trans [OF _ n(2)]) (use bitLen_lower [OF n(1)] in simp)
    moreover have "of_nat n + 1 \<le> (of_nat (2 ^ bitLen n) :: rat)"
      using bitLen_upper [of n] by (metis Suc_leI of_nat_Suc of_nat_le_iff add.commute)
    then have "x < 2 ^ bitLen n" using n(3) by simp
    ultimately show ?thesis unfolding e(2) unfolding e(1) pow2_of_nat by simp
  next
    case False
    define n where "n = nat (\<lceil>1 / x\<rceil> - 1)"
    have x1: "1 < 1 / x" using False assms by simp
    then have two: "2 \<le> \<lceil>1 / x\<rceil>" by linarith
    then have "int n = \<lceil>1 / x\<rceil> - 1" unfolding n_def by (intro nat_0_le) linarith
    then have "(of_nat n :: rat) = of_int (\<lceil>1 / x\<rceil> - 1)" by (metis of_int_of_nat_eq)
    then have "(of_nat n :: rat) = of_int \<lceil>1 / x\<rceil> - 1" by simp
    with two have n: "0 < n" "of_nat n < 1 / x" "1 / x \<le> of_nat n + 1"
      using ceiling_correct [of "1 / x"] by (simp_all add: n_def)
    have e: "expo x = - int (bitLen n)" "expo x + 1 = - int (bitLen n - 1)"
      using False bitLen_pos [OF n(1)] by (auto simp: expo_def n_def)
    have lo: "2 ^ (bitLen n - 1) < 1 / x"
      by (rule le_less_trans [OF _ n(2)]) (use bitLen_lower [OF n(1)] in simp)
    have up: "of_nat n + 1 \<le> (of_nat (2 ^ bitLen n) :: rat)"
      using bitLen_upper [of n] by (metis Suc_leI of_nat_Suc of_nat_le_iff add.commute)
    have inv: "pow2 (- int k) = 1 / 2 ^ k" for k
      by (simp add: pow2_powi power_int_minus divide_simps)
    have "1 / x \<le> 2 ^ bitLen n" using n up by simp
    with lo assms show ?thesis unfolding e(2) unfolding e(1) inv by (simp add: field_simps)
  qed
  then show "pow2 (expo x) \<le> x" "x < pow2 (expo x + 1)" by simp_all
qed

lemma expo_unique:
  assumes "pow2 e \<le> x" and "x < pow2 (e + 1)"
  shows "expo x = e"
proof -
  have x: "0 < x" using assms(1) pow2_pos [of e] by linarith
  from assms expo_bounds [OF x] have "pow2 e < pow2 (expo x + 1)" "pow2 (expo x) < pow2 (e + 1)"
    by linarith+
  then have "e < expo x + 1" "expo x < e + 1" by (auto dest: pow2_less_cancel)
  then show ?thesis by linarith
qed

lemma expo_mono: "0 < x \<Longrightarrow> x \<le> y \<Longrightarrow> expo x \<le> expo y"
  using expo_bounds [of x] expo_bounds [of y] pow2_less_cancel [of "expo x" "expo y + 1"]
  by linarith

subsection \<open>Rounding to a 53-bit significand\<close>

definition f64pos :: "rat \<Rightarrow> rat" where
  "f64pos x = of_int (roundEven (x * pow2 (52 - expo x))) * pow2 (expo x - 52)"

definition f64 :: "rat \<Rightarrow> rat" where
  "f64 x = (if x = 0 then 0 else if 0 < x then f64pos x else - f64pos (- x))"

lemma f64_0 [simp]: "f64 0 = 0"
  by (simp add: f64_def)

lemma f64_minus: "f64 (- x) = - f64 x"
  by (simp add: f64_def)

lemma scale_cancel: "y * pow2 (52 - e) * pow2 (e - 52) = y"
proof -
  have "pow2 (52 - e) * pow2 (e - 52) = 1" by (simp flip: pow2_add)
  then show ?thesis by (simp add: mult.assoc)
qed

lemma significand_range:
  assumes "0 < x"
  shows "2 ^ 52 \<le> x * pow2 (52 - expo x)" and "x * pow2 (52 - expo x) < 2 ^ 53"
proof -
  have p: "pow2 (expo x) * pow2 (52 - expo x) = 2 ^ 52" "pow2 (expo x + 1) * pow2 (52 - expo x) = 2 ^ 53"
    using pow2_of_nat [of 52] pow2_of_nat [of 53] by (simp_all flip: pow2_add)
  show "2 ^ 52 \<le> x * pow2 (52 - expo x)"
    unfolding p(1) [symmetric] using expo_bounds(1) [OF assms] by (intro mult_right_mono) simp_all
  show "x * pow2 (52 - expo x) < 2 ^ 53"
    unfolding p(2) [symmetric] using expo_bounds(2) [OF assms] by (intro mult_strict_right_mono) simp_all
qed

lemma roundEven_significand:
  assumes "0 < x"
  shows "2 ^ 52 \<le> roundEven (x * pow2 (52 - expo x))"
    and "roundEven (x * pow2 (52 - expo x)) \<le> 2 ^ 53"
  using significand_range [OF assms]
    roundEven_mono [of "of_int (2 ^ 52)" "x * pow2 (52 - expo x)"]
    roundEven_mono [of "x * pow2 (52 - expo x)" "of_int (2 ^ 53)"]
  by simp_all

text \<open>A number with a significand of at most 53 bits is left as it is.\<close>

lemma f64_exact:
  assumes "\<bar>m\<bar> \<le> 2 ^ 53"
  shows "f64 (of_int m * pow2 k) = of_int m * pow2 k"
proof -
  have small: "f64pos (of_int n * pow2 j) = of_int n * pow2 j" if n: "0 < n" "n < 2 ^ 53" for n j
  proof -
    let ?x = "of_int n * pow2 j"
    have x: "0 < ?x" using n by simp
    have "(of_int n :: rat) < of_int (2 ^ 53)" using n(2) by (simp only: of_int_less_iff)
    then have "?x < 2 ^ 53 * pow2 j" by (intro mult_strict_right_mono) simp_all
    also have "\<dots> = pow2 (53 + j)" using pow2_of_nat [of 53] by (simp add: pow2_add)
    finally have "pow2 (expo ?x) < pow2 (53 + j)" using expo_bounds(1) [OF x] by linarith
    then have "expo ?x - 52 \<le> j" by (auto dest: pow2_less_cancel)
    then obtain d where d: "j + (52 - expo ?x) = int d" using zero_le_imp_eq_int [of "j + (52 - expo ?x)"] by auto
    have "?x * pow2 (52 - expo ?x) = of_int n * pow2 (int d)"
      by (simp add: mult.assoc d flip: pow2_add)
    also have "\<dots> = of_int (n * 2 ^ d)" by (simp add: pow2_of_nat)
    finally have eq: "?x * pow2 (52 - expo ?x) = of_int (n * 2 ^ d)" .
    have "f64pos ?x = of_int (n * 2 ^ d) * pow2 (expo ?x - 52)"
      unfolding f64pos_def eq roundEven_of_int ..
    also have "\<dots> = ?x" unfolding eq [symmetric] by (rule scale_cancel)
    finally show ?thesis .
  qed
  have pos: "f64pos (of_int n * pow2 k) = of_int n * pow2 k" if n: "0 < n" "n \<le> 2 ^ 53" for n
  proof (cases "n = 2 ^ 53")
    case True
    then have "of_int n * pow2 k = of_int 1 * pow2 (53 + k)"
      using pow2_of_nat [of 53] by (simp add: pow2_add)
    then show ?thesis using small [of 1 "53 + k"] by simp
  next
    case False
    with n show ?thesis by (intro small) simp_all
  qed
  consider "m = 0" | "0 < m" | "m < 0" by linarith
  then show ?thesis
  proof cases
    case 1
    then show ?thesis by simp
  next
    case 2
    with assms pos [of m] show ?thesis by (simp add: f64_def)
  next
    case 3
    with assms pos [of "- m"] show ?thesis by (auto simp: f64_def mult_less_0_iff zero_less_mult_iff)
  qed
qed

lemma f64_of_int: "\<bar>m\<bar> \<le> 2 ^ 53 \<Longrightarrow> f64 (of_int m) = of_int m"
  using f64_exact [of m 0] by simp

lemma f64pos_form:
  assumes "0 < x"
  obtains m k where "f64pos x = of_int m * pow2 k" "0 < m" "m \<le> 2 ^ 53"
  using roundEven_significand [OF assms] by (intro that [OF f64pos_def]) simp_all

lemma f64_idem: "f64 (f64 x) = f64 x"
proof -
  have pos: "f64 (f64pos y) = f64pos y" if "0 < y" for y
  proof -
    from that obtain m k where "f64pos y = of_int m * pow2 k" "0 < m" "m \<le> 2 ^ 53"
      by (rule f64pos_form)
    then show ?thesis using f64_exact [of m k] by simp
  qed
  show ?thesis
    using pos [of x] pos [of "- x"] by (auto simp: f64_def f64_minus)
qed

lemma f64pos_error:
  assumes "0 < x"
  shows "\<bar>f64pos x - x\<bar> \<le> x / 2 ^ 53"
proof -
  let ?y = "x * pow2 (52 - expo x)" and ?s = "pow2 (expo x - 52)"
  have "f64pos x - x = (of_int (roundEven ?y) - ?y) * ?s"
    unfolding f64pos_def left_diff_distrib scale_cancel ..
  then have "\<bar>f64pos x - x\<bar> = \<bar>of_int (roundEven ?y) - ?y\<bar> * ?s"
    by (simp add: abs_mult)
  also have "\<dots> \<le> 1 / 2 * ?s"
    by (rule mult_right_mono [OF roundEven_error]) (simp add: less_imp_le)
  also have "\<dots> \<le> x / 2 ^ 53"
  proof -
    have "2 ^ 52 * ?s \<le> ?y * ?s"
      using significand_range(1) [OF assms] by (intro mult_right_mono) (simp_all add: less_imp_le)
    then show ?thesis unfolding scale_cancel by simp
  qed
  finally show ?thesis .
qed

lemma f64pos_mono:
  assumes x: "0 < x" and xy: "x \<le> y"
  shows "f64pos x \<le> f64pos y"
proof (cases "expo x = expo y")
  case True
  have "x * pow2 (52 - expo x) \<le> y * pow2 (52 - expo x)"
    using xy by (intro mult_right_mono) (simp_all add: less_imp_le)
  from roundEven_mono [OF this] show ?thesis
    unfolding f64pos_def True [symmetric] by (intro mult_right_mono) simp_all
next
  case False
  have y: "0 < y" using x xy by linarith
  with False expo_mono [OF x xy] have le: "expo x + 1 \<le> expo y" by linarith
  have "(of_int (roundEven (x * pow2 (52 - expo x))) :: rat) \<le> of_int (2 ^ 53)"
    using roundEven_significand(2) [OF x] by (simp only: of_int_le_iff)
  then have "f64pos x \<le> 2 ^ 53 * pow2 (expo x - 52)"
    unfolding f64pos_def by (intro mult_right_mono) simp_all
  also have "\<dots> = pow2 53 * pow2 (expo x - 52)" using pow2_of_nat [of 53] by simp
  also have "\<dots> = pow2 (expo x + 1)" by (simp flip: pow2_add add: add.commute)
  also have "\<dots> \<le> pow2 (expo y)" using le by (rule pow2_mono)
  also have "\<dots> = pow2 52 * pow2 (expo y - 52)" by (simp flip: pow2_add)
  also have "\<dots> = 2 ^ 52 * pow2 (expo y - 52)" using pow2_of_nat [of 52] by simp
  also have "\<dots> \<le> f64pos y"
  proof -
    have "(of_int (2 ^ 52) :: rat) \<le> of_int (roundEven (y * pow2 (52 - expo y)))"
      using roundEven_significand(1) [OF y] by (simp only: of_int_le_iff)
    then show ?thesis unfolding f64pos_def by (intro mult_right_mono) simp_all
  qed
  finally show ?thesis .
qed

lemma f64_mono: "0 \<le> x \<Longrightarrow> x \<le> y \<Longrightarrow> f64 x \<le> f64 y"
proof -
  assume "0 \<le> x" "x \<le> y"
  moreover have "0 \<le> f64pos y" if "0 < y"
    using f64pos_form [OF that] by (metis less_imp_le mult_nonneg_nonneg of_int_0_le_iff pow2_pos)
  ultimately show ?thesis by (auto simp: f64_def f64pos_mono)
qed

interpretation f64r: rounding f64 "1 / 2 ^ 53"
proof unfold_locales
  fix x :: rat
  assume "0 \<le> x"
  then show "\<bar>f64 x - x\<bar> \<le> 1 / 2 ^ 53 * x"
    using f64pos_error [of x] by (auto simp: f64_def)
qed (simp_all add: f64_idem f64_mono)

subsection \<open>Durations as seconds\<close>

text \<open>\<open>Duration.Seconds\<close>: whole seconds and the rest, with Go's truncating division.\<close>

definition durationSeconds :: "duration \<Rightarrow> rat" where
  "durationSeconds d =
     (let sec = sgn d * (\<bar>d\<bar> div second); nsec = sgn d * (\<bar>d\<bar> mod second)
      in f64 (of_int sec + f64 (of_int nsec / 1000000000)))"

lemma durationSeconds_nonpos: "d \<le> 0 \<Longrightarrow> durationSeconds d \<le> 0"
proof -
  assume "d \<le> 0"
  then consider "d = 0" | "d < 0" by linarith
  then show ?thesis
  proof cases
    case 1
    then show ?thesis by (simp add: durationSeconds_def)
  next
    case 2
    let ?s = "\<bar>d\<bar> div 1000000000" and ?n = "\<bar>d\<bar> mod 1000000000"
    have "durationSeconds d = - f64 (of_int ?s + f64 (of_int ?n / 1000000000))"
      using 2 f64_minus [of "of_int ?n / 1000000000"]
        f64_minus [of "of_int ?s + f64 (of_int ?n / 1000000000)"]
      by (simp add: durationSeconds_def Let_def)
    moreover have "0 \<le> f64 (of_int ?s + f64 (of_int ?n / 1000000000))"
      by (intro f64r.fl_nonneg add_nonneg_nonneg) (simp_all add: pos_imp_zdiv_nonneg_iff)
    ultimately show ?thesis by simp
  qed
qed

lemma durationSeconds_posD: "0 < durationSeconds d \<Longrightarrow> 0 < d"
  using durationSeconds_nonpos [of d] by (cases "0 < d") auto

lemma durationSeconds_bound:
  assumes "0 \<le> d"
  shows "0 \<le> durationSeconds d"
    and "durationSeconds d \<le> (1 + 1 / 2 ^ 53) ^ 2 * (of_int d / 1000000000)"
proof -
  let ?s = "of_int (d div 1000000000) :: rat" and ?n = "of_int (d mod 1000000000) :: rat"
  let ?u = "1 / 2 ^ 53 :: rat"
  have dur: "durationSeconds d = f64 (?s + f64 (?n / 1000000000))"
    using assms by (cases "d = 0") (simp_all add: durationSeconds_def Let_def)
  have s: "0 \<le> ?s" using assms by (simp add: pos_imp_zdiv_nonneg_iff)
  have n: "0 \<le> ?n / 1000000000" by simp
  show "0 \<le> durationSeconds d" unfolding dur using s n by (intro f64r.fl_nonneg add_nonneg_nonneg)
  have "of_int (d div 1000000000 * 1000000000 + d mod 1000000000) = (of_int d :: rat)"
    by (simp only: div_mult_mod_eq)
  then have "?s * 1000000000 + ?n = of_int d" by (simp only: of_int_add of_int_mult of_int_numeral)
  then have sum: "?s + ?n / 1000000000 = of_int d / 1000000000" by (simp add: field_simps)
  have "f64 (?n / 1000000000) \<le> (1 + ?u) * (?n / 1000000000)" using n by (rule f64r.fl_upper)
  moreover have "?s \<le> (1 + ?u) * ?s" using s by (simp add: mult_le_cancel_right1)
  ultimately have "?s + f64 (?n / 1000000000) \<le> (1 + ?u) ^ 1 * (of_int d / 1000000000)"
    unfolding sum [symmetric] distrib_left power_one_right by linarith
  then have "f64 (?s + f64 (?n / 1000000000)) \<le> (1 + ?u) ^ Suc 1 * (of_int d / 1000000000)"
    using s n by (intro f64r.fl_scaled add_nonneg_nonneg f64r.fl_nonneg)
  then show "durationSeconds d \<le> (1 + ?u) ^ 2 * (of_int d / 1000000000)"
    unfolding dur by (simp only: Suc_1)
qed

end
