(* ===== verification/Rate_Limit.thy ===== *)
theory Rate_Limit
  imports Go_Net Float64
begin

text \<open>
  \<open>internal/ratelimit/ratelimit.go\<close>: the per-source limiter in front of the SSH listener.
  The mutex makes each method one atomic step, so the limiter is a state and its methods
  are functions on it. \<open>now\<close> is read before the lock is taken and is a parameter of each
  step. The map of sources is a partial function; eviction decides about each entry alone,
  so the iteration order does not matter. A release function is its position in the list
  \<open>lim_releases\<close>, which holds the source it frees a slot of until its \<open>sync.Once\<close> fired.
\<close>

subsection \<open>State\<close>

record RLConfig =
  rl_Rate :: rat
  rl_Burst :: rat
  rl_MaxConcurrent :: int
  rl_MaxFailures :: int
  rl_FailureWindow :: duration
  rl_BlockDuration :: duration
  rl_IdleTTL :: duration

definition DefaultConfig :: RLConfig where
  "DefaultConfig = \<lparr>rl_Rate = 1 / 2, rl_Burst = 10, rl_MaxConcurrent = 8, rl_MaxFailures = 10,
     rl_FailureWindow = 5 * minute, rl_BlockDuration = 15 * minute, rl_IdleTTL = 30 * minute\<rparr>"

datatype Reason = Allowed | ReasonRate | ReasonConcurrent | ReasonBlocked

fun ReasonString :: "Reason \<Rightarrow> string" where
  "ReasonString ReasonRate = ''connection rate exceeded''"
| "ReasonString ReasonConcurrent = ''too many concurrent handshakes''"
| "ReasonString ReasonBlocked = ''temporarily blocked after repeated authentication failures''"
| "ReasonString Allowed = ''allowed''"

record source =
  src_tokens :: rat
  src_lastRefill :: time
  src_inFlight :: int
  src_failures :: "time list"
  src_blockedTil :: time
  src_lastSeen :: time

record Limiter =
  lim_cfg :: RLConfig
  lim_sources :: "string \<rightharpoonup> source"
  lim_releases :: "string option list"

definition NewLimiter :: "RLConfig \<Rightarrow> Limiter" where
  "NewLimiter cfg = \<lparr>lim_cfg = cfg, lim_sources = Map.empty, lim_releases = []\<rparr>"

subsection \<open>Operations\<close>

text \<open>An address is \<open>None\<close> for a nil \<open>net.Addr\<close>, else its \<open>String()\<close>.\<close>

definition key :: "string option \<Rightarrow> string" where
  "key addr =
     (case addr of
        None \<Rightarrow> ''unknown''
      | Some s \<Rightarrow> (case SplitHostPort s of None \<Rightarrow> s | Some (host, port) \<Rightarrow> host))"

definition getSource :: "Limiter \<Rightarrow> string \<Rightarrow> time \<Rightarrow> source \<times> Limiter" where
  "getSource l k now =
     (let s = (case lim_sources l k of
                 Some s \<Rightarrow> s
               | None \<Rightarrow> \<lparr>src_tokens = rl_Burst (lim_cfg l), src_lastRefill = now,
                          src_inFlight = 0, src_failures = [], src_blockedTil = 0,
                          src_lastSeen = 0\<rparr>);
          s = s\<lparr>src_lastSeen := now\<rparr>
      in (s, l\<lparr>lim_sources := (lim_sources l)(k \<mapsto> s)\<rparr>))"

definition evicts :: "RLConfig \<Rightarrow> time \<Rightarrow> source \<Rightarrow> bool" where
  "evicts cfg now s \<longleftrightarrow>
     \<not> (0 < src_inFlight s \<or> now < src_blockedTil s) \<and>
     rl_IdleTTL cfg < timeSub now (src_lastSeen s)"

definition evictLocked :: "Limiter \<Rightarrow> time \<Rightarrow> Limiter" where
  "evictLocked l now = l\<lparr>lim_sources := (\<lambda>k.
     case lim_sources l k of
       None \<Rightarrow> None
     | Some s \<Rightarrow> if evicts (lim_cfg l) now s then None else Some s)\<rparr>"

definition refill :: "RLConfig \<Rightarrow> time \<Rightarrow> source \<Rightarrow> source" where
  "refill cfg now s =
     (let elapsed = durationSeconds (timeSub now (src_lastRefill s)) in
      if 0 < elapsed then
        let t = f64 (src_tokens s + f64 (elapsed * rl_Rate cfg));
            t = (if rl_Burst cfg < t then rl_Burst cfg else t)
        in s\<lparr>src_tokens := t, src_lastRefill := now\<rparr>
      else s)"

text \<open>
  \<open>Acquire\<close> returns the reason and, when it is \<open>Allowed\<close>, the release function's number;
  the other release functions do nothing.
\<close>

definition Acquire :: "Limiter \<Rightarrow> string option \<Rightarrow> time \<Rightarrow> (Reason \<times> nat option) \<times> Limiter" where
  "Acquire l addr now =
     (let k = key addr;
          l = evictLocked l now;
          (s, l) = getSource l k now;
          cfg = lim_cfg l
      in
      if now < src_blockedTil s then ((ReasonBlocked, None), l)
      else if rl_MaxConcurrent cfg \<le> src_inFlight s then ((ReasonConcurrent, None), l)
      else
        let s = refill cfg now s in
        if src_tokens s < 1 then
          ((ReasonRate, None), l\<lparr>lim_sources := (lim_sources l)(k \<mapsto> s)\<rparr>)
        else
          let s = s\<lparr>src_tokens := f64 (src_tokens s - 1), src_inFlight := src_inFlight s + 1\<rparr>
          in ((Allowed, Some (length (lim_releases l))),
              l\<lparr>lim_sources := (lim_sources l)(k \<mapsto> s),
                lim_releases := lim_releases l @ [Some k]\<rparr>))"

text \<open>Calling release function number \<open>n\<close>; calling it again, or one that never was, is no step.\<close>

definition release :: "Limiter \<Rightarrow> nat \<Rightarrow> Limiter" where
  "release l n =
     (if n < length (lim_releases l) then
        (case lim_releases l ! n of
           None \<Rightarrow> l
         | Some k \<Rightarrow>
             let l = l\<lparr>lim_releases := (lim_releases l)[n := None]\<rparr> in
             (case lim_sources l k of
                Some cur \<Rightarrow>
                  if 0 < src_inFlight cur then
                    l\<lparr>lim_sources := (lim_sources l)(k \<mapsto> cur\<lparr>src_inFlight := src_inFlight cur - 1\<rparr>)\<rparr>
                  else l
              | None \<Rightarrow> l))
      else l)"

definition RecordFailure :: "Limiter \<Rightarrow> string option \<Rightarrow> time \<Rightarrow> Limiter" where
  "RecordFailure l addr now =
     (let k = key addr;
          (s, l) = getSource l k now;
          cfg = lim_cfg l;
          cutoff = now - rl_FailureWindow cfg;
          kept = filter (\<lambda>f. cutoff < f) (src_failures s);
          s = s\<lparr>src_failures := kept @ [now]\<rparr>;
          s = (if rl_MaxFailures cfg \<le> int (length (src_failures s))
               then s\<lparr>src_blockedTil := now + rl_BlockDuration cfg, src_failures := []\<rparr> else s)
      in l\<lparr>lim_sources := (lim_sources l)(k \<mapsto> s)\<rparr>)"

definition RecordSuccess :: "Limiter \<Rightarrow> string option \<Rightarrow> time \<Rightarrow> Limiter" where
  "RecordSuccess l addr now =
     (let k = key addr;
          (s, l) = getSource l k now
      in l\<lparr>lim_sources := (lim_sources l)(k \<mapsto> s\<lparr>src_failures := []\<rparr>)\<rparr>)"

definition Blocked :: "Limiter \<Rightarrow> string option \<Rightarrow> time \<Rightarrow> bool" where
  "Blocked l addr now =
     (case lim_sources l (key addr) of None \<Rightarrow> False | Some s \<Rightarrow> now < src_blockedTil s)"

subsection \<open>Sequences of operations\<close>

datatype rlOp =
    OpAcquire "string option"
  | OpRelease nat
  | OpFailure "string option"
  | OpSuccess "string option"

fun rlStep :: "Limiter \<Rightarrow> time \<times> rlOp \<Rightarrow> Limiter" where
  "rlStep l (now, OpAcquire a) = snd (Acquire l a now)"
| "rlStep l (now, OpRelease n) = release l n"
| "rlStep l (now, OpFailure a) = RecordFailure l a now"
| "rlStep l (now, OpSuccess a) = RecordSuccess l a now"

definition rlRun :: "Limiter \<Rightarrow> (time \<times> rlOp) list \<Rightarrow> Limiter" where
  "rlRun l evs = foldl rlStep l evs"

text \<open>Whether an event is an admitted connection of a source, and an attempt of one.\<close>

fun admits :: "string \<Rightarrow> Limiter \<Rightarrow> time \<times> rlOp \<Rightarrow> bool" where
  "admits k l (now, OpAcquire a) \<longleftrightarrow> key a = k \<and> fst (fst (Acquire l a now)) = Allowed"
| "admits k l (now, op) \<longleftrightarrow> False"

fun attempts :: "string \<Rightarrow> time \<times> rlOp \<Rightarrow> bool" where
  "attempts k (now, OpAcquire a) \<longleftrightarrow> key a = k"
| "attempts k (now, op) \<longleftrightarrow> False"

primrec admissions :: "string \<Rightarrow> Limiter \<Rightarrow> (time \<times> rlOp) list \<Rightarrow> nat" where
  "admissions k l [] = 0"
| "admissions k l (e # es) = of_bool (admits k l e) + admissions k (rlStep l e) es"

subsection \<open>The invariant\<close>

definition wfConfig :: "RLConfig \<Rightarrow> bool" where
  "wfConfig cfg \<longleftrightarrow>
     1 \<le> rl_Burst cfg \<and> f64 (rl_Burst cfg) = rl_Burst cfg \<and> 0 \<le> rl_Rate cfg \<and>
     0 \<le> rl_MaxConcurrent cfg \<and> 1 \<le> rl_MaxFailures cfg"

definition okSource :: "RLConfig \<Rightarrow> source \<Rightarrow> bool" where
  "okSource cfg s \<longleftrightarrow>
     0 \<le> src_tokens s \<and> src_tokens s \<le> rl_Burst cfg \<and> f64 (src_tokens s) = src_tokens s \<and>
     0 \<le> src_inFlight s \<and> src_inFlight s \<le> rl_MaxConcurrent cfg \<and>
     int (length (src_failures s)) < rl_MaxFailures cfg"

text \<open>The release functions of a source that have not been called.\<close>

definition openSlots :: "Limiter \<Rightarrow> string \<Rightarrow> int" where
  "openSlots l k = int (count_list (lim_releases l) (Some k))"

definition rlInv :: "Limiter \<Rightarrow> bool" where
  "rlInv l \<longleftrightarrow>
     (\<forall>k. case lim_sources l k of
            None \<Rightarrow> openSlots l k = 0
          | Some s \<Rightarrow> okSource (lim_cfg l) s \<and> src_inFlight s = openSlots l k)"

lemma wfConfig_Default: "wfConfig DefaultConfig"
  using f64_of_int [of 10] by (simp add: wfConfig_def DefaultConfig_def)

lemma rlInv_New: "rlInv (NewLimiter cfg)"
  by (simp add: rlInv_def NewLimiter_def openSlots_def)

lemma rlInv_None: "rlInv l \<Longrightarrow> lim_sources l k = None \<Longrightarrow> openSlots l k = 0"
  unfolding rlInv_def by (drule spec [where x = k]) simp

lemma rlInv_Some:
  "rlInv l \<Longrightarrow> lim_sources l k = Some s \<Longrightarrow>
   okSource (lim_cfg l) s \<and> src_inFlight s = openSlots l k"
  unfolding rlInv_def by (drule spec [where x = k]) simp

text \<open>Storing a good source under a key keeps the invariant.\<close>

lemma rlInv_store:
  assumes "rlInv l" "okSource (lim_cfg l) s" "src_inFlight s = openSlots l' k"
    and "lim_cfg l' = lim_cfg l" "lim_sources l' = (lim_sources l)(k \<mapsto> s)"
    and "\<And>j. j \<noteq> k \<Longrightarrow> openSlots l' j = openSlots l j"
  shows "rlInv l'"
  unfolding rlInv_def
proof
  fix j
  show "case lim_sources l' j of None \<Rightarrow> openSlots l' j = 0
        | Some s \<Rightarrow> okSource (lim_cfg l') s \<and> src_inFlight s = openSlots l' j"
    using assms rlInv_None [OF assms(1), of j] rlInv_Some [OF assms(1), of j]
    by (cases "j = k") (auto split: option.splits)
qed

lemma rlInv_put:
  assumes "rlInv l" "okSource (lim_cfg l) s" "src_inFlight s = openSlots l k"
  shows "rlInv (l\<lparr>lim_sources := (lim_sources l)(k \<mapsto> s)\<rparr>)"
  by (rule rlInv_store [OF assms(1,2), where k = k]) (simp_all add: assms openSlots_def)

lemma evictLocked_simps [simp]:
  "lim_cfg (evictLocked l now) = lim_cfg l"
  "lim_releases (evictLocked l now) = lim_releases l"
  "openSlots (evictLocked l now) k = openSlots l k"
  by (simp_all add: evictLocked_def openSlots_def)

lemma evictLocked_source:
  "lim_sources (evictLocked l now) k =
     (case lim_sources l k of
        None \<Rightarrow> None | Some s \<Rightarrow> if evicts (lim_cfg l) now s then None else Some s)"
  by (simp add: evictLocked_def)

lemma rlInv_evict:
  assumes inv: "rlInv l"
  shows "rlInv (evictLocked l now)"
  unfolding rlInv_def
proof
  fix k
  show "case lim_sources (evictLocked l now) k of
          None \<Rightarrow> openSlots (evictLocked l now) k = 0
        | Some s \<Rightarrow> okSource (lim_cfg (evictLocked l now)) s \<and>
                    src_inFlight s = openSlots (evictLocked l now) k"
  proof (cases "lim_sources l k")
    case None
    with inv show ?thesis by (simp add: evictLocked_source rlInv_None)
  next
    case (Some s)
    with rlInv_Some [OF inv Some] show ?thesis
      by (auto simp: evictLocked_source evicts_def okSource_def)
  qed
qed

text \<open>The source an operation works on, and the limiter with it stored.\<close>

definition found :: "Limiter \<Rightarrow> string \<Rightarrow> time \<Rightarrow> source" where
  "found l k now = fst (getSource l k now)"

lemma getSource_found:
  "getSource l k now = (found l k now, l\<lparr>lim_sources := (lim_sources l)(k \<mapsto> found l k now)\<rparr>)"
  by (simp add: found_def getSource_def Let_def)

lemma found_Some: "lim_sources l k = Some s \<Longrightarrow> found l k now = s\<lparr>src_lastSeen := now\<rparr>"
  by (simp add: found_def getSource_def Let_def)

lemma found_None:
  "lim_sources l k = None \<Longrightarrow>
   found l k now = \<lparr>src_tokens = rl_Burst (lim_cfg l), src_lastRefill = now, src_inFlight = 0,
     src_failures = [], src_blockedTil = 0, src_lastSeen = now\<rparr>"
  by (simp add: found_def getSource_def Let_def)

lemma found_ok:
  assumes "rlInv l" "wfConfig (lim_cfg l)"
  shows "okSource (lim_cfg l) (found l k now)" "src_inFlight (found l k now) = openSlots l k"
proof -
  have "okSource (lim_cfg l) (found l k now) \<and> src_inFlight (found l k now) = openSlots l k"
  proof (cases "lim_sources l k")
    case None
    with assms show ?thesis by (simp add: found_None rlInv_None okSource_def wfConfig_def)
  next
    case (Some s)
    from rlInv_Some [OF assms(1) Some] show ?thesis
      by (simp add: found_Some [OF Some] okSource_def)
  qed
  then show "okSource (lim_cfg l) (found l k now)" "src_inFlight (found l k now) = openSlots l k"
    by simp_all
qed

lemma refill_simps [simp]:
  "src_inFlight (refill cfg now s) = src_inFlight s"
  "src_failures (refill cfg now s) = src_failures s"
  "src_blockedTil (refill cfg now s) = src_blockedTil s"
  "src_lastSeen (refill cfg now s) = src_lastSeen s"
  by (simp_all add: refill_def Let_def)

lemma refill_ok:
  assumes "okSource cfg s" "wfConfig cfg"
  shows "okSource cfg (refill cfg now s)"
proof -
  let ?e = "durationSeconds (timeSub now (src_lastRefill s))"
  have "0 \<le> f64 (src_tokens s + f64 (?e * rl_Rate cfg))" if "0 < ?e"
    using that assms by (intro f64r.fl_nonneg add_nonneg_nonneg mult_nonneg_nonneg)
      (auto simp: okSource_def wfConfig_def)
  with assms show ?thesis
    by (auto simp: refill_def Let_def okSource_def wfConfig_def f64_idem)
qed

definition takeToken :: "source \<Rightarrow> source" where
  "takeToken s = s\<lparr>src_tokens := f64 (src_tokens s - 1), src_inFlight := src_inFlight s + 1\<rparr>"

lemma takeToken_ok:
  assumes "okSource cfg s" "1 \<le> src_tokens s" "src_inFlight s < rl_MaxConcurrent cfg"
  shows "okSource cfg (takeToken s)"
proof -
  have "f64 (src_tokens s - 1) \<le> src_tokens s"
    using assms by (intro f64r.fl_le_repr) (auto simp: okSource_def)
  moreover have "0 \<le> f64 (src_tokens s - 1)"
    using assms by (intro f64r.fl_nonneg) simp
  ultimately show ?thesis
    using assms by (auto simp: okSource_def takeToken_def f64_idem)
qed

text \<open>\<open>Acquire\<close> by the source it finds after the sweep.\<close>

lemma Acquire_cases:
  fixes l now a
  defines "l' \<equiv> evictLocked l now"
  defines "s \<equiv> found l' (key a) now"
  defines "r \<equiv> refill (lim_cfg l) now s"
  shows "Acquire l a now =
    (if now < src_blockedTil s then
       ((ReasonBlocked, None), l'\<lparr>lim_sources := (lim_sources l')(key a \<mapsto> s)\<rparr>)
     else if rl_MaxConcurrent (lim_cfg l) \<le> src_inFlight s then
       ((ReasonConcurrent, None), l'\<lparr>lim_sources := (lim_sources l')(key a \<mapsto> s)\<rparr>)
     else if src_tokens r < 1 then
       ((ReasonRate, None), l'\<lparr>lim_sources := (lim_sources l')(key a \<mapsto> r)\<rparr>)
     else ((Allowed, Some (length (lim_releases l))),
           l'\<lparr>lim_sources := (lim_sources l')(key a \<mapsto> takeToken r),
              lim_releases := lim_releases l @ [Some (key a)]\<rparr>))"
  unfolding l'_def s_def r_def
  by (simp add: Acquire_def getSource_found Let_def takeToken_def)

text \<open>The other two operations store the source they find, changed.\<close>

definition noteFailure :: "RLConfig \<Rightarrow> time \<Rightarrow> source \<Rightarrow> source" where
  "noteFailure cfg now s =
     (let fs = filter (\<lambda>f. now - rl_FailureWindow cfg < f) (src_failures s) @ [now] in
      if rl_MaxFailures cfg \<le> int (length fs)
      then s\<lparr>src_blockedTil := now + rl_BlockDuration cfg, src_failures := []\<rparr>
      else s\<lparr>src_failures := fs\<rparr>)"

lemma RecordFailure_eq:
  "RecordFailure l a now = l\<lparr>lim_sources := (lim_sources l)
     (key a \<mapsto> noteFailure (lim_cfg l) now (found l (key a) now))\<rparr>"
  by (simp add: RecordFailure_def getSource_found Let_def noteFailure_def)

lemma RecordSuccess_eq:
  "RecordSuccess l a now = l\<lparr>lim_sources := (lim_sources l)
     (key a \<mapsto> (found l (key a) now)\<lparr>src_failures := []\<rparr>)\<rparr>"
  by (simp add: RecordSuccess_def getSource_found Let_def)

lemma lim_cfg_Acquire [simp]: "lim_cfg (snd (Acquire l a now)) = lim_cfg l"
  by (simp add: Acquire_cases)

lemma lim_cfg_release [simp]: "lim_cfg (release l n) = lim_cfg l"
  by (simp add: release_def Let_def split: option.splits)

lemma lim_cfg_step [simp]: "lim_cfg (rlStep l e) = lim_cfg l"
  by (cases "(l, e)" rule: rlStep.cases)
    (auto simp: RecordFailure_def RecordSuccess_def getSource_found Let_def)

lemma rlInv_Acquire:
  assumes inv: "rlInv l" and wf: "wfConfig (lim_cfg l)"
  shows "rlInv (snd (Acquire l a now))"
proof -
  let ?l = "evictLocked l now"
  let ?s = "found ?l (key a) now"
  let ?r = "refill (lim_cfg l) now ?s"
  have inv': "rlInv ?l" using inv by (rule rlInv_evict)
  have ok: "okSource (lim_cfg ?l) ?s" "src_inFlight ?s = openSlots l (key a)"
    using found_ok [OF inv', of "key a" now] wf by simp_all
  have r: "okSource (lim_cfg ?l) ?r" using refill_ok [of "lim_cfg l"] ok(1) wf by simp
  have keep: "rlInv (?l\<lparr>lim_sources := (lim_sources ?l)(key a \<mapsto> x)\<rparr>)"
    if "okSource (lim_cfg ?l) x" "src_inFlight x = src_inFlight ?s" for x
    using that ok(2) by (intro rlInv_put [OF inv']) simp_all
  have take: "rlInv (?l\<lparr>lim_sources := (lim_sources ?l)(key a \<mapsto> takeToken ?r),
      lim_releases := lim_releases l @ [Some (key a)]\<rparr>)"
    if "1 \<le> src_tokens ?r" "src_inFlight ?s < rl_MaxConcurrent (lim_cfg l)"
  proof -
    have "okSource (lim_cfg ?l) (takeToken ?r)" using r that by (intro takeToken_ok) simp_all
    then show ?thesis
      by (rule rlInv_store [OF inv', where k = "key a"])
        (use ok(2) in \<open>auto simp: openSlots_def takeToken_def\<close>)
  qed
  show ?thesis
    using keep [OF ok(1)] keep [OF r] take by (simp add: Acquire_cases not_le not_less)
qed

lemma rlInv_release:
  assumes inv: "rlInv l"
  shows "rlInv (release l n)"
proof (cases "n < length (lim_releases l) \<and> lim_releases l ! n \<noteq> None")
  case True
  then obtain k where n: "n < length (lim_releases l)" and k: "lim_releases l ! n = Some k" by blast
  have count: "count_list ((lim_releases l)[n := None]) (Some j) + of_bool (k = j) =
      count_list (lim_releases l) (Some j)" for j
    using count_list_update [OF n, of None "Some j"] k by simp
  then have open_pos: "0 < openSlots l k" using count [of k] by (simp add: openSlots_def)
  then obtain s where s: "lim_sources l k = Some s" using inv rlInv_None by force
  have ok: "okSource (lim_cfg l) s" "src_inFlight s = openSlots l k"
    using rlInv_Some [OF inv s] by simp_all
  have "okSource (lim_cfg l) (s\<lparr>src_inFlight := src_inFlight s - 1\<rparr>)"
    using ok open_pos by (simp add: okSource_def)
  moreover have "release l n = l\<lparr>lim_releases := (lim_releases l)[n := None],
      lim_sources := (lim_sources l)(k \<mapsto> s\<lparr>src_inFlight := src_inFlight s - 1\<rparr>)\<rparr>" (is "_ = ?l'")
    using n k s ok open_pos by (simp add: release_def Let_def)
  moreover have "openSlots ?l' j = openSlots l j - of_bool (k = j)" for j
    using count [of j] by (auto simp: openSlots_def)
  ultimately show ?thesis
    using ok(2) by (auto intro!: rlInv_store [OF inv, where k = k])
next
  case False
  with inv show ?thesis by (auto simp: release_def)
qed

lemma rlInv_RecordFailure:
  assumes inv: "rlInv l" and wf: "wfConfig (lim_cfg l)"
  shows "rlInv (RecordFailure l a now)"
proof -
  from found_ok [OF inv wf, of "key a" now]
  have "okSource (lim_cfg l) (noteFailure (lim_cfg l) now (found l (key a) now))"
    "src_inFlight (noteFailure (lim_cfg l) now (found l (key a) now)) = openSlots l (key a)"
    using wf by (auto simp: noteFailure_def Let_def okSource_def wfConfig_def)
  then show ?thesis unfolding RecordFailure_eq by (rule rlInv_put [OF inv])
qed

lemma rlInv_RecordSuccess:
  assumes inv: "rlInv l" and wf: "wfConfig (lim_cfg l)"
  shows "rlInv (RecordSuccess l a now)"
proof -
  from found_ok [OF inv wf, of "key a" now]
  have "okSource (lim_cfg l) ((found l (key a) now)\<lparr>src_failures := []\<rparr>)"
    "src_inFlight ((found l (key a) now)\<lparr>src_failures := []\<rparr>) = openSlots l (key a)"
    using wf by (auto simp: okSource_def wfConfig_def)
  then show ?thesis unfolding RecordSuccess_eq by (rule rlInv_put [OF inv])
qed

lemma rlInv_step: "rlInv l \<Longrightarrow> wfConfig (lim_cfg l) \<Longrightarrow> rlInv (rlStep l e)"
  by (cases "(l, e)" rule: rlStep.cases)
    (simp_all add: rlInv_Acquire rlInv_release rlInv_RecordFailure rlInv_RecordSuccess)

lemma rlRun_Nil [simp]: "rlRun l [] = l"
  by (simp add: rlRun_def)

lemma rlRun_Cons [simp]: "rlRun l (e # es) = rlRun (rlStep l e) es"
  by (simp add: rlRun_def)

lemma lim_cfg_run [simp]: "lim_cfg (rlRun l es) = lim_cfg l"
  by (induction es arbitrary: l) simp_all

lemma rlInv_run: "rlInv l \<Longrightarrow> wfConfig (lim_cfg l) \<Longrightarrow> rlInv (rlRun l es)"
  by (induction es arbitrary: l) (simp_all add: rlInv_step)

subsection \<open>How many connections a source is granted\<close>

text \<open>What \<open>d\<close> nanoseconds earn at the sustained rate.\<close>

definition earned :: "RLConfig \<Rightarrow> duration \<Rightarrow> rat" where
  "earned cfg d = of_int d / 1000000000 * rl_Rate cfg"

text \<open>An idle period long enough to be evicted for refills the bucket.\<close>

definition wfIdle :: "RLConfig \<Rightarrow> bool" where
  "wfIdle cfg \<longleftrightarrow> 0 \<le> rl_IdleTTL cfg \<and> rl_Burst cfg \<le> earned cfg (rl_IdleTTL cfg)"

lemma wfIdle_Default: "wfIdle DefaultConfig"
  by (simp add: wfIdle_def DefaultConfig_def earned_def)

text \<open>The rounding error of one attempt, relative to the size of the bucket.\<close>

definition slack :: "RLConfig \<Rightarrow> rat" where
  "slack cfg = rl_Burst cfg / 2 ^ 49"

lemma earned_mono: "0 \<le> rl_Rate cfg \<Longrightarrow> d \<le> d' \<Longrightarrow> earned cfg d \<le> earned cfg d'"
  unfolding earned_def by (intro mult_right_mono divide_right_mono) simp_all

lemma earned_add: "earned cfg (d + d') = earned cfg d + earned cfg d'"
  by (simp add: earned_def field_simps)

lemma refill_lastRefill:
  "src_lastRefill (refill cfg now s) = src_lastRefill s \<or>
   src_lastRefill (refill cfg now s) = now \<and> src_lastRefill s < now"
  using durationSeconds_posD [of "timeSub now (src_lastRefill s)"]
  by (auto simp: refill_def Let_def)

lemma refill_tokens:
  assumes ok: "okSource cfg s" and wf: "wfConfig cfg"
  shows "src_tokens (refill cfg now s) \<le>
    src_tokens s + earned cfg (src_lastRefill (refill cfg now s) - src_lastRefill s) +
    10 * (1 / 2 ^ 53) * rl_Burst cfg"
proof -
  let ?d = "timeSub now (src_lastRefill s)"
  let ?e = "durationSeconds ?d" and ?D = "of_int ?d / 1000000000 :: rat"
  have B: "0 \<le> rl_Burst cfg" and R: "0 \<le> rl_Rate cfg" using wf by (auto simp: wfConfig_def)
  show ?thesis
  proof (cases "0 < ?e")
    case True
    then have pos: "0 < ?d" by (rule durationSeconds_posD)
    have tokens: "src_tokens (refill cfg now s) =
        min (rl_Burst cfg) (f64 (src_tokens s + f64 (?e * rl_Rate cfg)))"
      and last: "src_lastRefill (refill cfg now s) = now"
      using True by (auto simp: refill_def Let_def)
    have "src_tokens (refill cfg now s) \<le>
        src_tokens s + ?D * rl_Rate cfg + 10 * (1 / 2 ^ 53) * rl_Burst cfg"
      unfolding tokens using ok R True durationSeconds_bound(2) [OF less_imp_le [OF pos]] pos
      by (intro f64r.refill_bound) (simp_all add: okSource_def del: timeSub_pos_iff)
    moreover have "?D * rl_Rate cfg \<le> earned cfg (now - src_lastRefill s)"
      unfolding earned_def using R pos timeSub_le [of "src_lastRefill s" now]
      by (intro mult_right_mono divide_right_mono) simp_all
    ultimately show ?thesis unfolding last by linarith
  next
    case False
    with B show ?thesis by (simp add: refill_def Let_def earned_def)
  qed
qed

text \<open>
  The state of a source's account at time \<open>c\<close>, after \<open>adm\<close> admissions and \<open>att\<close> attempts
  since \<open>t0\<close>.
\<close>

definition bucketOK :: "string \<Rightarrow> time \<Rightarrow> Limiter \<Rightarrow> time \<Rightarrow> nat \<Rightarrow> nat \<Rightarrow> bool" where
  "bucketOK k t0 l c adm att \<longleftrightarrow> t0 \<le> c \<and>
     (case lim_sources l k of
        None \<Rightarrow> of_nat adm \<le> earned (lim_cfg l) (c - t0) + of_nat att * slack (lim_cfg l)
      | Some s \<Rightarrow>
          src_lastRefill s \<le> src_lastSeen s \<and> src_lastSeen s \<le> c \<and>
          of_nat adm + src_tokens s \<le> rl_Burst (lim_cfg l) +
            earned (lim_cfg l) (src_lastRefill s - t0) + of_nat att * slack (lim_cfg l))"

lemma bucketOK_evict:
  assumes inv: "rlInv l" and wf: "wfConfig (lim_cfg l)" "wfIdle (lim_cfg l)"
    and ok: "bucketOK k t0 l c adm att" and now: "c \<le> now"
  shows "bucketOK k t0 (evictLocked l now) now adm att"
proof (cases "lim_sources l k")
  case None
  have "earned (lim_cfg l) (c - t0) \<le> earned (lim_cfg l) (now - t0)"
    using wf now by (intro earned_mono) (auto simp: wfConfig_def)
  with None ok now show ?thesis by (simp add: bucketOK_def evictLocked_source)
next
  case (Some s)
  from rlInv_Some [OF inv Some] have tok: "0 \<le> src_tokens s" by (simp add: okSource_def)
  show ?thesis
  proof (cases "evicts (lim_cfg l) now s")
    case True
    then have idle: "rl_IdleTTL (lim_cfg l) < timeSub now (src_lastSeen s)"
      by (simp add: evicts_def)
    with wf(2) have "0 < timeSub now (src_lastSeen s)" unfolding wfIdle_def by linarith
    then have "src_lastSeen s \<le> now" by simp
    from timeSub_le [OF this] idle
    have "rl_IdleTTL (lim_cfg l) \<le> now - src_lastRefill s" using ok Some by (simp add: bucketOK_def)
    then have "rl_Burst (lim_cfg l) \<le> earned (lim_cfg l) (now - src_lastRefill s)"
      using wf earned_mono [of "lim_cfg l"] by (fastforce simp: wfIdle_def wfConfig_def)
    moreover have "earned (lim_cfg l) (now - t0) =
        earned (lim_cfg l) (now - src_lastRefill s) + earned (lim_cfg l) (src_lastRefill s - t0)"
      by (simp flip: earned_add)
    ultimately show ?thesis
      using Some True ok now tok by (simp add: bucketOK_def evictLocked_source)
  next
    case False
    with Some ok now show ?thesis by (simp add: bucketOK_def evictLocked_source)
  qed
qed

text \<open>A key's account depends on its own entry alone.\<close>

lemma bucketOK_cong:
  assumes "lim_sources l' k = lim_sources l k" "lim_cfg l' = lim_cfg l"
  shows "bucketOK k t0 l' c adm att = bucketOK k t0 l c adm att"
  unfolding bucketOK_def assms ..

lemma bucketOK_found:
  assumes "bucketOK k t0 l c adm att" "c \<le> now" "0 \<le> rl_Rate (lim_cfg l)"
  shows "src_lastRefill (found l k now) \<le> now" and "src_lastSeen (found l k now) = now"
    and "of_nat adm + src_tokens (found l k now) \<le> rl_Burst (lim_cfg l) +
      earned (lim_cfg l) (src_lastRefill (found l k now) - t0) + of_nat att * slack (lim_cfg l)"
proof -
  have "earned (lim_cfg l) (c - t0) \<le> earned (lim_cfg l) (now - t0)"
    using assms by (intro earned_mono) simp_all
  with assms have "src_lastRefill (found l k now) \<le> now \<and> src_lastSeen (found l k now) = now \<and>
    of_nat adm + src_tokens (found l k now) \<le> rl_Burst (lim_cfg l) +
      earned (lim_cfg l) (src_lastRefill (found l k now) - t0) + of_nat att * slack (lim_cfg l)"
    by (cases "lim_sources l k") (auto simp: bucketOK_def found_None found_Some)
  then show "src_lastRefill (found l k now) \<le> now" "src_lastSeen (found l k now) = now"
    "of_nat adm + src_tokens (found l k now) \<le> rl_Burst (lim_cfg l) +
      earned (lim_cfg l) (src_lastRefill (found l k now) - t0) + of_nat att * slack (lim_cfg l)"
    by simp_all
qed

lemma bucketOK_stored:
  assumes "t0 \<le> now" "src_lastRefill s \<le> now" "src_lastSeen s = now"
    and "of_nat adm + src_tokens s \<le> rl_Burst (lim_cfg l) +
      earned (lim_cfg l) (src_lastRefill s - t0) + of_nat att * slack (lim_cfg l)"
    and "lim_sources l' k = Some s" "lim_cfg l' = lim_cfg l"
  shows "bucketOK k t0 l' now adm att"
  using assms by (simp add: bucketOK_def)

text \<open>A refill earns what the time brings, up to rounding.\<close>

lemma refill_account:
  assumes "okSource cfg s" "wfConfig cfg"
    and "x + src_tokens s \<le> rl_Burst cfg + earned cfg (src_lastRefill s - t0) + y"
  shows "x + src_tokens (refill cfg now s) \<le>
    rl_Burst cfg + earned cfg (src_lastRefill (refill cfg now s) - t0) + y + 10 * (1 / 2 ^ 53) * rl_Burst cfg"
proof -
  let ?r = "refill cfg now s"
  have "earned cfg (src_lastRefill ?r - t0) =
      earned cfg (src_lastRefill ?r - src_lastRefill s) + earned cfg (src_lastRefill s - t0)"
    by (simp flip: earned_add)
  with refill_tokens [OF assms(1,2), of now] assms(3) show ?thesis by linarith
qed

lemma bucketOK_Acquire:
  assumes inv: "rlInv l" and wf: "wfConfig (lim_cfg l)" "wfIdle (lim_cfg l)"
    and ok: "bucketOK (key a) t0 l c adm att" and now: "c \<le> now"
  shows "bucketOK (key a) t0 (snd (Acquire l a now)) now
    (of_bool (fst (fst (Acquire l a now)) = Allowed) + adm) (Suc att)"
proof -
  let ?cfg = "lim_cfg l" and ?l = "evictLocked l now" and ?k = "key a"
  let ?s = "found ?l ?k now"
  let ?r = "refill ?cfg now ?s"
  have R: "0 \<le> rl_Rate (lim_cfg ?l)" using wf by (simp add: wfConfig_def)
  have B: "0 \<le> rl_Burst ?cfg" using wf by (simp add: wfConfig_def)
  have e: "bucketOK ?k t0 ?l now adm att" using bucketOK_evict [OF inv wf ok now] .
  have t0: "t0 \<le> now" using ok now by (simp add: bucketOK_def)
  have s: "src_lastRefill ?s \<le> now" "src_lastSeen ?s = now"
    "of_nat adm + src_tokens ?s \<le> rl_Burst ?cfg + earned ?cfg (src_lastRefill ?s - t0) +
      of_nat att * slack ?cfg"
    using bucketOK_found [OF e order_refl R] by simp_all
  have sok: "okSource ?cfg ?s" using found_ok(1) [OF rlInv_evict [OF inv], where k = ?k] wf by simp
  have rok: "okSource ?cfg ?r" using sok wf(1) by (rule refill_ok)
  have r: "src_lastRefill ?r \<le> now" "src_lastSeen ?r = now"
    using s refill_lastRefill [of ?cfg now ?s] by auto
  have r3: "of_nat adm + src_tokens ?r \<le> rl_Burst ?cfg + earned ?cfg (src_lastRefill ?r - t0) +
      of_nat att * slack ?cfg + 10 * (1 / 2 ^ 53) * rl_Burst ?cfg"
    using refill_account [OF sok wf(1) s(3)] .
  have sl: "11 * (1 / 2 ^ 53) * rl_Burst ?cfg \<le> slack ?cfg" using B by (simp add: slack_def)
  have Suc: "of_nat (Suc att) * slack ?cfg = of_nat att * slack ?cfg + slack ?cfg"
    by (simp add: algebra_simps)
  have small: "0 \<le> slack ?cfg" using B by (simp add: slack_def)
  show ?thesis
  proof (cases "fst (fst (Acquire l a now)) = Allowed")
    case True
    then have tok: "1 \<le> src_tokens ?r" and
      l': "lim_sources (snd (Acquire l a now)) ?k = Some (takeToken ?r)"
      by (auto simp: Acquire_cases split: if_splits)
    have "f64 (src_tokens ?r - 1) \<le> src_tokens ?r - 1 + 1 / 2 ^ 53 * rl_Burst ?cfg"
      using tok rok by (intro f64r.take_bound) (simp_all add: okSource_def)
    with r3 sl have "of_nat (1 + adm) + src_tokens (takeToken ?r) \<le>
        rl_Burst ?cfg + earned ?cfg (src_lastRefill ?r - t0) + of_nat (Suc att) * slack ?cfg"
      unfolding Suc by (simp add: takeToken_def)
    with r t0 True l' show ?thesis
      by (intro bucketOK_stored [where l = l and s = "takeToken ?r"])
        (simp_all add: takeToken_def)
  next
    case False
    then consider "lim_sources (snd (Acquire l a now)) ?k = Some ?s"
      | "lim_sources (snd (Acquire l a now)) ?k = Some ?r"
      by (auto simp: Acquire_cases split: if_splits)
    then show ?thesis
    proof cases
      case 1
      from s(3) small have "of_nat adm + src_tokens ?s \<le> rl_Burst ?cfg +
          earned ?cfg (src_lastRefill ?s - t0) + of_nat (Suc att) * slack ?cfg"
        unfolding Suc by linarith
      with 1 s(1,2) t0 False show ?thesis
        by (intro bucketOK_stored [where l = l and s = ?s]) simp_all
    next
      case 2
      from r3 sl small B have "of_nat adm + src_tokens ?r \<le> rl_Burst ?cfg +
          earned ?cfg (src_lastRefill ?r - t0) + of_nat (Suc att) * slack ?cfg"
        unfolding Suc by linarith
      with 2 r t0 False show ?thesis
        by (intro bucketOK_stored [where l = l and s = ?r]) simp_all
    qed
  qed
qed

lemma noteFailure_simps [simp]:
  "src_tokens (noteFailure cfg now s) = src_tokens s"
  "src_lastRefill (noteFailure cfg now s) = src_lastRefill s"
  "src_lastSeen (noteFailure cfg now s) = src_lastSeen s"
  by (simp_all add: noteFailure_def Let_def)

text \<open>An event about another key leaves an entry alone, but for the sweep.\<close>

lemma Acquire_other:
  "key a \<noteq> k \<Longrightarrow> lim_sources (snd (Acquire l a now)) k = lim_sources (evictLocked l now) k"
  by (simp add: Acquire_cases)

lemma release_source:
  "lim_sources (release l n) k = lim_sources l k \<or>
   (\<exists>s. lim_sources l k = Some s \<and>
        lim_sources (release l n) k = Some (s\<lparr>src_inFlight := src_inFlight s - 1\<rparr>))"
  by (auto simp: release_def Let_def split: option.splits)

text \<open>Time that passes only earns tokens.\<close>

lemma bucketOK_later:
  assumes "bucketOK k t0 l c adm att" "c \<le> t" "0 \<le> rl_Rate (lim_cfg l)"
  shows "bucketOK k t0 l t adm att"
  using assms earned_mono [of "lim_cfg l" "c - t0" "t - t0"]
  by (auto simp: bucketOK_def split: option.splits)

text \<open>A call that changes no bucket, of this source or of another, changes no account.\<close>

lemma bucketOK_failure:
  assumes "bucketOK k t0 l t adm att" "0 \<le> rl_Rate (lim_cfg l)"
  shows "bucketOK k t0 (RecordFailure l a t) t adm att"
proof (cases "key a = k")
  case True
  have "t0 \<le> t" using assms(1) by (simp add: bucketOK_def)
  with True bucketOK_found [OF assms(1) order_refl assms(2)] show ?thesis
    by (intro bucketOK_stored [where l = l and s = "noteFailure (lim_cfg l) t (found l k t)"])
      (simp_all add: RecordFailure_eq)
next
  case False
  then have "bucketOK k t0 (RecordFailure l a t) t adm att = bucketOK k t0 l t adm att"
    by (intro bucketOK_cong) (simp_all add: RecordFailure_eq)
  with assms(1) show ?thesis by simp
qed

lemma bucketOK_success:
  assumes "bucketOK k t0 l t adm att" "0 \<le> rl_Rate (lim_cfg l)"
  shows "bucketOK k t0 (RecordSuccess l a t) t adm att"
proof (cases "key a = k")
  case True
  have "t0 \<le> t" using assms(1) by (simp add: bucketOK_def)
  with True bucketOK_found [OF assms(1) order_refl assms(2)] show ?thesis
    by (intro bucketOK_stored [where l = l and s = "(found l k t)\<lparr>src_failures := []\<rparr>"])
      (simp_all add: RecordSuccess_eq)
next
  case False
  then have "bucketOK k t0 (RecordSuccess l a t) t adm att = bucketOK k t0 l t adm att"
    by (intro bucketOK_cong) (simp_all add: RecordSuccess_eq)
  with assms(1) show ?thesis by simp
qed

lemma bucketOK_release: "bucketOK k t0 l t adm att \<Longrightarrow> bucketOK k t0 (release l n) t adm att"
  using release_source [of l n k] by (auto simp: bucketOK_def split: option.splits)

lemma bucketOK_step:
  assumes inv: "rlInv l" and wf: "wfConfig (lim_cfg l)" "wfIdle (lim_cfg l)"
    and ok: "bucketOK k t0 l c adm att" and now: "c \<le> fst e"
  shows "bucketOK k t0 (rlStep l e) (fst e) (of_bool (admits k l e) + adm)
    (of_bool (attempts k e) + att)"
proof -
  obtain t op where e: "e = (t, op)" by (cases e)
  have R: "0 \<le> rl_Rate (lim_cfg l)" using wf by (simp add: wfConfig_def)
  have later: "bucketOK k t0 l t adm att" using bucketOK_later [OF ok _ R] now e by simp
  show ?thesis
  proof (cases op)
    case (OpAcquire a)
    show ?thesis
    proof (cases "key a = k")
      case True
      then show ?thesis
        using bucketOK_Acquire [OF inv wf, of a t0 c adm att t] ok now e OpAcquire by simp
    next
      case False
      have "bucketOK k t0 (evictLocked l t) t adm att"
        using bucketOK_evict [OF inv wf later order_refl] .
      then have "bucketOK k t0 (snd (Acquire l a t)) t adm att"
        using bucketOK_cong [of "snd (Acquire l a t)" k "evictLocked l t"] False
        by (simp add: Acquire_other)
      with False e OpAcquire show ?thesis by simp
    qed
  next
    case (OpRelease n)
    with e bucketOK_release [OF later] show ?thesis by simp
  next
    case (OpFailure a)
    with e bucketOK_failure [OF later R] show ?thesis by simp
  next
    case (OpSuccess a)
    with e bucketOK_success [OF later R] show ?thesis by simp
  qed
qed

primrec attemptCount :: "string \<Rightarrow> (time \<times> rlOp) list \<Rightarrow> nat" where
  "attemptCount k [] = 0"
| "attemptCount k (e # es) = of_bool (attempts k e) + attemptCount k es"

lemma bucketOK_run:
  assumes "rlInv l" "wfConfig (lim_cfg l)" "wfIdle (lim_cfg l)"
    and "bucketOK k t0 l c adm att" "sorted (c # map fst es)"
  shows "bucketOK k t0 (rlRun l es) (last (c # map fst es)) (adm + admissions k l es)
    (att + attemptCount k es)"
  using assms
proof (induction es arbitrary: l c adm att)
  case Nil
  then show ?case by simp
next
  case (Cons e es)
  have step: "bucketOK k t0 (rlStep l e) (fst e) (of_bool (admits k l e) + adm)
      (of_bool (attempts k e) + att)"
    using Cons.prems by (intro bucketOK_step) auto
  have "bucketOK k t0 (rlRun (rlStep l e) es) (last (fst e # map fst es))
      (of_bool (admits k l e) + adm + admissions k (rlStep l e) es)
      (of_bool (attempts k e) + att + attemptCount k es)"
    using Cons.prems by (intro Cons.IH [OF _ _ _ step]) (simp_all add: rlInv_step)
  then show ?case by (simp add: add_ac)
qed

lemma admissions_bound:
  assumes wf: "wfConfig cfg" "wfIdle cfg" and es: "sorted (t0 # map fst es)"
    and t1: "last (t0 # map fst es) = t1"
  shows "of_nat (admissions k (NewLimiter cfg) es) \<le>
    rl_Burst cfg + earned cfg (t1 - t0) + of_nat (attemptCount k es) * slack cfg"
proof -
  let ?l = "NewLimiter cfg" and ?n = "admissions k (NewLimiter cfg) es"
  let ?l' = "rlRun ?l es"
  have cfg: "lim_cfg ?l = cfg" by (simp add: NewLimiter_def)
  have "bucketOK k t0 ?l t0 0 0" by (simp add: bucketOK_def NewLimiter_def earned_def)
  then have "bucketOK k t0 ?l' (last (t0 # map fst es)) (0 + ?n) (0 + attemptCount k es)"
    using es wf by (intro bucketOK_run) (simp_all add: rlInv_New cfg)
  then have ok: "bucketOK k t0 ?l' t1 ?n (attemptCount k es)" unfolding t1 by simp
  have inv: "rlInv ?l'" using rlInv_run [OF rlInv_New, of cfg es] wf by (simp add: cfg)
  show ?thesis
  proof (cases "lim_sources ?l' k")
    case None
    with ok wf show ?thesis by (simp add: bucketOK_def cfg wfConfig_def)
  next
    case (Some s)
    with rlInv_Some [OF inv Some] have "0 \<le> src_tokens s" by (simp add: okSource_def)
    moreover have "earned cfg (src_lastRefill s - t0) \<le> earned cfg (t1 - t0)"
      using ok Some wf by (intro earned_mono) (auto simp: bucketOK_def wfConfig_def)
    ultimately show ?thesis using ok Some by (simp add: bucketOK_def cfg)
  qed
qed

subsection \<open>Guessing passwords from one source\<close>

text \<open>
  What a limiter remembers of \<open>c\<close> failures of a source since \<open>t0\<close>: it is blocked for the
  rest of the window, or still has them on record.
\<close>

definition remembers :: "string \<Rightarrow> time \<Rightarrow> Limiter \<Rightarrow> nat \<Rightarrow> bool" where
  "remembers k t0 l c \<longleftrightarrow> c = 0 \<or>
     (case lim_sources l k of
        None \<Rightarrow> False
      | Some s \<Rightarrow> t0 + rl_FailureWindow (lim_cfg l) \<le> src_blockedTil s \<or>
          t0 \<le> src_lastSeen s \<and> c \<le> length (filter (\<lambda>f. t0 \<le> f) (src_failures s)))"

definition wfWindow :: "RLConfig \<Rightarrow> bool" where
  "wfWindow cfg \<longleftrightarrow> rl_FailureWindow cfg \<le> rl_BlockDuration cfg \<and>
     rl_FailureWindow cfg \<le> rl_IdleTTL cfg"

lemma wfWindow_Default: "wfWindow DefaultConfig"
  by (simp add: wfWindow_def DefaultConfig_def)

fun failureOf :: "string \<Rightarrow> time \<times> rlOp \<Rightarrow> bool" where
  "failureOf k (now, OpFailure a) \<longleftrightarrow> key a = k"
| "failureOf k (now, op) \<longleftrightarrow> False"

fun successOf :: "string \<Rightarrow> time \<times> rlOp \<Rightarrow> bool" where
  "successOf k (now, OpSuccess a) \<longleftrightarrow> key a = k"
| "successOf k (now, op) \<longleftrightarrow> False"

text \<open>An entry that is kept, refreshed or replaced by one with the same record of failures.\<close>

lemma remembers_keep:
  assumes "remembers k t0 l c" "lim_cfg l' = lim_cfg l"
    and "\<And>s. lim_sources l k = Some s \<Longrightarrow>
      \<exists>s'. lim_sources l' k = Some s' \<and> src_blockedTil s' = src_blockedTil s \<and>
           src_failures s' = src_failures s \<and> (t0 \<le> src_lastSeen s \<longrightarrow> t0 \<le> src_lastSeen s')"
  shows "remembers k t0 l' c"
proof (cases "lim_sources l k")
  case None
  with assms(1) show ?thesis by (simp add: remembers_def)
next
  case (Some s)
  from assms(3) [OF this] obtain s' where "lim_sources l' k = Some s'"
    "src_blockedTil s' = src_blockedTil s" "src_failures s' = src_failures s"
    "t0 \<le> src_lastSeen s \<longrightarrow> t0 \<le> src_lastSeen s'" by blast
  with assms(1,2) Some show ?thesis by (auto simp: remembers_def)
qed

lemma remembers_evict:
  assumes "remembers k t0 l c" "wfWindow (lim_cfg l)"
    and "t0 \<le> t" "t < t0 + rl_FailureWindow (lim_cfg l)"
  shows "remembers k t0 (evictLocked l t) c"
proof (cases "lim_sources l k")
  case None
  with assms(1) show ?thesis by (simp add: remembers_def)
next
  case (Some s)
  have "\<not> evicts (lim_cfg l) t s" if "c \<noteq> 0"
  proof -
    from that assms(1) Some
    consider "t0 + rl_FailureWindow (lim_cfg l) \<le> src_blockedTil s" | "t0 \<le> src_lastSeen s"
      by (auto simp: remembers_def)
    then show ?thesis
    proof cases
      case 1
      with assms(4) show ?thesis by (simp add: evicts_def)
    next
      case 2
      then have "timeSub t (src_lastSeen s) \<le> rl_IdleTTL (lim_cfg l)"
        using assms(2-4) timeSub_le [of "src_lastSeen s" t] timeSub_nonpos_iff [of t "src_lastSeen s"]
        unfolding wfWindow_def by linarith
      then show ?thesis by (simp add: evicts_def)
    qed
  qed
  with Some assms(1) show ?thesis by (auto simp: remembers_def evictLocked_source)
qed

lemma Acquire_same:
  obtains s' where "lim_sources (snd (Acquire l a now)) (key a) = Some s'"
    "src_blockedTil s' = src_blockedTil (found (evictLocked l now) (key a) now)"
    "src_failures s' = src_failures (found (evictLocked l now) (key a) now)"
    "src_lastSeen s' = now"
proof -
  have "src_lastSeen (found (evictLocked l now) (key a) now) = now"
    by (simp add: found_def getSource_def Let_def)
  then show thesis
    by (intro that [of "the (lim_sources (snd (Acquire l a now)) (key a))"])
      (simp_all add: Acquire_cases takeToken_def)
qed

lemma remembers_Acquire:
  assumes "remembers k t0 l c" "wfWindow (lim_cfg l)"
    and "t0 \<le> t" "t < t0 + rl_FailureWindow (lim_cfg l)"
  shows "remembers k t0 (snd (Acquire l a t)) c"
proof (rule remembers_keep [OF remembers_evict [OF assms]])
  show "lim_cfg (snd (Acquire l a t)) = lim_cfg (evictLocked l t)" by simp
next
  fix s
  assume s: "lim_sources (evictLocked l t) k = Some s"
  obtain s' where "lim_sources (snd (Acquire l a t)) (key a) = Some s'"
    "src_blockedTil s' = src_blockedTil (found (evictLocked l t) (key a) t)"
    "src_failures s' = src_failures (found (evictLocked l t) (key a) t)" "src_lastSeen s' = t"
    by (rule Acquire_same)
  with s assms(3) show "\<exists>s'. lim_sources (snd (Acquire l a t)) k = Some s' \<and>
      src_blockedTil s' = src_blockedTil s \<and> src_failures s' = src_failures s \<and>
      (t0 \<le> src_lastSeen s \<longrightarrow> t0 \<le> src_lastSeen s')"
    by (cases "key a = k") (auto simp: Acquire_other found_Some)
qed

lemma remembers_RecordFailure:
  assumes old: "remembers (key a) t0 l c" and wf: "wfWindow (lim_cfg l)"
    and t: "t0 \<le> t" "t < t0 + rl_FailureWindow (lim_cfg l)"
  shows "remembers (key a) t0 (RecordFailure l a t) (Suc c)"
proof -
  let ?s = "found l (key a) t" and ?W = "rl_FailureWindow (lim_cfg l)"
  let ?fs = "filter (\<lambda>f. t - ?W < f) (src_failures ?s) @ [t]"
  have s: "src_blockedTil ?s = (case lim_sources l (key a) of None \<Rightarrow> 0 | Some s \<Rightarrow> src_blockedTil s)"
    "src_failures ?s = (case lim_sources l (key a) of None \<Rightarrow> [] | Some s \<Rightarrow> src_failures s)"
    "src_lastSeen ?s = t"
    by (simp_all add: found_def getSource_def Let_def split: option.splits)
  have "filter (\<lambda>f. t0 \<le> f) (filter (\<lambda>f. t - ?W < f) (src_failures ?s)) =
      filter (\<lambda>f. t0 \<le> f) (src_failures ?s)"
    using t by (simp add: filter_filter) (rule filter_cong [OF refl], linarith)
  then have len: "length (filter (\<lambda>f. t0 \<le> f) ?fs) =
      Suc (length (filter (\<lambda>f. t0 \<le> f) (src_failures ?s)))"
    using t by simp
  have "t0 + ?W \<le> t + rl_BlockDuration (lim_cfg l)" using t wf by (simp add: wfWindow_def)
  moreover have "t0 + ?W \<le> src_blockedTil ?s \<or>
      c \<le> length (filter (\<lambda>f. t0 \<le> f) (src_failures ?s))"
    using old s by (auto simp: remembers_def split: option.splits)
  ultimately show ?thesis
    using t len s(3) by (auto simp: remembers_def RecordFailure_eq noteFailure_def Let_def)
qed

lemma remembers_step:
  assumes old: "remembers k t0 l c" and wf: "wfWindow (lim_cfg l)"
    and t: "t0 \<le> fst e" "fst e < t0 + rl_FailureWindow (lim_cfg l)" and e: "\<not> successOf k e"
  shows "remembers k t0 (rlStep l e) (of_bool (failureOf k e) + c)"
proof -
  obtain u op where ev: "e = (u, op)" by (cases e)
  note t' = t [unfolded ev fst_conv]
  have other: "remembers k t0 l' c"
    if "lim_sources l' k = lim_sources l k" "lim_cfg l' = lim_cfg l" for l'
    using old unfolding remembers_def that .
  show ?thesis
  proof (cases op)
    case (OpAcquire a)
    with remembers_Acquire [OF old wf t', of a] ev show ?thesis by simp
  next
    case (OpRelease n)
    have "remembers k t0 (release l n) c"
      using release_source [of l n k] by (intro remembers_keep [OF old]) auto
    with OpRelease ev show ?thesis by simp
  next
    case (OpFailure a)
    have "remembers k t0 (RecordFailure l a u) (of_bool (key a = k) + c)"
    proof (cases "key a = k")
      case True
      with remembers_RecordFailure [of a t0 l c u] old wf t' show ?thesis by simp
    next
      case False
      with other [of "RecordFailure l a u"] show ?thesis by (simp add: RecordFailure_eq)
    qed
    with OpFailure ev show ?thesis by simp
  next
    case (OpSuccess a)
    with e ev have "key a \<noteq> k" by simp
    with other [of "RecordSuccess l a u"] have "remembers k t0 (RecordSuccess l a u) c"
      by (simp add: RecordSuccess_eq)
    with OpSuccess ev show ?thesis by simp
  qed
qed

lemma remembers_run:
  assumes "remembers k t0 l c" "wfWindow (lim_cfg l)"
    and "list_all (\<lambda>e. t0 \<le> fst e \<and> fst e < t0 + rl_FailureWindow (lim_cfg l) \<and>
           \<not> successOf k e) es"
  shows "remembers k t0 (rlRun l es) (length (filter (failureOf k) es) + c)"
  using assms
proof (induction es arbitrary: l c)
  case Nil
  then show ?case by simp
next
  case (Cons e es)
  have "remembers k t0 (rlStep l e) (of_bool (failureOf k e) + c)"
    using Cons.prems by (intro remembers_step) simp_all
  from Cons.IH [OF this] Cons.prems(2,3)
  have "remembers k t0 (rlRun (rlStep l e) es)
      (length (filter (failureOf k) es) + (of_bool (failureOf k e) + c))" by simp
  then show ?case by (cases "failureOf k e") (simp_all add: add_ac)
qed

lemma Acquire_blocked:
  assumes "lim_sources l (key a) = Some s" "now < src_blockedTil s"
  shows "fst (Acquire l a now) = (ReasonBlocked, None)"
proof -
  have "lim_sources (evictLocked l now) (key a) = Some s"
    using assms by (simp add: evictLocked_source evicts_def)
  from found_Some [OF this] assms show ?thesis by (simp add: Acquire_cases)
qed

lemma failures_block:
  assumes inv: "rlInv l" and wf: "wfConfig (lim_cfg l)" "wfWindow (lim_cfg l)"
    and es: "list_all (\<lambda>e. t0 \<le> fst e \<and> fst e < t0 + rl_FailureWindow (lim_cfg l) \<and>
           \<not> successOf (key a) e) es"
    and many: "rl_MaxFailures (lim_cfg l) \<le> int (length (filter (failureOf (key a)) es))"
    and now: "now < t0 + rl_FailureWindow (lim_cfg l)"
  shows "fst (Acquire (rlRun l es) a now) = (ReasonBlocked, None)"
proof -
  let ?l = "rlRun l es" and ?n = "length (filter (failureOf (key a)) es)"
  have "1 \<le> rl_MaxFailures (lim_cfg l)" using wf by (simp add: wfConfig_def)
  with many have n: "?n \<noteq> 0" by linarith
  have "remembers (key a) t0 l 0" by (simp add: remembers_def)
  from remembers_run [OF this wf(2) es] n obtain s where s: "lim_sources ?l (key a) = Some s"
    "t0 + rl_FailureWindow (lim_cfg l) \<le> src_blockedTil s \<or>
     ?n \<le> length (filter (\<lambda>f. t0 \<le> f) (src_failures s))"
    by (auto simp: remembers_def split: option.splits)
  have "int (length (src_failures s)) < rl_MaxFailures (lim_cfg l)"
    using rlInv_Some [OF rlInv_run [OF inv wf(1)] s(1)] by (simp add: okSource_def)
  with many length_filter_le [of "\<lambda>f. t0 \<le> f" "src_failures s"] s(2)
  have "t0 + rl_FailureWindow (lim_cfg l) \<le> src_blockedTil s" by linarith
  with now have "now < src_blockedTil s" by (rule order_less_le_trans)
  with s(1) show ?thesis by (rule Acquire_blocked)
qed

subsection \<open>Sources do not disturb each other\<close>

text \<open>The key an event is about: that of its address, or of the slot it gives back.\<close>

fun eventKey :: "Limiter \<Rightarrow> time \<times> rlOp \<Rightarrow> string option" where
  "eventKey l (now, OpAcquire a) = Some (key a)"
| "eventKey l (now, OpRelease n) =
     (if n < length (lim_releases l) then lim_releases l ! n else None)"
| "eventKey l (now, OpFailure a) = Some (key a)"
| "eventKey l (now, OpSuccess a) = Some (key a)"

lemma rlStep_other:
  assumes "eventKey l e \<noteq> Some k"
  shows "lim_sources (rlStep l e) k = lim_sources l k \<or>
    lim_sources (rlStep l e) k = lim_sources (evictLocked l (fst e)) k"
  using assms
proof (cases "(l, e)" rule: rlStep.cases)
  case (2 l' now n)
  with assms show ?thesis
    by (auto simp: release_def Let_def split: option.splits)
qed (auto simp: Acquire_other RecordFailure_eq RecordSuccess_eq)

lemma evict_keeps:
  "lim_sources l k = Some s \<Longrightarrow> \<not> evicts (lim_cfg l) now s \<Longrightarrow>
   lim_sources (evictLocked l now) k = Some s"
  by (simp add: evictLocked_source)

lemma Blocked_other:
  assumes "eventKey l e \<noteq> Some (key b)" "fst e \<le> now"
  shows "Blocked (rlStep l e) b now = Blocked l b now"
  using rlStep_other [OF assms(1)] assms(2)
  by (auto simp: Blocked_def evictLocked_source evicts_def split: option.splits if_splits)

subsection \<open>Properties\<close>

text \<open>The token bucket. Of the connections a source opens between \<open>t0\<close> and \<open>t1\<close>, however
  they interleave with other sources, releases, failures and successes, a new limiter
  admits at most the burst plus what the sustained rate earns in that time, up to the
  floating-point slack of \<open>Burst / 2^49\<close> for each attempt.\<close>

theorem admissions_bounded:
  assumes "wfConfig cfg" "wfIdle cfg" and "sorted (t0 # map fst es)"
    and "last (t0 # map fst es) = t1"
  shows "of_nat (admissions k (NewLimiter cfg) es) \<le>
    rl_Burst cfg + earned cfg (t1 - t0) + of_nat (attemptCount k es) * slack cfg"
  using assms by (rule admissions_bound)

theorem admissions_bounded_witness:
  "of_nat (admissions ''10.0.0.1'' (NewLimiter DefaultConfig)
      (replicate 30 (100, OpAcquire (Some ''10.0.0.1:22'')) @ [(200, OpRelease 3)]))
   \<le> rl_Burst DefaultConfig + earned DefaultConfig (200 - 50) +
      of_nat (attemptCount ''10.0.0.1''
        (replicate 30 (100, OpAcquire (Some ''10.0.0.1:22'')) @ [(200, OpRelease 3)])) *
      slack DefaultConfig"
  by (rule admissions_bounded [OF wfConfig_Default wfIdle_Default]) code_simp+

text \<open>C32: the limiter's records are well typed. After any sequence of operations a source's
  in-flight count is the number of its release functions not yet called, never more than
  \<open>MaxConcurrent\<close>; its bucket holds a 64-bit floating-point number between nothing and the
  burst; and fewer than \<open>MaxFailures\<close> failures are on record, so the record cannot grow.\<close>

theorem inFlight_counts_slots:
  assumes "wfConfig cfg"
  shows "case lim_sources (rlRun (NewLimiter cfg) es) k of
           None \<Rightarrow> openSlots (rlRun (NewLimiter cfg) es) k = 0
         | Some s \<Rightarrow> src_inFlight s = openSlots (rlRun (NewLimiter cfg) es) k \<and>
             0 \<le> src_inFlight s \<and> src_inFlight s \<le> rl_MaxConcurrent cfg \<and>
             0 \<le> src_tokens s \<and> src_tokens s \<le> rl_Burst cfg \<and> f64 (src_tokens s) = src_tokens s \<and>
             int (length (src_failures s)) < rl_MaxFailures cfg"
proof -
  have "rlInv (rlRun (NewLimiter cfg) es)" and "lim_cfg (rlRun (NewLimiter cfg) es) = cfg"
    using rlInv_run [OF rlInv_New, of cfg es] assms by (simp_all add: NewLimiter_def)
  then show ?thesis
    using rlInv_None rlInv_Some by (fastforce simp: okSource_def split: option.splits)
qed

theorem inFlight_counts_slots_witness:
  "lim_sources (rlRun (NewLimiter DefaultConfig) [(5, OpFailure None)]) ''unknown'' \<noteq> None \<and>
   (case lim_sources (rlRun (NewLimiter DefaultConfig) [(5, OpFailure None)]) ''unknown'' of
      None \<Rightarrow> True | Some s \<Rightarrow> src_inFlight s \<le> 8 \<and> length (src_failures s) < 10)"
  using inFlight_counts_slots [OF wfConfig_Default, of "[(5, OpFailure None)]" "''unknown''"]
  by (simp add: RecordFailure_eq key_def) (simp add: DefaultConfig_def)

text \<open>Guessing is stopped. After any history, \<open>MaxFailures\<close> failures of a source within one
  \<open>FailureWindow\<close> without a success, in whatever company, leave the source blocked: for
  the rest of the window every connection of it is refused as blocked.\<close>

theorem guessing_is_blocked:
  assumes "wfConfig cfg" "wfWindow cfg"
    and "list_all (\<lambda>e. t0 \<le> fst e \<and> fst e < t0 + rl_FailureWindow cfg \<and>
           \<not> successOf (key a) e) es"
    and "rl_MaxFailures cfg \<le> int (length (filter (failureOf (key a)) es))"
    and "now < t0 + rl_FailureWindow cfg"
  shows "fst (Acquire (rlRun (NewLimiter cfg) (history @ es)) a now) = (ReasonBlocked, None)"
proof -
  let ?l = "rlRun (NewLimiter cfg) history"
  have cfg: "lim_cfg ?l = cfg" by (simp add: NewLimiter_def)
  have "rlInv ?l" using rlInv_run [OF rlInv_New, of cfg history] assms(1) by (simp add: NewLimiter_def)
  from failures_block [OF this, of t0 a es now] assms cfg show ?thesis
    by (simp add: rlRun_def)
qed

theorem guessing_is_blocked_witness:
  "fst (Acquire (rlRun (NewLimiter DefaultConfig)
      ([(1, OpSuccess (Some ''10.0.0.1:7''))] @ replicate 10 (5, OpFailure (Some ''10.0.0.1:22''))))
      (Some ''10.0.0.1:99'') 6) = (ReasonBlocked, None)"
  by (rule guessing_is_blocked [of DefaultConfig 5 "Some ''10.0.0.1:99''"
        "replicate 10 (5, OpFailure (Some ''10.0.0.1:22''))" 6
        "[(1, OpSuccess (Some ''10.0.0.1:7''))]", OF wfConfig_Default wfWindow_Default])
    code_simp+

text \<open>No shared fate. An operation about one source, at or before \<open>now\<close>, does not change
  whether another source is blocked at \<open>now\<close>: attackers lock out only themselves.\<close>

theorem sources_isolated:
  assumes "eventKey l e \<noteq> Some (key b)" "fst e \<le> now"
  shows "Blocked (rlStep l e) b now = Blocked l b now"
  using assms by (rule Blocked_other)

theorem sources_isolated_witness:
  "Blocked (rlStep (NewLimiter DefaultConfig) (3, OpFailure (Some ''10.0.0.1:22'')))
     (Some ''10.0.0.2:22'') 4 = Blocked (NewLimiter DefaultConfig) (Some ''10.0.0.2:22'') 4"
  by (rule sources_isolated) code_simp+

text \<open>A source is an address without its port, so a client cannot escape its record by
  dialling from another port; this holds of IPv4 and of bracketed IPv6 peers.\<close>

lemma key_drops_port:
  assumes "set h \<inter> {CHR ''['', CHR '']''} = {}"
    and "set p \<inter> {CHR '':'', CHR ''['', CHR '']''} = {}"
  shows "key (Some (JoinHostPort h p)) = h"
  using assms SplitHostPort_plain [of h p] SplitHostPort_bracketed [of h p]
  by (auto simp: key_def JoinHostPort_def)

end
