(* ===== verification/Config_Types.thy ===== *)
theory Config_Types
  imports Go_Strings
begin

text \<open>
  The configuration schema of \<open>internal/config/config.go\<close>: its structs as records with the
  fields in the source's order, the YAML hooks of \<open>Route\<close>, and the look-ups by id, name
  and token. The YAML decoder itself (\<open>gopkg.in/yaml.v3\<close>) is not part of the repository:
  a hook is modelled from the decoded raw struct on.
\<close>

subsection \<open>The schema\<close>

record Listen =
  listen_SSH :: string
  listen_Control :: string

record JumpUser =
  ju_Name :: string
  ju_Keys :: "string list"
  ju_Backends :: "string list"

record Backend =
  be_Aliases :: string
  be_ID :: string
  be_Mode :: string
  be_Token :: string
  be_Username :: string
  be_HostKey :: string
  be_HostKeyFile :: string

record Match =
  match_Username :: string
  match_Hostname :: string

record Route =
  route_Match :: Match
  route_Backend :: string
  route_Username :: string
  route_Hostname :: string
  route_EndUser :: string

text \<open>\<open>AutoUpdateWait\<close> is a pointer to the raw scalar: \<open>None\<close> is the nil pointer.\<close>

record Config =
  cfg_Listen :: Listen
  cfg_PublicHost :: string
  cfg_AutoUpdateWait :: "string option"
  cfg_HostKey :: string
  cfg_TLSCert :: string
  cfg_TLSKey :: string
  cfg_ControlTokens :: "string list"
  cfg_Backends :: "Backend list"
  cfg_Routes :: "Route list"
  cfg_JumpUsers :: "JumpUser list"

subsection \<open>The YAML hooks of a route\<close>

text \<open>What the decoder delivers to \<open>Route.UnmarshalYAML\<close>, and what \<open>MarshalYAML\<close> hands it.\<close>

record rawRoute =
  raw_Match :: Match
  raw_Backend :: string
  raw_Username :: string
  raw_Hostname :: string
  raw_EndUser :: string

record flatRoute =
  flat_Username :: string
  flat_Hostname :: string
  flat_EndUser :: string
  flat_Backend :: string

definition UnmarshalYAML :: "'e + rawRoute \<Rightarrow> 'e + Route" where
  "UnmarshalYAML decoded =
     bindE decoded (\<lambda>raw.
       let r = \<lparr>route_Match = raw_Match raw, route_Backend = raw_Backend raw,
                route_Username = raw_Username raw, route_Hostname = raw_Hostname raw,
                route_EndUser = raw_EndUser raw\<rparr>;
           r = (if route_Username r \<noteq> [] \<and> match_Username (route_Match r) = []
                then r\<lparr>route_Match := (route_Match r)\<lparr>match_Username := route_Username r\<rparr>\<rparr> else r);
           r = (if route_Hostname r \<noteq> [] \<and> match_Hostname (route_Match r) = []
                then r\<lparr>route_Match := (route_Match r)\<lparr>match_Hostname := route_Hostname r\<rparr>\<rparr> else r);
           r = (if route_Username r = [] \<and> match_Username (route_Match r) \<noteq> []
                then r\<lparr>route_Username := match_Username (route_Match r)\<rparr> else r);
           r = (if route_Hostname r = [] \<and> match_Hostname (route_Match r) \<noteq> []
                then r\<lparr>route_Hostname := match_Hostname (route_Match r)\<rparr> else r)
       in Inr r)"

definition MarshalYAML :: "Route \<Rightarrow> flatRoute" where
  "MarshalYAML r =
     (let username = (if route_Username r = [] \<and> match_Username (route_Match r) \<noteq> []
                      then match_Username (route_Match r) else route_Username r);
          hostname = (if route_Hostname r = [] \<and> match_Hostname (route_Match r) \<noteq> []
                      then match_Hostname (route_Match r) else route_Hostname r)
      in \<lparr>flat_Username = username, flat_Hostname = hostname,
          flat_EndUser = route_EndUser r, flat_Backend = route_Backend r\<rparr>)"

text \<open>
  What a decoder reads back from a flat route: the fields it wrote, no \<open>match\<close> block. A
  field left out as empty (\<open>omitempty\<close>) decodes to the empty string again.
\<close>

definition rawOfFlat :: "flatRoute \<Rightarrow> rawRoute" where
  "rawOfFlat f = \<lparr>raw_Match = \<lparr>match_Username = [], match_Hostname = []\<rparr>,
     raw_Backend = flat_Backend f, raw_Username = flat_Username f,
     raw_Hostname = flat_Hostname f, raw_EndUser = flat_EndUser f\<rparr>"

definition DefaultEndUser :: string where
  "DefaultEndUser = ''root''"

definition ResolvedEndUser :: "Route \<Rightarrow> string" where
  "ResolvedEndUser r = (if route_EndUser r \<noteq> [] then route_EndUser r else DefaultEndUser)"

text \<open>The two spellings of a raw route's predicates do not contradict each other.\<close>

definition consistentRaw :: "rawRoute \<Rightarrow> bool" where
  "consistentRaw raw \<longleftrightarrow>
     (raw_Username raw = [] \<or> match_Username (raw_Match raw) = [] \<or>
        raw_Username raw = match_Username (raw_Match raw)) \<and>
     (raw_Hostname raw = [] \<or> match_Hostname (raw_Match raw) = [] \<or>
        raw_Hostname raw = match_Hostname (raw_Match raw))"

lemma UnmarshalYAML_Inl [simp]: "UnmarshalYAML (Inl e) = Inl e"
  by (simp add: UnmarshalYAML_def)

lemma UnmarshalYAML_Inr:
  "UnmarshalYAML (Inr raw) = Inr
     \<lparr>route_Match =
        \<lparr>match_Username = (if match_Username (raw_Match raw) = [] then raw_Username raw
                           else match_Username (raw_Match raw)),
         match_Hostname = (if match_Hostname (raw_Match raw) = [] then raw_Hostname raw
                           else match_Hostname (raw_Match raw))\<rparr>,
      route_Backend = raw_Backend raw,
      route_Username = (if raw_Username raw = [] then match_Username (raw_Match raw)
                        else raw_Username raw),
      route_Hostname = (if raw_Hostname raw = [] then match_Hostname (raw_Match raw)
                        else raw_Hostname raw),
      route_EndUser = raw_EndUser raw\<rparr>"
  by (cases "raw_Match raw") (simp add: UnmarshalYAML_def Let_def)

subsection \<open>Look-ups\<close>

definition BackendByID :: "Config \<Rightarrow> string \<Rightarrow> Backend option" where
  "BackendByID c i = find (\<lambda>b. be_ID b = i) (cfg_Backends c)"

definition BackendByName :: "Config \<Rightarrow> string \<Rightarrow> Backend option" where
  "BackendByName c name =
     (case BackendByID c name of
        Some b \<Rightarrow> Some b
      | None \<Rightarrow> find (\<lambda>b. list_ex (\<lambda>a. a = name) (strFields (be_Aliases b))) (cfg_Backends c))"

definition BackendByToken :: "Config \<Rightarrow> string \<Rightarrow> Backend option" where
  "BackendByToken c token =
     (if token = [] then None
      else find (\<lambda>b. be_Mode b = ''reverse'' \<and> be_Token b = token) (cfg_Backends c))"

lemma BackendByID_SomeD:
  "BackendByID c i = Some b \<Longrightarrow> b \<in> set (cfg_Backends c) \<and> be_ID b = i"
  by (auto simp: BackendByID_def dest: find_SomeD)

lemma BackendByID_None: "BackendByID c i = None \<longleftrightarrow> i \<notin> be_ID ` set (cfg_Backends c)"
  by (auto simp: BackendByID_def find_None_iff)

lemma BackendByName_SomeD:
  "BackendByName c n = Some b \<Longrightarrow>
   b \<in> set (cfg_Backends c) \<and> (be_ID b = n \<or> n \<in> set (strFields (be_Aliases b)))"
  by (auto simp: BackendByName_def list_ex_iff dest: BackendByID_SomeD find_SomeD
      split: option.splits)

lemma BackendByToken_SomeD:
  "BackendByToken c t = Some b \<Longrightarrow>
   t \<noteq> [] \<and> b \<in> set (cfg_Backends c) \<and> be_Mode b = ''reverse'' \<and> be_Token b = t"
  by (auto simp: BackendByToken_def dest: find_SomeD split: if_splits)

lemmas lookup_SomeD = BackendByID_SomeD BackendByName_SomeD BackendByToken_SomeD

text \<open>Writing and reading a decoded route copies its flat predicates over the nested ones.\<close>

lemma decoded_predicates:
  assumes "UnmarshalYAML (Inr raw) = Inr r"
  shows "route_Username r = [] \<longrightarrow> match_Username (route_Match r) = []"
    and "route_Hostname r = [] \<longrightarrow> match_Hostname (route_Match r) = []"
    and "match_Username (route_Match r) = route_Username r \<longleftrightarrow>
      raw_Username raw = [] \<or> match_Username (raw_Match raw) = [] \<or>
        raw_Username raw = match_Username (raw_Match raw)"
    and "match_Hostname (route_Match r) = route_Hostname r \<longleftrightarrow>
      raw_Hostname raw = [] \<or> match_Hostname (raw_Match raw) = [] \<or>
        raw_Hostname raw = match_Hostname (raw_Match raw)"
  unfolding assms [unfolded UnmarshalYAML_Inr sum.inject, symmetric] by auto

lemma reload_route:
  assumes "route_Username r = [] \<longrightarrow> match_Username (route_Match r) = []"
    and "route_Hostname r = [] \<longrightarrow> match_Hostname (route_Match r) = []"
  shows "UnmarshalYAML (Inr (rawOfFlat (MarshalYAML r))) = Inr (r\<lparr>route_Match :=
    \<lparr>match_Username = route_Username r, match_Hostname = route_Hostname r\<rparr>\<rparr>)"
proof -
  have "MarshalYAML r = \<lparr>flat_Username = route_Username r, flat_Hostname = route_Hostname r,
      flat_EndUser = route_EndUser r, flat_Backend = route_Backend r\<rparr>"
    using assms by (simp add: MarshalYAML_def)
  then show ?thesis by (simp add: UnmarshalYAML_Inr rawOfFlat_def)
qed

lemma reload_decoded:
  assumes "UnmarshalYAML (Inr raw) = Inr r"
  shows "UnmarshalYAML (Inr (rawOfFlat (MarshalYAML r))) = Inr r \<longleftrightarrow> consistentRaw raw"
proof -
  note d = decoded_predicates [OF assms]
  obtain m b u h e where r: "r = \<lparr>route_Match = m, route_Backend = b, route_Username = u,
      route_Hostname = h, route_EndUser = e\<rparr>" by (cases r)
  have "UnmarshalYAML (Inr (rawOfFlat (MarshalYAML r))) = Inr r \<longleftrightarrow>
      match_Username (route_Match r) = route_Username r \<and>
      match_Hostname (route_Match r) = route_Hostname r"
    unfolding reload_route [OF d(1,2)] unfolding r by (cases m) auto
  then show ?thesis unfolding consistentRaw_def d(3,4) .
qed

subsection \<open>Properties\<close>

text \<open>A route survives a save and a reload exactly when its flat and its nested predicates
  do not contradict each other. When they do, the router uses the nested one, but the save
  writes only the flat one, and the reloaded route matches other logins.\<close>

theorem route_survives_save:
  assumes "UnmarshalYAML (Inr raw) = Inr r"
  shows "UnmarshalYAML (Inr (rawOfFlat (MarshalYAML r))) = Inr r \<longleftrightarrow> consistentRaw raw"
  using assms by (rule reload_decoded)

theorem route_survives_save_witness:
  "UnmarshalYAML (Inr (rawOfFlat (MarshalYAML
       \<lparr>route_Match = \<lparr>match_Username = ''*'', match_Hostname = ''web1''\<rparr>, route_Backend = ''b1'',
        route_Username = ''*'', route_Hostname = ''web1'', route_EndUser = ''deploy''\<rparr>)))
     = (Inr \<lparr>route_Match = \<lparr>match_Username = ''*'', match_Hostname = ''web1''\<rparr>,
        route_Backend = ''b1'', route_Username = ''*'', route_Hostname = ''web1'',
        route_EndUser = ''deploy''\<rparr> :: string + Route)
   \<longleftrightarrow> consistentRaw \<lparr>raw_Match = \<lparr>match_Username = ''*'', match_Hostname = []\<rparr>,
        raw_Backend = ''b1'', raw_Username = [], raw_Hostname = ''web1'', raw_EndUser = ''deploy''\<rparr>"
  by (rule route_survives_save) (simp add: UnmarshalYAML_Inr)

end
