(* ===== verification/Go_Duration.thy ===== *)
theory Go_Duration
  imports Go_Strings Float64
begin

text \<open>
  \<open>time.ParseDuration\<close>, as \<open>auto_update_wait\<close> is read with it: a sign, then terms of a decimal
  number and a unit. The arithmetic is the library's: unsigned 64-bit integers whose sum
  wraps, and a float64 product for the fraction of a term.
\<close>

subsection \<open>Numbers\<close>

text \<open>\<open>leadingInt\<close> fails as soon as the value passes \<open>2^63\<close>.\<close>

fun leadingInt :: "nat \<Rightarrow> string \<Rightarrow> (nat \<times> string) option" where
  "leadingInt x [] = Some (x, [])"
| "leadingInt x (c # s) =
     (if \<not> isDigit c then Some (x, c # s)
      else if 2 ^ 63 div 10 < x then None
      else if 2 ^ 63 < x * 10 + digitVal c then None
      else leadingInt (x * 10 + digitVal c) s)"

text \<open>\<open>leadingFraction\<close> never fails: digits past the range are read and dropped.\<close>

fun leadingFraction :: "nat \<Rightarrow> rat \<Rightarrow> bool \<Rightarrow> string \<Rightarrow> nat \<times> rat \<times> string" where
  "leadingFraction x scale overflow [] = (x, scale, [])"
| "leadingFraction x scale overflow (c # s) =
     (if \<not> isDigit c then (x, scale, c # s)
      else if overflow then leadingFraction x scale True s
      else if (2 ^ 63 - 1) div 10 < x then leadingFraction x scale True s
      else if 2 ^ 63 < x * 10 + digitVal c then leadingFraction x scale True s
      else leadingFraction (x * 10 + digitVal c) (f64 (scale * 10)) False s)"

definition unitMap :: "string \<Rightarrow> nat option" where
  "unitMap u = map_of
     [(''ns'', 1), (''us'', 1000),
      ([CHR 0xC2, CHR 0xB5, CHR ''s''], 1000), ([CHR 0xCE, CHR 0xBC, CHR ''s''], 1000),
      (''ms'', 1000000), (''s'', 1000000000), (''m'', 60000000000), (''h'', 3600000000000)] u"

definition isNumByte :: "char \<Rightarrow> bool" where
  "isNumByte c \<longleftrightarrow> c = CHR ''.'' \<or> isDigit c"

subsection \<open>Terms\<close>

text \<open>One round of the loop: the nanoseconds of the next term and what follows it.\<close>

definition nextTerm :: "string \<Rightarrow> (nat \<times> string) option" where
  "nextTerm s =
     (if s = [] \<or> \<not> isNumByte (hd s) then None
      else case leadingInt 0 s of
        None \<Rightarrow> None
      | Some (v, s1) \<Rightarrow>
          (let pre = (length s1 \<noteq> length s);
               (f, scale, s2) = (if s1 \<noteq> [] \<and> hd s1 = CHR ''.''
                                 then leadingFraction 0 1 False (tl s1) else (0, 1, s1));
               post = (s1 \<noteq> [] \<and> hd s1 = CHR ''.'' \<and> length s2 \<noteq> length (tl s1));
               u = takeWhile (\<lambda>c. \<not> isNumByte c) s2;
               rest = dropWhile (\<lambda>c. \<not> isNumByte c) s2
           in
           if \<not> pre \<and> \<not> post then None
           else if u = [] then None
           else case unitMap u of
             None \<Rightarrow> None
           | Some unit \<Rightarrow>
               if 2 ^ 63 div unit < v then None
               else
                 let v = v * unit;
                     v' = (if 0 < f
                           then (v + nat \<lfloor>f64 (f64 (of_nat f) * f64 (of_nat unit / scale))\<rfloor>) mod 2 ^ 64
                           else v)
                 in if 0 < f \<and> 2 ^ 63 < v' then None else Some (v', rest)))"

lemma leadingInt_length: "leadingInt x s = Some (y, r) \<Longrightarrow> length r \<le> length s"
  by (induction x s rule: leadingInt.induct) (auto split: if_splits)

lemma leadingFraction_length: "leadingFraction x sc ov s = (y, sc', r) \<Longrightarrow> length r \<le> length s"
  by (induction x sc ov s rule: leadingFraction.induct) (auto split: if_splits)

lemma dropWhile_shorter: "takeWhile P s \<noteq> [] \<Longrightarrow> length (dropWhile P s) < length s"
  by (cases s) (auto simp: le_imp_less_Suc length_dropWhile_le split: if_splits)

lemma nextTerm_length: "nextTerm s = Some (v, r) \<Longrightarrow> length r < length s"
proof -
  assume n: "nextTerm s = Some (v, r)"
  then obtain w s1 where i: "leadingInt 0 s = Some (w, s1)"
    by (auto simp: nextTerm_def split: if_splits option.splits)
  obtain f scale s2 where f: "(if s1 \<noteq> [] \<and> hd s1 = CHR ''.''
      then leadingFraction 0 1 False (tl s1) else (0, 1, s1)) = (f, scale, s2)"
    by (rule prod_cases3)
  have "length s2 \<le> length s1"
    using f leadingFraction_length [of 0 1 False "tl s1" f scale s2] by (cases s1) (auto split: if_splits)
  moreover have "takeWhile (\<lambda>c. \<not> isNumByte c) s2 \<noteq> []"
    and "r = dropWhile (\<lambda>c. \<not> isNumByte c) s2"
    using n by (auto simp: nextTerm_def i f Let_def split: if_splits option.splits)
  ultimately show ?thesis
    using dropWhile_shorter [of "\<lambda>c. \<not> isNumByte c" s2] leadingInt_length [OF i] by simp
qed

function durationTerms :: "nat \<Rightarrow> string \<Rightarrow> nat option" where
  "durationTerms d s =
     (if s = [] then Some d
      else case nextTerm s of
        None \<Rightarrow> None
      | Some (v, rest) \<Rightarrow>
          if 2 ^ 63 < (d + v) mod 2 ^ 64 then None
          else durationTerms ((d + v) mod 2 ^ 64) rest)"
  by pat_completeness auto
termination
  by (relation "measure (\<lambda>(d, s). length s)") (auto dest: nextTerm_length)

declare durationTerms.simps [simp del]

definition ParseDuration :: "string \<Rightarrow> duration option" where
  "ParseDuration s =
     (let neg = hasPrefix s ''-'';
          s = (if neg \<or> hasPrefix s ''+'' then tl s else s)
      in
      if s = ''0'' then Some 0
      else if s = [] then None
      else case durationTerms 0 s of
        None \<Rightarrow> None
      | Some d \<Rightarrow>
          if neg then Some (- int d)
          else if 2 ^ 63 - 1 < d then None
          else Some (int d))"

subsection \<open>Range, and the plain spellings\<close>

lemma durationTerms_bound: "d \<le> 2 ^ 63 \<Longrightarrow> durationTerms d s = Some e \<Longrightarrow> e \<le> 2 ^ 63"
proof (induction d s rule: durationTerms.induct)
  case (1 d s)
  from "1.prems" show ?case
    by (subst (asm) durationTerms.simps)
      (auto split: if_splits option.splits dest: "1.IH")
qed

lemma ParseDuration_bounds:
  "ParseDuration s = Some d \<Longrightarrow> min_duration \<le> d \<and> d \<le> max_duration"
  using durationTerms_bound [of 0]
  by (fastforce simp: ParseDuration_def Let_def min_duration_def max_duration_def
      split: if_splits option.splits)

lemma isDigit_isNumByte: "isDigit c \<Longrightarrow> isNumByte c"
  by (simp add: isNumByte_def)

lemma leadingInt_digits:
  assumes "list_all isDigit ds" "r = [] \<or> \<not> isDigit (hd r)"
    and "foldl (\<lambda>n c. 10 * n + digitVal c) x ds \<le> 2 ^ 63"
  shows "leadingInt x (ds @ r) = Some (foldl (\<lambda>n c. 10 * n + digitVal c) x ds, r)"
  using assms
proof (induction ds arbitrary: x)
  case Nil
  then show ?case by (cases r) auto
next
  case (Cons c ds)
  have "10 * x + digitVal c \<le> foldl (\<lambda>n c. 10 * n + digitVal c) (10 * x + digitVal c) ds"
    by (rule foldl_dec_mono)
  also have "\<dots> \<le> 2 ^ 63" using Cons.prems by simp
  finally have le: "10 * x + digitVal c \<le> 2 ^ 63" .
  then have "x \<le> 2 ^ 63 div 10" by simp
  with le Cons show ?case by (simp add: mult.commute [of x])
qed

text \<open>A whole number of one unit, such as \<open>48h\<close>.\<close>

lemma nextTerm_plain:
  assumes "ds \<noteq> []" "list_all isDigit ds" and "unitMap u = Some n" "u \<noteq> []"
    and "list_all (\<lambda>c. \<not> isNumByte c) u" and "0 < n" "decVal ds * n \<le> 2 ^ 63"
  shows "nextTerm (ds @ u) = Some (decVal ds * n, [])"
proof -
  have hd: "\<not> isDigit (hd u)" "hd u \<noteq> CHR ''.''"
    using assms(4,5) by (cases u; auto simp: isNumByte_def)+
  have "decVal ds \<le> decVal ds * n" using assms(6) by simp
  with assms(7) have "decVal ds \<le> 2 ^ 63" by linarith
  then have int: "leadingInt 0 (ds @ u) = Some (decVal ds, u)"
    using leadingInt_digits [of ds u 0] assms(2) hd by (simp add: decVal_def)
  have u: "takeWhile (\<lambda>c. \<not> isNumByte c) u = u" "dropWhile (\<lambda>c. \<not> isNumByte c) u = []"
    using assms(5) by (auto simp: takeWhile_eq_all_conv list_all_iff)
  have "isNumByte (hd (ds @ u))" using assms(1,2) by (cases ds) (auto simp: isDigit_isNumByte)
  moreover have "\<not> 2 ^ 63 div n < decVal ds"
    using assms(6,7) by (simp add: not_less less_eq_div_iff_mult_less_eq)
  ultimately show ?thesis
    using assms hd by (simp add: nextTerm_def int Let_def u)
qed

lemma ParseDuration_plain:
  assumes "ds \<noteq> []" "list_all isDigit ds" and "unitMap u = Some n" "u \<noteq> []"
    and "list_all (\<lambda>c. \<not> isNumByte c) u" and "0 < n" "int (decVal ds * n) \<le> max_duration"
  shows "ParseDuration (ds @ u) = Some (int (decVal ds * n))"
proof -
  have "int (decVal ds * n) \<le> int (2 ^ 63 - 1)" using assms(7) by (simp add: max_duration_def)
  then have le: "decVal ds * n \<le> 2 ^ 63 - 1" by (simp only: of_nat_le_iff)
  then have "nextTerm (ds @ u) = Some (decVal ds * n, [])" using assms by (intro nextTerm_plain) auto
  then have terms: "durationTerms 0 (ds @ u) = Some (decVal ds * n)"
    using assms(1) le by (simp add: durationTerms.simps [of _ "ds @ u"] durationTerms.simps [of _ "[]"])
  obtain c ds' where ds: "ds = c # ds'" using assms(1) by (cases ds) auto
  with assms(2) have "c \<noteq> CHR ''-''" "c \<noteq> CHR ''+''" by (auto simp: isDigit_def)
  moreover have "ds @ u \<noteq> ''0''"
    using ds assms(4) by (cases ds') auto
  ultimately show ?thesis
    using ds le terms by (auto simp: ParseDuration_def hasPrefix_def Let_def)
qed

end
