(* ===== verification/Routing.thy ===== *)
theory Routing
  imports Config_Types
begin

text \<open>
  \<open>internal/routing/routing.go\<close>: the glob matcher with its backtracking loop, the parsing
  of a login string, and first-match resolution over the configured routes. The matcher is
  proved to decide the declarative relation \<open>glob\<close>; the resolver is proved once for any
  matcher in the locale \<open>first_match\<close> and instantiated with the program's own.
\<close>

subsection \<open>What a pattern means\<close>

inductive glob :: "string \<Rightarrow> string \<Rightarrow> bool" where
  glob_Nil: "glob [] []"
| glob_char: "c \<noteq> CHR ''*'' \<Longrightarrow> glob p v \<Longrightarrow> glob (c # p) (c # v)"
| glob_star: "glob p v \<Longrightarrow> glob (CHR ''*'' # p) (u @ v)"

inductive_simps glob_Nil_iff [simp]: "glob [] v"
inductive_simps glob_Cons_iff: "glob (c # p) v"
inductive_cases glob_NilE: "glob p []"

lemma glob_star_iff:
  "glob (CHR ''*'' # p) v \<longleftrightarrow> (\<exists>k\<le>length v. glob p (drop k v))"
proof
  assume "glob (CHR ''*'' # p) v"
  then obtain u w where "v = u @ w" "glob p w" by (auto simp: glob_Cons_iff)
  then show "\<exists>k\<le>length v. glob p (drop k v)" by (intro exI [of _ "length u"]) simp
next
  assume "\<exists>k\<le>length v. glob p (drop k v)"
  then obtain k where "glob p (drop k v)" by blast
  then have "glob (CHR ''*'' # p) (take k v @ drop k v)" by (rule glob_star)
  then show "glob (CHR ''*'' # p) v" by simp
qed

lemma glob_char_iff:
  "c \<noteq> CHR ''*'' \<Longrightarrow> glob (c # p) v \<longleftrightarrow> (\<exists>w. v = c # w \<and> glob p w)"
  by (auto simp: glob_Cons_iff)

lemma glob_stars: "list_all (\<lambda>c. c = CHR ''*'') p \<Longrightarrow> glob p []"
  by (induction p) (auto intro: glob_Nil dest: glob_star [where u = "[]"])

lemma glob_empty_iff: "glob p [] \<longleftrightarrow> list_all (\<lambda>c. c = CHR ''*'') p"
proof
  show "glob p [] \<Longrightarrow> list_all (\<lambda>c. c = CHR ''*'') p"
    by (induction p "[] :: string" rule: glob.induct) auto
qed (rule glob_stars)

text \<open>A literal prefix of the pattern consumes as many bytes of the value.\<close>

lemma glob_literal_prefix:
  "CHR ''*'' \<notin> set l \<Longrightarrow> glob (l @ p) v \<Longrightarrow>
   length l \<le> length v \<and> take (length l) v = l \<and> glob p (drop (length l) v)"
  by (induction l arbitrary: v) (auto simp: glob_char_iff)

subsection \<open>The matcher\<close>

text \<open>
  The main loop of \<open>globMatch\<close> on the indices \<open>p\<close> and \<open>v\<close>, with the position of the last
  star and the mark it was tried at; -1 as in the source when no star was met. \<open>None\<close> is
  the early \<open>return false\<close>, \<open>Some p\<close> the pattern index after the loop.
\<close>

function globLoop :: "string \<Rightarrow> string \<Rightarrow> nat \<Rightarrow> nat \<Rightarrow> int \<Rightarrow> int \<Rightarrow> nat option" where
  "globLoop pat val p v star mark =
     (if v < length val then
        if p < length pat \<and> pat ! p = CHR ''*'' then
          globLoop pat val (Suc p) v (int p) (int v)
        else if p < length pat \<and> pat ! p = val ! v then
          globLoop pat val (Suc p) (Suc v) star mark
        else if 0 \<le> star then
          globLoop pat val (nat (star + 1)) (nat (mark + 1)) star (mark + 1)
        else None
      else Some p)"
  by pat_completeness auto
termination
  by (relation "measures
       [\<lambda>(pat, val, p, v, star, mark). if star < int p \<and> mark \<le> int v then 0 else 1,
        \<lambda>(pat, val, p, v, star, mark). nat (int (length pat) - star),
        \<lambda>(pat, val, p, v, star, mark). nat (int (length val) - mark),
        \<lambda>(pat, val, p, v, star, mark). length val - v]") auto

declare globLoop.simps [simp del]

text \<open>The trailing loop: skip the stars that are left.\<close>

function skipStars :: "string \<Rightarrow> nat \<Rightarrow> nat" where
  "skipStars pat p =
     (if p < length pat \<and> pat ! p = CHR ''*'' then skipStars pat (Suc p) else p)"
  by pat_completeness auto
termination
  by (relation "measure (\<lambda>(pat, p). length pat - p)") auto

declare skipStars.simps [simp del]

definition globMatch :: "string \<Rightarrow> string \<Rightarrow> bool" where
  "globMatch pat val =
     (case globLoop pat val 0 0 (-1) (-1) of
        None \<Rightarrow> False
      | Some p \<Rightarrow> skipStars pat p = length pat)"

definition matchPattern :: "string \<Rightarrow> string \<Rightarrow> bool" where
  "matchPattern pat val = globMatch pat val"

definition normalize :: "string \<Rightarrow> string" where
  "normalize p = (if p = [] then ''*'' else p)"

lemma skipStars_iff:
  "p \<le> length pat \<Longrightarrow>
   skipStars pat p = length pat \<longleftrightarrow> list_all (\<lambda>c. c = CHR ''*'') (drop p pat)"
proof (induction pat p rule: skipStars.induct)
  case (1 pat p)
  show ?case
  proof (cases "p < length pat")
    case True
    then have "drop p pat = pat ! p # drop (Suc p) pat" by (rule drop_eq_Cons)
    with True "1.IH" show ?thesis by (simp add: skipStars.simps [of pat p])
  next
    case False
    with "1.prems" have "p = length pat" by simp
    then show ?thesis by (simp add: skipStars.simps [of pat "length pat"])
  qed
qed

text \<open>
  The invariant of the loop: once a star was met, the pattern between it and the current
  position is literal and has consumed the value since the mark.
\<close>

definition globInv :: "string \<Rightarrow> string \<Rightarrow> nat \<Rightarrow> nat \<Rightarrow> int \<Rightarrow> int \<Rightarrow> bool" where
  "globInv pat val p v star mark \<longleftrightarrow>
     p \<le> length pat \<and> v \<le> length val \<and>
     (0 \<le> star \<longrightarrow>
        0 \<le> mark \<and> mark \<le> int v \<and> int p = star + 1 + (int v - mark) \<and>
        CHR ''*'' \<notin> set (take (p - nat (star + 1)) (drop (nat (star + 1)) pat)))"

text \<open>What is still to be found: a match here, or with the last star taking more bytes.\<close>

definition globRest :: "string \<Rightarrow> string \<Rightarrow> nat \<Rightarrow> nat \<Rightarrow> int \<Rightarrow> int \<Rightarrow> bool" where
  "globRest pat val p v star mark \<longleftrightarrow>
     glob (drop p pat) (drop v val) \<or>
     (0 \<le> star \<and> (\<exists>k\<le>length val. mark < int k \<and> glob (drop (nat (star + 1)) pat) (drop k val)))"

text \<open>An older star needs no retry: its literal tail leads to the current position later on.\<close>

lemma globRest_older_star:
  assumes inv: "globInv pat val p v star mark" and star: "0 \<le> star"
    and k: "k \<le> length val" "mark < int k"
    and g: "glob (drop (nat (star + 1)) pat) (drop k val)"
  shows "k + (v - nat mark) \<le> length val \<and> glob (drop p pat) (drop (k + (v - nat mark)) val)"
proof -
  let ?s = "nat (star + 1)"
  let ?l = "take (p - ?s) (drop ?s pat)"
  have p: "p = ?s + (v - nat mark)" and pl: "p \<le> length pat" and nostar: "CHR ''*'' \<notin> set ?l"
    using inv star by (auto simp: globInv_def)
  then have split: "drop ?s pat = ?l @ drop p pat"
    by (metis add_diff_cancel_left' append_take_drop_id drop_drop add.commute)
  have len: "length ?l = v - nat mark" using p pl by (simp add: min_def) arith
  have "length ?l \<le> length (drop k val) \<and> glob (drop p pat) (drop (length ?l) (drop k val))"
    using glob_literal_prefix [of ?l "drop p pat" "drop k val"] g split nostar by simp
  then have "length ?l \<le> length val - k" "glob (drop p pat) (drop (k + length ?l) val)"
    by (simp_all add: add.commute)
  with len k(1) show ?thesis by (simp add: le_diff_conv2 add.commute)
qed

lemma globRest_at_end:
  assumes inv: "globInv pat val p v star mark" and v: "\<not> v < length val"
  shows "globRest pat val p v star mark \<longleftrightarrow> skipStars pat p = length pat"
proof -
  have p: "p \<le> length pat" and vl: "v = length val" using inv v by (auto simp: globInv_def)
  have "\<not> (0 \<le> star \<and> (\<exists>k\<le>length val. mark < int k \<and> glob (drop (nat (star + 1)) pat) (drop k val)))"
  proof
    assume "0 \<le> star \<and> (\<exists>k\<le>length val. mark < int k \<and> glob (drop (nat (star + 1)) pat) (drop k val))"
    then obtain k where star: "0 \<le> star" and k: "k \<le> length val" "mark < int k"
      and g: "glob (drop (nat (star + 1)) pat) (drop k val)" by blast
    have "k + (v - nat mark) \<le> length val"
      using globRest_older_star [OF inv star k g] by simp
    with vl k inv star show False by (auto simp: globInv_def)
  qed
  then have "globRest pat val p v star mark \<longleftrightarrow> glob (drop p pat) (drop v val)"
    unfolding globRest_def by blast
  with vl p show ?thesis by (simp add: skipStars_iff glob_empty_iff)
qed

lemma globRest_star_step:
  assumes inv: "globInv pat val p v star mark" and v: "v < length val"
    and p: "p < length pat" "pat ! p = CHR ''*''"
  shows "globInv pat val (Suc p) v (int p) (int v)"
    and "globRest pat val (Suc p) v (int p) (int v) \<longleftrightarrow> globRest pat val p v star mark"
proof -
  show "globInv pat val (Suc p) v (int p) (int v)"
    using inv p v by (simp add: globInv_def nat_add_distrib)
  have here: "drop p pat = CHR ''*'' # drop (Suc p) pat" using p drop_eq_Cons by metis
  have eq: "nat (int p + 1) = Suc p" by simp
  have new: "globRest pat val (Suc p) v (int p) (int v) \<longleftrightarrow>
      (\<exists>k\<le>length val. v \<le> k \<and> glob (drop (Suc p) pat) (drop k val))"
    unfolding globRest_def eq using v by (auto simp: le_less)
  have "glob (drop p pat) (drop v val) \<longleftrightarrow>
      (\<exists>k\<le>length val. v \<le> k \<and> glob (drop (Suc p) pat) (drop k val))"
    unfolding here glob_star_iff
  proof
    assume "\<exists>k\<le>length (drop v val). glob (drop (Suc p) pat) (drop k (drop v val))"
    then obtain k where "k \<le> length val - v" "glob (drop (Suc p) pat) (drop (k + v) val)" by auto
    with v show "\<exists>k\<le>length val. v \<le> k \<and> glob (drop (Suc p) pat) (drop k val)"
      by (intro exI [of _ "k + v"]) auto
  next
    assume "\<exists>k\<le>length val. v \<le> k \<and> glob (drop (Suc p) pat) (drop k val)"
    then obtain k where "k \<le> length val" "v \<le> k" "glob (drop (Suc p) pat) (drop k val)" by blast
    then show "\<exists>k\<le>length (drop v val). glob (drop (Suc p) pat) (drop k (drop v val))"
      by (intro exI [of _ "k - v"]) auto
  qed
  moreover have "glob (drop p pat) (drop v val)"
    if "0 \<le> star" "k \<le> length val" "mark < int k"
      "glob (drop (nat (star + 1)) pat) (drop k val)" for k
  proof -
    let ?k = "k + (v - nat mark)"
    have "?k \<le> length val" "glob (drop p pat) (drop ?k val)"
      using globRest_older_star [OF inv that] by auto
    moreover have "v \<le> ?k" using that inv by (auto simp: globInv_def)
    ultimately have "glob (CHR ''*'' # drop (Suc p) pat) (take (?k - v) (drop v val) @ drop ?k val)"
      using here by (metis append_assoc glob_star glob_star_iff append_take_drop_id)
    moreover have "take (?k - v) (drop v val) @ drop ?k val = drop v val"
      using \<open>v \<le> ?k\<close> by (metis append_take_drop_id drop_drop le_add_diff_inverse2)
    ultimately show ?thesis using here by simp
  qed
  ultimately show "globRest pat val (Suc p) v (int p) (int v) \<longleftrightarrow> globRest pat val p v star mark"
    unfolding new by (auto simp: globRest_def)
qed

lemma globRest_char_step:
  assumes inv: "globInv pat val p v star mark" and v: "v < length val"
    and p: "p < length pat" "pat ! p \<noteq> CHR ''*''" "pat ! p = val ! v"
  shows "globInv pat val (Suc p) (Suc v) star mark"
    and "globRest pat val (Suc p) (Suc v) star mark \<longleftrightarrow> globRest pat val p v star mark"
proof -
  show "globInv pat val (Suc p) (Suc v) star mark"
  proof (cases "0 \<le> star")
    case True
    let ?s = "nat (star + 1)"
    have s: "?s \<le> p" using inv True by (auto simp: globInv_def)
    then have "take (Suc p - ?s) (drop ?s pat) = take (p - ?s) (drop ?s pat) @ [pat ! p]"
      using p(1) by (simp add: Suc_diff_le take_Suc_conv_app_nth)
    with inv p v True show ?thesis by (simp add: globInv_def)
  next
    case False
    with inv p v show ?thesis by (simp add: globInv_def)
  qed
  have "drop p pat = pat ! p # drop (Suc p) pat" "drop v val = val ! v # drop (Suc v) val"
    by (rule drop_eq_Cons [OF p(1)], rule drop_eq_Cons [OF v])
  with p show "globRest pat val (Suc p) (Suc v) star mark \<longleftrightarrow> globRest pat val p v star mark"
    by (simp add: globRest_def glob_char_iff)
qed

lemma globRest_mismatch:
  assumes v: "v < length val" and p: "p \<le> length pat"
    and no: "\<not> (p < length pat \<and> pat ! p = CHR ''*'')" "\<not> (p < length pat \<and> pat ! p = val ! v)"
  shows "\<not> glob (drop p pat) (drop v val)"
proof (cases "p < length pat")
  case True
  then have "drop p pat = pat ! p # drop (Suc p) pat" "drop v val = val ! v # drop (Suc v) val"
    using v by (auto intro: drop_eq_Cons)
  with True no show ?thesis by (simp add: glob_char_iff)
next
  case False
  with p v show ?thesis by simp
qed

lemma globRest_retry_step:
  assumes inv: "globInv pat val p v star mark" and v: "v < length val" and star: "0 \<le> star"
    and no: "\<not> glob (drop p pat) (drop v val)"
  shows "globInv pat val (nat (star + 1)) (nat (mark + 1)) star (mark + 1)"
    and "globRest pat val (nat (star + 1)) (nat (mark + 1)) star (mark + 1) \<longleftrightarrow>
         globRest pat val p v star mark"
proof -
  have m: "0 \<le> mark" "mark < int (length val)" using inv v star by (auto simp: globInv_def)
  show "globInv pat val (nat (star + 1)) (nat (mark + 1)) star (mark + 1)"
    using inv star v m by (auto simp: globInv_def)
  have "(\<exists>k\<le>length val. mark < int k \<and> P k) \<longleftrightarrow>
      P (nat (mark + 1)) \<or> (\<exists>k\<le>length val. mark + 1 < int k \<and> P k)" for P
  proof
    assume "\<exists>k\<le>length val. mark < int k \<and> P k"
    then obtain k where k: "k \<le> length val" "mark < int k" "P k" by blast
    then have "k = nat (mark + 1) \<or> mark + 1 < int k" using m by linarith
    with k show "P (nat (mark + 1)) \<or> (\<exists>k\<le>length val. mark + 1 < int k \<and> P k)" by blast
  next
    assume "P (nat (mark + 1)) \<or> (\<exists>k\<le>length val. mark + 1 < int k \<and> P k)"
    moreover have "nat (mark + 1) \<le> length val" "mark < int (nat (mark + 1))" using m by auto
    ultimately show "\<exists>k\<le>length val. mark < int k \<and> P k" by force
  qed
  with star no show "globRest pat val (nat (star + 1)) (nat (mark + 1)) star (mark + 1) \<longleftrightarrow>
      globRest pat val p v star mark"
    by (simp add: globRest_def)
qed

lemma globLoop_correct:
  "globInv pat val p v star mark \<Longrightarrow>
   (case globLoop pat val p v star mark of
      None \<Rightarrow> False | Some q \<Rightarrow> skipStars pat q = length pat)
   \<longleftrightarrow> globRest pat val p v star mark"
proof (induction pat val p v star mark rule: globLoop.induct)
  case (1 pat val p v star mark)
  note inv = "1.prems" and unfold = globLoop.simps [of pat val p v star mark]
  show ?case
  proof (cases "v < length val")
    case v: True
    consider (star) "p < length pat" "pat ! p = CHR ''*''"
      | (char) "p < length pat" "pat ! p \<noteq> CHR ''*''" "pat ! p = val ! v"
      | (mismatch) "\<not> (p < length pat \<and> pat ! p = CHR ''*'')" "\<not> (p < length pat \<and> pat ! p = val ! v)"
      by blast
    then show ?thesis
    proof cases
      case star
      with v "1.IH"(1) globRest_star_step [OF inv v star] show ?thesis by (simp add: unfold)
    next
      case char
      with v "1.IH"(2) globRest_char_step [OF inv v char] show ?thesis by (simp add: unfold)
    next
      case mismatch
      have no: "\<not> glob (drop p pat) (drop v val)"
        using inv v mismatch by (intro globRest_mismatch) (auto simp: globInv_def)
      show ?thesis
      proof (cases "0 \<le> star")
        case True
        with v mismatch "1.IH"(3) globRest_retry_step [OF inv v True no] show ?thesis
          by (auto simp: unfold)
      next
        case False
        with v mismatch no show ?thesis by (auto simp: unfold globRest_def)
      qed
    qed
  next
    case False
    with globRest_at_end [OF inv] show ?thesis by (simp add: unfold)
  qed
qed

lemma globMatch_iff_glob: "globMatch pat val \<longleftrightarrow> glob pat val"
proof -
  have "globInv pat val 0 0 (-1) (-1)" by (simp add: globInv_def)
  from globLoop_correct [OF this] show ?thesis by (simp add: globMatch_def globRest_def)
qed

subsection \<open>Requests\<close>

record Request =
  req_Username :: string
  req_Hostname :: string

definition ParseRequest :: "string \<Rightarrow> Request" where
  "ParseRequest user =
     (case lastIndex user CHR ''@'' of
        Some i \<Rightarrow> \<lparr>req_Username = take i user, req_Hostname = drop (Suc i) user\<rparr>
      | None \<Rightarrow> \<lparr>req_Username = user, req_Hostname = []\<rparr>)"

lemma ParseRequest_at:
  "CHR ''@'' \<notin> set h \<Longrightarrow>
   ParseRequest (u @ CHR ''@'' # h) = \<lparr>req_Username = u, req_Hostname = h\<rparr>"
  by (simp add: ParseRequest_def lastIndex_append_Cons)

lemma ParseRequest_plain:
  "CHR ''@'' \<notin> set u \<Longrightarrow> ParseRequest u = \<lparr>req_Username = u, req_Hostname = []\<rparr>"
  by (simp add: ParseRequest_def lastIndex_None [THEN iffD2])

subsection \<open>The router\<close>

record rule =
  rule_usernamePattern :: string
  rule_hostnamePattern :: string
  rule_route :: Route

record Router =
  router_rules :: "rule list"

definition ruleOf :: "Route \<Rightarrow> rule" where
  "ruleOf rt =
     \<lparr>rule_usernamePattern = normalize (match_Username (route_Match rt)),
      rule_hostnamePattern = normalize (match_Hostname (route_Match rt)),
      rule_route = rt\<rparr>"

definition NewRouter :: "Route list \<Rightarrow> Router" where
  "NewRouter routes =
     fold (\<lambda>rt r. r\<lparr>router_rules := router_rules r @ [ruleOf rt]\<rparr>) routes \<lparr>router_rules = []\<rparr>"

primrec resolveRules :: "rule list \<Rightarrow> Request \<Rightarrow> Route option" where
  "resolveRules [] req = None"
| "resolveRules (rl # rls) req =
     (if matchPattern (rule_usernamePattern rl) (req_Username req) \<and>
         matchPattern (rule_hostnamePattern rl) (req_Hostname req)
      then Some (rule_route rl) else resolveRules rls req)"

definition ResolveRoute :: "Router \<Rightarrow> Request \<Rightarrow> Route option" where
  "ResolveRoute r req = resolveRules (router_rules r) req"

definition Resolve :: "Router \<Rightarrow> Request \<Rightarrow> string option" where
  "Resolve r req =
     (case ResolveRoute r req of None \<Rightarrow> None | Some rt \<Rightarrow> Some (route_Backend rt))"

lemma router_rules_NewRouter: "router_rules (NewRouter routes) = map ruleOf routes"
proof -
  have "router_rules (fold (\<lambda>rt r. r\<lparr>router_rules := router_rules r @ [ruleOf rt]\<rparr>) routes r) =
      router_rules r @ map ruleOf routes" for r :: Router
    by (induction routes arbitrary: r) auto
  then show ?thesis by (simp add: NewRouter_def)
qed

subsection \<open>First-match resolution\<close>

text \<open>
  What a resolver needs of its matcher: the wildcard matches everything and a pattern with
  no star only itself. \<open>resolve\<close> tries the rules in order.
\<close>

locale first_match =
  fixes matches :: "string \<Rightarrow> string \<Rightarrow> bool"
    and resolve :: "rule list \<Rightarrow> Request \<Rightarrow> Route option"
  assumes matches_any: "matches ''*'' v"
    and matches_literal: "CHR ''*'' \<notin> set p \<Longrightarrow> matches p v \<longleftrightarrow> p = v"
    and resolve_Nil: "resolve [] req = None"
    and resolve_Cons: "resolve (rl # rls) req =
      (if matches (rule_usernamePattern rl) (req_Username req) \<and>
          matches (rule_hostnamePattern rl) (req_Hostname req)
       then Some (rule_route rl) else resolve rls req)"
begin

lemma resolve_append:
  "resolve (xs @ ys) req = (case resolve xs req of None \<Rightarrow> resolve ys req | Some r \<Rightarrow> Some r)"
  by (induction xs) (auto simp: resolve_Nil resolve_Cons)

lemma resolve_None_iff:
  "resolve rls req = None \<longleftrightarrow>
   (\<forall>rl\<in>set rls. \<not> (matches (rule_usernamePattern rl) (req_Username req) \<and>
                    matches (rule_hostnamePattern rl) (req_Hostname req)))"
  by (induction rls) (auto simp: resolve_Nil resolve_Cons)

lemma resolve_Some_iff:
  "resolve rls req = Some r \<longleftrightarrow>
   (\<exists>xs rl ys. rls = xs @ rl # ys \<and> rule_route rl = r \<and> resolve xs req = None \<and>
      matches (rule_usernamePattern rl) (req_Username req) \<and>
      matches (rule_hostnamePattern rl) (req_Hostname req))"
  (is "_ \<longleftrightarrow> ?split rls")
proof
  show "resolve rls req = Some r \<Longrightarrow> ?split rls"
  proof (induction rls)
    case Nil
    then show ?case by (simp add: resolve_Nil)
  next
    case (Cons a rls)
    show ?case
    proof (cases "resolve [a] req")
      case None
      with Cons obtain xs rl ys where split: "rls = xs @ rl # ys" "rule_route rl = r"
        "resolve xs req = None" "matches (rule_usernamePattern rl) (req_Username req)"
        "matches (rule_hostnamePattern rl) (req_Hostname req)"
        by (auto simp: resolve_Cons resolve_Nil split: if_splits)
      with None have "resolve (a # xs) req = None"
        by (auto simp: resolve_Cons resolve_Nil split: if_splits)
      with split show ?thesis by (metis append_Cons)
    next
      case (Some r')
      with Cons.prems show ?thesis
        by (intro exI [of _ "[]"] exI [of _ a] exI [of _ rls])
          (auto simp: resolve_Cons resolve_Nil split: if_splits)
    qed
  qed
  show "?split rls \<Longrightarrow> resolve rls req = Some r"
    by (auto simp: resolve_append resolve_Cons)
qed

lemma resolve_catch_all:
  assumes "rl \<in> set rls" "rule_usernamePattern rl = ''*''" "rule_hostnamePattern rl = ''*''"
  shows "resolve rls req \<noteq> None"
  using assms matches_any unfolding resolve_None_iff by metis

end

lemma glob_literal: "CHR ''*'' \<notin> set p \<Longrightarrow> glob p v \<longleftrightarrow> p = v"
proof (induction p arbitrary: v)
  case Nil
  then show ?case by auto
next
  case (Cons c p)
  then have "c \<noteq> CHR ''*''" "CHR ''*'' \<notin> set p" by auto
  with Cons.IH show ?case by (cases v) (auto simp: glob_char_iff)
qed

lemma glob_any: "glob ''*'' v"
  using glob_star [OF glob_Nil, of v] by simp

lemma matchPattern_iff_glob [model_simps]: "matchPattern p v \<longleftrightarrow> glob p v"
  by (simp add: matchPattern_def globMatch_iff_glob)

interpretation router: first_match matchPattern resolveRules
  by unfold_locales (simp_all add: matchPattern_iff_glob glob_any glob_literal)

text \<open>An empty predicate of a route is a wildcard.\<close>

definition predMatches :: "string \<Rightarrow> string \<Rightarrow> bool" where
  "predMatches p v \<longleftrightarrow> p = [] \<or> glob p v"

lemma matchPattern_normalize: "matchPattern (normalize p) v \<longleftrightarrow> predMatches p v"
  by (simp add: normalize_def predMatches_def matchPattern_iff_glob glob_any)

definition routeMatches :: "Route \<Rightarrow> Request \<Rightarrow> bool" where
  "routeMatches rt req \<longleftrightarrow>
     predMatches (match_Username (route_Match rt)) (req_Username req) \<and>
     predMatches (match_Hostname (route_Match rt)) (req_Hostname req)"

lemma ResolveRoute_NewRouter_Nil: "ResolveRoute (NewRouter []) req = None"
  by (simp add: ResolveRoute_def router_rules_NewRouter)

lemma ResolveRoute_NewRouter_None:
  "ResolveRoute (NewRouter routes) req = None \<longleftrightarrow> (\<forall>rt\<in>set routes. \<not> routeMatches rt req)"
  by (auto simp: ResolveRoute_def router_rules_NewRouter router.resolve_None_iff ruleOf_def
      matchPattern_normalize routeMatches_def)

lemma ResolveRoute_find:
  "ResolveRoute (NewRouter routes) req = find (\<lambda>rt. routeMatches rt req) routes"
proof -
  have "resolveRules (map ruleOf routes) req = find (\<lambda>rt. routeMatches rt req) routes"
    by (induction routes) (simp_all add: ruleOf_def matchPattern_normalize routeMatches_def)
  then show ?thesis by (simp add: ResolveRoute_def router_rules_NewRouter)
qed

subsection \<open>Properties\<close>

text \<open>C22: the iterative matcher with its single backtracking point decides the textbook
  meaning of a pattern: a star stands for any run of bytes, another byte for itself. It
  always returns, whatever the pattern, and never indexes out of range on the way.\<close>

theorem globMatch_decides_glob: "globMatch pattern val \<longleftrightarrow> glob pattern val"
  by (rule globMatch_iff_glob)

text \<open>Routing takes the first route whose two predicates match, an empty predicate being
  a wildcard, and none when no route matches.\<close>

theorem first_matching_route:
  "ResolveRoute (NewRouter routes) req = find (\<lambda>rt. routeMatches rt req) routes"
  by (rule ResolveRoute_find)

text \<open>A login name splits at its last at-sign, so the hostname holds none; the two parts
  spell the login name again, and without an at-sign the whole is the username.\<close>

theorem ParseRequest_parts:
  "CHR ''@'' \<notin> set (req_Hostname (ParseRequest user)) \<and>
   user = (if CHR ''@'' \<in> set user
           then req_Username (ParseRequest user) @ ''@'' @ req_Hostname (ParseRequest user)
           else req_Username (ParseRequest user)) \<and>
   (CHR ''@'' \<in> set user \<or> req_Hostname (ParseRequest user) = [])"
proof (cases "CHR ''@'' \<in> set user")
  case True
  then obtain u h where user: "user = u @ CHR ''@'' # h" "CHR ''@'' \<notin> set h"
    by (metis split_list_last)
  then show ?thesis by (simp add: ParseRequest_at)
next
  case False
  then show ?thesis by (simp add: ParseRequest_plain)
qed

end
