(* ===== verification/Config_Validate.thy ===== *)
theory Config_Validate
  imports Config_Types Go_Duration Routing
begin

text \<open>
  \<open>Config.Validate\<close>, \<open>parseAutoUpdateWait\<close> and \<open>Load\<close> of \<open>internal/config/config.go\<close>. Each
  \<open>return fmt.Errorf\<close> is a constructor of \<open>validateError\<close> with the values it prints.
  \<open>ssh.ParseAuthorizedKey\<close> of \<open>golang.org/x/crypto\<close> is the parameter \<open>parseKey\<close>: \<open>None\<close> is
  its error, else the options and the rest of the input. The method normalises the routes in
  place; here it returns the configuration it leaves behind.
\<close>

subsection \<open>The update wait\<close>

datatype waitError = WaitEmpty | WaitInvalid string | WaitNegative string

definition AutoUpdateDisabled :: duration where
  "AutoUpdateDisabled = -1"

definition DefaultAutoUpdateWait :: duration where
  "DefaultAutoUpdateWait = 48 * hour"

definition disablingWords :: "string list" where
  "disablingWords = [''false'', ''no'', ''off'', ''never'', ''disabled'']"

definition parseAutoUpdateWait :: "string \<Rightarrow> waitError + duration" where
  "parseAutoUpdateWait s =
     (let raw = trimSpace s in
      if toLower raw \<in> set disablingWords then Inr AutoUpdateDisabled
      else if raw = [] then Inl WaitEmpty
      else if raw = ''0'' then Inr 0
      else case ParseDuration raw of
        None \<Rightarrow> Inl (WaitInvalid raw)
      | Some d \<Rightarrow> if d < 0 then Inl (WaitNegative raw) else Inr d)"

definition ResolvedAutoUpdateWait :: "Config \<Rightarrow> duration" where
  "ResolvedAutoUpdateWait c =
     (case cfg_AutoUpdateWait c of
        None \<Rightarrow> DefaultAutoUpdateWait
      | Some raw \<Rightarrow> (case parseAutoUpdateWait raw of
                       Inl err \<Rightarrow> DefaultAutoUpdateWait
                     | Inr d \<Rightarrow> d))"

subsection \<open>Validation\<close>

datatype validateError =
    GlobalControlTokens
  | JumpUserShape
  | JumpUserKey string
  | JumpUserBackend string string
  | ListenSSHRequired
  | ListenControlRequired
  | HostKeyRequired
  | AutoUpdateWaitError waitError
  | BackendIDRequired nat
  | DuplicateBackendID string
  | InvalidAlias string string
  | AliasConflict string string
  | DuplicateToken string string
  | DirectMode string
  | BadMode string
  | BackendUsername string string
  | AliasIsBackendID string string
  | RouteBackendRequired nat
  | RouteUnknownBackend nat string
  | RouteEndUser nat string

type_synonym keyParser = "string \<Rightarrow> (string list \<times> string) option"

definition checkKey :: "keyParser \<Rightarrow> string \<Rightarrow> string \<Rightarrow> validateError + unit" where
  "checkKey parseKey name t =
     (case parseKey t of
        None \<Rightarrow> Inl (JumpUserKey name)
      | Some (options, rest) \<Rightarrow>
          refuse (options \<noteq> [] \<or> trimSpace rest \<noteq> []) (JumpUserKey name))"

definition checkJumpUser ::
  "keyParser \<Rightarrow> Config \<Rightarrow> string set \<Rightarrow> JumpUser \<Rightarrow> validateError + string set" where
  "checkJumpUser parseKey c seenUsers u =
     bindE (refuse (ju_Name u = [] \<or> ju_Name u \<in> seenUsers \<or> ju_Backends u = []) JumpUserShape) (\<lambda>_.
     bindE (checkE (checkKey parseKey (ju_Name u)) (ju_Keys u)) (\<lambda>_.
     bindE (checkE (\<lambda>i. refuse (BackendByID c i = None) (JumpUserBackend (ju_Name u) i))
              (ju_Backends u)) (\<lambda>_.
     Inr (insert (ju_Name u) seenUsers))))"

text \<open>The three maps of the loop over the backends; \<open>seenNames\<close> newest entry first.\<close>

record seenMaps =
  seen_IDs :: "string set"
  seen_Names :: "(string \<times> string) list"
  seen_Tokens :: "(string \<times> string) list"

definition aliasSeparators :: string where
  "aliasSeparators = [CHR ''@'', CHR '':'', CHR ''/'', CHR 0x5C, CHR 0x09, CHR 0x0A]"

definition checkAlias ::
  "string \<Rightarrow> (string \<times> string) list \<Rightarrow> string \<Rightarrow> validateError + (string \<times> string) list" where
  "checkAlias i names alias =
     bindE (refuse (containsAny alias aliasSeparators \<or> alias = ''*'') (InvalidAlias i alias)) (\<lambda>_.
     case map_of names alias of
       Some owner \<Rightarrow> Inl (AliasConflict alias owner)
     | None \<Rightarrow> if alias = i then Inl (AliasConflict alias i) else Inr ((alias, i) # names))"

definition checkBackend :: "seenMaps \<Rightarrow> nat \<times> Backend \<Rightarrow> validateError + seenMaps" where
  "checkBackend m ib =
     (let (i, b) = ib in
      bindE (refuse (be_ID b = []) (BackendIDRequired i)) (\<lambda>_.
      bindE (refuse (be_ID b \<in> seen_IDs m) (DuplicateBackendID (be_ID b))) (\<lambda>_.
      let m = m\<lparr>seen_IDs := insert (be_ID b) (seen_IDs m)\<rparr> in
      bindE (if trimSpace (be_Aliases b) \<noteq> []
             then foldE (checkAlias (be_ID b)) (seen_Names m) (strFields (be_Aliases b))
             else Inr (seen_Names m)) (\<lambda>names.
      let m = m\<lparr>seen_Names := names\<rparr> in
      bindE (if be_Token b \<noteq> []
             then (case map_of (seen_Tokens m) (be_Token b) of
                     Some existing \<Rightarrow> Inl (DuplicateToken existing (be_ID b))
                   | None \<Rightarrow> Inr (m\<lparr>seen_Tokens := (be_Token b, be_ID b) # seen_Tokens m\<rparr>))
             else Inr m) (\<lambda>m.
      bindE (if be_Mode b = ''reverse'' then Inr ()
             else if be_Mode b = ''direct'' then Inl (DirectMode (be_ID b))
             else Inl (BadMode (be_ID b))) (\<lambda>_.
      bindE (refuse (be_Username b \<noteq> []) (BackendUsername (be_ID b) (be_Username b))) (\<lambda>_.
      Inr m)))))))"

text \<open>Go visits a map in any order; the model reports the oldest conflicting alias.\<close>

definition checkAliasIDs :: "seenMaps \<Rightarrow> validateError + unit" where
  "checkAliasIDs m =
     checkE (\<lambda>(alias, owner). refuse (alias \<in> seen_IDs m) (AliasIsBackendID alias owner))
       (rev (seen_Names m))"

definition normalizeRoute :: "Route \<Rightarrow> Route" where
  "normalizeRoute r =
     (let r = (if route_Username r \<noteq> [] \<and> match_Username (route_Match r) = []
               then r\<lparr>route_Match := (route_Match r)\<lparr>match_Username := route_Username r\<rparr>\<rparr> else r)
      in (if route_Hostname r \<noteq> [] \<and> match_Hostname (route_Match r) = []
          then r\<lparr>route_Match := (route_Match r)\<lparr>match_Hostname := route_Hostname r\<rparr>\<rparr> else r))"

definition endUserSeparators :: string where
  "endUserSeparators = [CHR '' '', CHR 0x09, CHR 0x0A, CHR ''/'', CHR '':'', CHR '','']"

definition checkRoute :: "string set \<Rightarrow> nat \<times> Route \<Rightarrow> validateError + Route" where
  "checkRoute ids ir =
     (let (i, r) = ir; r = normalizeRoute r in
      bindE (refuse (route_Backend r = []) (RouteBackendRequired i)) (\<lambda>_.
      bindE (refuse (route_Backend r \<notin> ids) (RouteUnknownBackend i (route_Backend r))) (\<lambda>_.
      bindE (if route_EndUser r \<noteq> []
             then bindE (refuse (containsAny (route_EndUser r) endUserSeparators)
                           (RouteEndUser i (route_EndUser r))) (\<lambda>_.
                  refuse (hasPrefix (route_EndUser r) ''-'') (RouteEndUser i (route_EndUser r)))
             else Inr ()) (\<lambda>_.
      Inr r))))"

definition Validate :: "keyParser \<Rightarrow> Config \<Rightarrow> validateError + Config" where
  "Validate parseKey c =
     bindE (refuse (cfg_ControlTokens c \<noteq> []) GlobalControlTokens) (\<lambda>_.
     bindE (foldE (checkJumpUser parseKey c) {} (cfg_JumpUsers c)) (\<lambda>_.
     bindE (refuse (listen_SSH (cfg_Listen c) = []) ListenSSHRequired) (\<lambda>_.
     bindE (refuse (listen_Control (cfg_Listen c) = []) ListenControlRequired) (\<lambda>_.
     bindE (refuse (cfg_HostKey c = []) HostKeyRequired) (\<lambda>_.
     bindE (case cfg_AutoUpdateWait c of
              None \<Rightarrow> Inr ()
            | Some raw \<Rightarrow> (case parseAutoUpdateWait raw of
                             Inl err \<Rightarrow> Inl (AutoUpdateWaitError err)
                           | Inr d \<Rightarrow> Inr ())) (\<lambda>_.
     bindE (foldE checkBackend \<lparr>seen_IDs = {}, seen_Names = [], seen_Tokens = []\<rparr>
              (enumerate 0 (cfg_Backends c))) (\<lambda>m.
     bindE (checkAliasIDs m) (\<lambda>_.
     bindE (foldE (\<lambda>rs ir. bindE (checkRoute (seen_IDs m) ir) (\<lambda>r. Inr (rs @ [r]))) []
              (enumerate 0 (cfg_Routes c))) (\<lambda>rs.
     Inr (c\<lparr>cfg_Routes := rs\<rparr>))))))))))"

datatype loadError = ReadConfig | ParseConfig | InvalidConfig validateError

text \<open>\<open>os.ReadFile\<close> and the YAML decoder are what the file holds and how it decodes.\<close>

definition Load ::
  "keyParser \<Rightarrow> (string \<Rightarrow> Config option) \<Rightarrow> string option \<Rightarrow> loadError + Config" where
  "Load parseKey decode file =
     (case file of
        None \<Rightarrow> Inl ReadConfig
      | Some bytes \<Rightarrow>
          (case decode bytes of
             None \<Rightarrow> Inl ParseConfig
           | Some c \<Rightarrow>
               (case Validate parseKey c of
                  Inl err \<Rightarrow> Inl (InvalidConfig err)
                | Inr c' \<Rightarrow> Inr c')))"

subsection \<open>What a valid configuration is\<close>

definition validJumpUser :: "keyParser \<Rightarrow> string set \<Rightarrow> JumpUser \<Rightarrow> bool" where
  "validJumpUser parseKey ids u \<longleftrightarrow>
     ju_Name u \<noteq> [] \<and> ju_Backends u \<noteq> [] \<and> set (ju_Backends u) \<subseteq> ids \<and>
     list_all (\<lambda>t. case parseKey t of None \<Rightarrow> False
                   | Some (options, rest) \<Rightarrow> options = [] \<and> trimSpace rest = []) (ju_Keys u)"

definition validAlias :: "string \<Rightarrow> bool" where
  "validAlias a \<longleftrightarrow> \<not> containsAny a aliasSeparators \<and> a \<noteq> ''*''"

definition aliasesOf :: "Backend \<Rightarrow> string list" where
  "aliasesOf b = strFields (be_Aliases b)"

definition validBackend :: "Backend \<Rightarrow> bool" where
  "validBackend b \<longleftrightarrow>
     be_ID b \<noteq> [] \<and> list_all validAlias (aliasesOf b) \<and> be_Mode b = ''reverse'' \<and>
     be_Username b = []"

definition tokensOf :: "Backend list \<Rightarrow> string list" where
  "tokensOf bs = filter (\<lambda>t. t \<noteq> []) (map be_Token bs)"

definition validBackends :: "Backend list \<Rightarrow> bool" where
  "validBackends bs \<longleftrightarrow>
     list_all validBackend bs \<and> distinct (map be_ID bs) \<and>
     distinct (concat (map aliasesOf bs)) \<and>
     set (concat (map aliasesOf bs)) \<inter> set (map be_ID bs) = {} \<and> distinct (tokensOf bs)"

definition validRoute :: "string set \<Rightarrow> Route \<Rightarrow> bool" where
  "validRoute ids r \<longleftrightarrow>
     route_Backend r \<noteq> [] \<and> route_Backend r \<in> ids \<and>
     \<not> containsAny (route_EndUser r) endUserSeparators \<and> \<not> hasPrefix (route_EndUser r) ''-''"

definition validConfig :: "keyParser \<Rightarrow> Config \<Rightarrow> bool" where
  "validConfig parseKey c \<longleftrightarrow>
     (let ids = set (map be_ID (cfg_Backends c)) in
      cfg_ControlTokens c = [] \<and>
      list_all (validJumpUser parseKey ids) (cfg_JumpUsers c) \<and>
      distinct (map ju_Name (cfg_JumpUsers c)) \<and>
      listen_SSH (cfg_Listen c) \<noteq> [] \<and> listen_Control (cfg_Listen c) \<noteq> [] \<and>
      cfg_HostKey c \<noteq> [] \<and>
      (case cfg_AutoUpdateWait c of None \<Rightarrow> True
       | Some raw \<Rightarrow> (case parseAutoUpdateWait raw of Inl _ \<Rightarrow> False | Inr _ \<Rightarrow> True)) \<and>
      validBackends (cfg_Backends c) \<and>
      list_all (validRoute ids) (cfg_Routes c))"

subsection \<open>Validation decides validity\<close>

lemma checkKey_Inr:
  "checkKey parseKey name t = Inr u \<longleftrightarrow>
   (case parseKey t of None \<Rightarrow> False | Some (options, rest) \<Rightarrow> options = [] \<and> trimSpace rest = [])"
  by (auto simp: checkKey_def split: option.splits)

lemma checkJumpUser_Inr:
  "checkJumpUser parseKey c seen u = Inr seen' \<longleftrightarrow>
   validJumpUser parseKey (set (map be_ID (cfg_Backends c))) u \<and> ju_Name u \<notin> seen \<and>
   seen' = insert (ju_Name u) seen"
  by (auto simp: checkJumpUser_def validJumpUser_def checkKey_Inr BackendByID_None list_all_iff)

lemma checkJumpUsers_Inr:
  "foldE (checkJumpUser parseKey c) seen us = Inr seen' \<longleftrightarrow>
   list_all (validJumpUser parseKey (set (map be_ID (cfg_Backends c)))) us \<and>
   distinct (map ju_Name us) \<and> set (map ju_Name us) \<inter> seen = {} \<and>
   seen' = set (map ju_Name us) \<union> seen"
proof (induction us arbitrary: seen)
  case Nil
  then show ?case by auto
next
  case (Cons u us)
  show ?case by (auto simp: checkJumpUser_Inr Cons)
qed

lemma map_of_None: "map_of xs k = None \<longleftrightarrow> k \<notin> fst ` set xs"
  by (rule map_of_eq_None_iff)

lemma checkAlias_Inr:
  "checkAlias i names a = Inr names' \<longleftrightarrow>
   validAlias a \<and> a \<notin> fst ` set names \<and> a \<noteq> i \<and> names' = (a, i) # names"
  by (auto simp: checkAlias_def validAlias_def map_of_eq_None_iff [symmetric] split: option.splits)

lemma checkAliases_Inr:
  "foldE (checkAlias i) names as = Inr names' \<longleftrightarrow>
   list_all validAlias as \<and> distinct as \<and> i \<notin> set as \<and> set as \<inter> fst ` set names = {} \<and>
   names' = rev (map (\<lambda>a. (a, i)) as) @ names"
proof (induction as arbitrary: names)
  case Nil
  then show ?case by auto
next
  case (Cons a as)
  show ?case by (auto simp: checkAlias_Inr Cons)
qed

text \<open>What the loop over the backends records of one, and what it asks of the next.\<close>

definition noteBackend :: "Backend \<Rightarrow> seenMaps \<Rightarrow> seenMaps" where
  "noteBackend b m =
     \<lparr>seen_IDs = insert (be_ID b) (seen_IDs m),
      seen_Names = rev (map (\<lambda>a. (a, be_ID b)) (aliasesOf b)) @ seen_Names m,
      seen_Tokens = (if be_Token b = [] then seen_Tokens m
                     else (be_Token b, be_ID b) # seen_Tokens m)\<rparr>"

definition okNext :: "seenMaps \<Rightarrow> Backend \<Rightarrow> bool" where
  "okNext m b \<longleftrightarrow>
     validBackend b \<and> be_ID b \<notin> seen_IDs m \<and> be_ID b \<notin> set (aliasesOf b) \<and>
     distinct (aliasesOf b) \<and> set (aliasesOf b) \<inter> fst ` set (seen_Names m) = {} \<and>
     (be_Token b = [] \<or> be_Token b \<notin> fst ` set (seen_Tokens m))"

lemma aliasLoop:
  "(if trimSpace (be_Aliases b) \<noteq> []
    then foldE (checkAlias i) names (strFields (be_Aliases b)) else Inr names) =
   foldE (checkAlias i) names (aliasesOf b)"
  by (simp add: aliasesOf_def trimSpace_empty_fields)

lemma checkBackend_Inr:
  "checkBackend m (i, b) = Inr m' \<longleftrightarrow> okNext m b \<and> m' = noteBackend b m"
proof (cases "be_Token b = []")
  case True
  then show ?thesis
    unfolding checkBackend_def aliasLoop
    by (cases m) (auto simp: Let_def checkAliases_Inr okNext_def noteBackend_def validBackend_def)
next
  case False
  then show ?thesis
    unfolding checkBackend_def aliasLoop
    by (cases m) (auto simp: Let_def checkAliases_Inr okNext_def noteBackend_def validBackend_def
        map_of_eq_None_iff [symmetric] split: option.splits)
qed

lemma noteBackend_keys:
  "seen_IDs (noteBackend b m) = insert (be_ID b) (seen_IDs m)"
  "fst ` set (seen_Names (noteBackend b m)) = set (aliasesOf b) \<union> fst ` set (seen_Names m)"
  "fst ` set (seen_Tokens (noteBackend b m)) = set (tokensOf [b]) \<union> fst ` set (seen_Tokens m)"
  by (auto simp: noteBackend_def tokensOf_def image_Un image_image)

lemma noteBackends_keys:
  "seen_IDs (fold noteBackend bs m) = set (map be_ID bs) \<union> seen_IDs m"
  "fst ` set (seen_Names (fold noteBackend bs m)) =
     set (concat (map aliasesOf bs)) \<union> fst ` set (seen_Names m)"
  by (induction bs arbitrary: m) (auto simp: noteBackend_keys)

lemma tokensOf_simps:
  "tokensOf [] = []"
  "tokensOf (b # bs) = (if be_Token b = [] then tokensOf bs else be_Token b # tokensOf bs)"
  by (simp_all add: tokensOf_def)

definition okBackends :: "seenMaps \<Rightarrow> Backend list \<Rightarrow> bool" where
  "okBackends m bs \<longleftrightarrow>
     list_all validBackend bs \<and> distinct (map be_ID bs) \<and>
     set (map be_ID bs) \<inter> seen_IDs m = {} \<and>
     list_all (\<lambda>b. be_ID b \<notin> set (aliasesOf b)) bs \<and>
     distinct (concat (map aliasesOf bs)) \<and>
     set (concat (map aliasesOf bs)) \<inter> fst ` set (seen_Names m) = {} \<and>
     distinct (tokensOf bs) \<and> set (tokensOf bs) \<inter> fst ` set (seen_Tokens m) = {}"

lemma okBackends_Nil: "okBackends m []"
  by (simp add: okBackends_def tokensOf_def)

lemma disjoint_Cons_step:
  "set (xs @ ys) \<inter> N = {} \<and> set xs \<inter> set ys = {} \<longleftrightarrow>
   set xs \<inter> N = {} \<and> set ys \<inter> (set xs \<union> N) = {}"
  by auto

lemma tokens_Cons_step:
  "distinct (tokensOf (b # bs)) \<and> set (tokensOf (b # bs)) \<inter> T = {} \<longleftrightarrow>
   (be_Token b = [] \<or> be_Token b \<notin> T) \<and> distinct (tokensOf bs) \<and>
   set (tokensOf bs) \<inter> (set (tokensOf [b]) \<union> T) = {}"
  by (auto simp: tokensOf_simps)

lemma okBackends_Cons:
  "okBackends m (b # bs) \<longleftrightarrow> okNext m b \<and> okBackends (noteBackend b m) bs"
proof -
  let ?A = "aliasesOf b" and ?As = "concat (map aliasesOf bs)" and ?N = "fst ` set (seen_Names m)"
  let ?I = "seen_IDs m" and ?T = "fst ` set (seen_Tokens m)"
  have ids: "distinct (map be_ID (b # bs)) \<and> set (map be_ID (b # bs)) \<inter> ?I = {} \<longleftrightarrow>
      be_ID b \<notin> ?I \<and> distinct (map be_ID bs) \<and> set (map be_ID bs) \<inter> insert (be_ID b) ?I = {}"
    by auto
  have names: "distinct (concat (map aliasesOf (b # bs))) \<and>
      set (concat (map aliasesOf (b # bs))) \<inter> ?N = {} \<longleftrightarrow>
      distinct ?A \<and> set ?A \<inter> ?N = {} \<and> distinct ?As \<and> set ?As \<inter> (set ?A \<union> ?N) = {}"
    using disjoint_Cons_step [of ?A ?As ?N] by (simp only: list.map concat.simps distinct_append) blast
  show ?thesis
    unfolding okBackends_def okNext_def noteBackend_keys list.pred_inject
    using ids names tokens_Cons_step [of b bs ?T] by argo
qed

lemma checkBackends_Inr:
  "foldE checkBackend m (enumerate n bs) = Inr m' \<longleftrightarrow>
   okBackends m bs \<and> m' = fold noteBackend bs m"
proof (induction bs arbitrary: m n)
  case Nil
  then show ?case by (auto simp: okBackends_Nil)
next
  case (Cons b bs)
  show ?case by (auto simp: checkBackend_Inr okBackends_Cons Cons)
qed

text \<open>The check of the aliases against all ids completes the check within one backend.\<close>

lemma checkAliasIDs_Inr: "checkAliasIDs m = Inr u \<longleftrightarrow> fst ` set (seen_Names m) \<inter> seen_IDs m = {}"
  by (auto simp: checkAliasIDs_def)

lemma backends_valid_iff:
  fixes bs
  defines "m0 \<equiv> \<lparr>seen_IDs = {}, seen_Names = [], seen_Tokens = []\<rparr>"
  shows "okBackends m0 bs \<and> checkAliasIDs (fold noteBackend bs m0) = Inr () \<longleftrightarrow> validBackends bs"
proof -
  have "fst ` set (seen_Names (fold noteBackend bs m0)) = set (concat (map aliasesOf bs))"
    "seen_IDs (fold noteBackend bs m0) = set (map be_ID bs)"
    by (simp_all add: noteBackends_keys m0_def)
  moreover have "set (concat (map aliasesOf bs)) \<inter> set (map be_ID bs) = {} \<Longrightarrow>
      list_all (\<lambda>b. be_ID b \<notin> set (aliasesOf b)) bs"
    by (auto simp: list_all_iff)
  ultimately show ?thesis
    by (auto simp only: checkAliasIDs_Inr okBackends_def validBackends_def m0_def
        seenMaps.simps list.set image_empty Int_empty_right)
qed

subsection \<open>Routes\<close>

lemma normalizeRoute_simps [simp]:
  "route_Backend (normalizeRoute r) = route_Backend r"
  "route_EndUser (normalizeRoute r) = route_EndUser r"
  "route_Username (normalizeRoute r) = route_Username r"
  "route_Hostname (normalizeRoute r) = route_Hostname r"
  by (simp_all add: normalizeRoute_def Let_def)

lemma normalizeRoute_Match:
  "match_Username (route_Match (normalizeRoute r)) =
     (if match_Username (route_Match r) = [] then route_Username r
      else match_Username (route_Match r))"
  "match_Hostname (route_Match (normalizeRoute r)) =
     (if match_Hostname (route_Match r) = [] then route_Hostname r
      else match_Hostname (route_Match r))"
  by (simp_all add: normalizeRoute_def Let_def)

lemma normalizeRoute_idem [simp]: "normalizeRoute (normalizeRoute r) = normalizeRoute r"
proof -
  have "normalizeRoute s = s"
    if "match_Username (route_Match s) = [] \<longrightarrow> route_Username s = []"
      "match_Hostname (route_Match s) = [] \<longrightarrow> route_Hostname s = []" for s
    using that by (auto simp: normalizeRoute_def Let_def)
  then show ?thesis by (simp add: normalizeRoute_Match)
qed

lemma checkRoute_Inr:
  "checkRoute ids (i, r) = Inr r' \<longleftrightarrow> validRoute ids r \<and> r' = normalizeRoute r"
  by (auto simp: checkRoute_def Let_def validRoute_def containsAny_def hasPrefix_def)

lemma checkRoutes_Inr:
  "foldE (\<lambda>rs ir. bindE (checkRoute ids ir) (\<lambda>r. Inr (rs @ [r]))) rs0 (enumerate n rts) = Inr rs \<longleftrightarrow>
   list_all (validRoute ids) rts \<and> rs = rs0 @ map normalizeRoute rts"
proof (induction rts arbitrary: rs0 n)
  case Nil
  then show ?case by auto
next
  case (Cons r rts)
  show ?case by (auto simp: checkRoute_Inr Cons)
qed

lemma Validate_iff:
  "Validate parseKey c = Inr c' \<longleftrightarrow>
   validConfig parseKey c \<and> c' = c\<lparr>cfg_Routes := map normalizeRoute (cfg_Routes c)\<rparr>"
proof -
  have wait: "(case cfg_AutoUpdateWait c of None \<Rightarrow> Inr ()
      | Some raw \<Rightarrow> (case parseAutoUpdateWait raw of
          Inl err \<Rightarrow> Inl (AutoUpdateWaitError err) | Inr d \<Rightarrow> Inr ())) = Inr u \<longleftrightarrow>
      (case cfg_AutoUpdateWait c of None \<Rightarrow> True
       | Some raw \<Rightarrow> (case parseAutoUpdateWait raw of Inl _ \<Rightarrow> False | Inr _ \<Rightarrow> True))" for u
    by (auto split: option.splits sum.splits)
  show ?thesis
    unfolding Validate_def validConfig_def Let_def bindE_eq_Inr refuse_eq_Inr wait
      checkJumpUsers_Inr checkBackends_Inr checkRoutes_Inr
    using backends_valid_iff [of "cfg_Backends c"]
    by (auto simp: noteBackends_keys)
qed

lemma validRoute_normalize [simp]: "validRoute ids (normalizeRoute r) = validRoute ids r"
  by (simp add: validRoute_def)

lemma validConfig_normalize:
  "validConfig parseKey (c\<lparr>cfg_Routes := map normalizeRoute (cfg_Routes c)\<rparr>) =
   validConfig parseKey c"
  by (simp add: validConfig_def Let_def list_all_iff)

lemma Validate_idem: "Validate parseKey c = Inr c' \<Longrightarrow> Validate parseKey c' = Inr c'"
  by (auto simp: Validate_iff validConfig_normalize o_def)

lemma ValidateD:
  assumes "Validate parseKey c = Inr c'"
  shows "validConfig parseKey c'" and "validBackends (cfg_Backends c')"
proof -
  show valid: "validConfig parseKey c'"
    using Validate_idem [OF assms] by (simp add: Validate_iff)
  then show "validBackends (cfg_Backends c')" by (simp add: validConfig_def Let_def)
qed

text \<open>Validation rewrites routes only.\<close>

lemma Validate_lookups:
  assumes "Validate parseKey c = Inr c'"
  shows "BackendByToken c' = BackendByToken c" "BackendByID c' = BackendByID c"
    "BackendByName c' = BackendByName c"
  using assms by (auto simp: Validate_iff BackendByToken_def BackendByID_def BackendByName_def fun_eq_iff
      split: option.splits)

subsection \<open>Look-ups in a valid configuration\<close>

text \<open>
  What the hub needs of a look-up: in a valid configuration it finds the member that carries
  the name, whatever the order of the members, and nothing for another name.
\<close>

locale directory =
  fixes valid :: "'c \<Rightarrow> bool"
    and members :: "'c \<Rightarrow> 'm list"
    and named :: "'m \<Rightarrow> 'n \<Rightarrow> bool"
    and lookup :: "'c \<Rightarrow> 'n \<Rightarrow> 'm option"
  assumes lookup_iff:
    "valid c \<Longrightarrow> lookup c n = Some m \<longleftrightarrow> m \<in> set (members c) \<and> named m n"
begin

lemma lookup_None_iff:
  assumes "valid c"
  shows "lookup c n = None \<longleftrightarrow> (\<forall>m\<in>set (members c). \<not> named m n)"
proof -
  have "lookup c n = None \<longleftrightarrow> (\<forall>m. lookup c n \<noteq> Some m)" by (cases "lookup c n") auto
  with lookup_iff [OF assms] show ?thesis by auto
qed

lemma named_unique:
  assumes "valid c" "m \<in> set (members c)" "m' \<in> set (members c)" "named m n" "named m' n"
  shows "m = m'"
  using assms lookup_iff [OF assms(1), of n m] lookup_iff [OF assms(1), of n m'] by simp

lemma lookup_order:
  assumes "valid c" "valid c'" "set (members c) = set (members c')"
  shows "lookup c n = lookup c' n"
  using lookup_iff [OF assms(1), of n] lookup_iff [OF assms(2), of n] assms(3)
  by (cases "lookup c n"; cases "lookup c' n") auto

end

abbreviation validNames :: "Config \<Rightarrow> bool" where
  "validNames c \<equiv> validBackends (cfg_Backends c)"

definition namedBackend :: "Backend \<Rightarrow> string \<Rightarrow> bool" where
  "namedBackend b n \<longleftrightarrow> be_ID b = n \<or> n \<in> set (aliasesOf b)"

definition hasToken :: "Backend \<Rightarrow> string \<Rightarrow> bool" where
  "hasToken b t \<longleftrightarrow> t \<noteq> [] \<and> be_Token b = t"

lemma same_ID:
  "validNames c \<Longrightarrow> b \<in> set (cfg_Backends c) \<Longrightarrow> b' \<in> set (cfg_Backends c) \<Longrightarrow>
   be_ID b = be_ID b' \<Longrightarrow> b = b'"
  by (auto simp: validBackends_def distinct_map inj_on_def)

lemma distinct_concat_owner:
  "distinct (concat (map f xs)) \<Longrightarrow> x \<in> set xs \<Longrightarrow> y \<in> set xs \<Longrightarrow>
   a \<in> set (f x) \<Longrightarrow> a \<in> set (f y) \<Longrightarrow> x = y"
  by (induction xs) auto

lemma same_alias:
  "validNames c \<Longrightarrow> b \<in> set (cfg_Backends c) \<Longrightarrow> b' \<in> set (cfg_Backends c) \<Longrightarrow>
   a \<in> set (aliasesOf b) \<Longrightarrow> a \<in> set (aliasesOf b') \<Longrightarrow> b = b'"
  using distinct_concat_owner [of aliasesOf "cfg_Backends c"] by (simp add: validBackends_def)

lemma alias_not_ID:
  "validNames c \<Longrightarrow> b \<in> set (cfg_Backends c) \<Longrightarrow> b' \<in> set (cfg_Backends c) \<Longrightarrow>
   be_ID b' \<notin> set (aliasesOf b)"
  by (auto simp: validBackends_def disjoint_iff)

lemma tokensOf_distinct:
  "distinct (tokensOf bs) \<Longrightarrow> b \<in> set bs \<Longrightarrow> b' \<in> set bs \<Longrightarrow> be_Token b \<noteq> [] \<Longrightarrow>
   be_Token b = be_Token b' \<Longrightarrow> b = b'"
proof (induction bs)
  case Nil
  then show ?case by simp
next
  case (Cons a bs)
  have mem: "be_Token x \<in> set (tokensOf bs)" if "x \<in> set bs" "be_Token x \<noteq> []" for x
    using that by (auto simp: tokensOf_def)
  show ?case using Cons mem [of b] mem [of b'] by (auto simp: tokensOf_simps split: if_splits)
qed

lemma BackendByID_iff:
  assumes "validNames c"
  shows "BackendByID c i = Some b \<longleftrightarrow> b \<in> set (cfg_Backends c) \<and> be_ID b = i"
proof
  show "BackendByID c i = Some b \<Longrightarrow> b \<in> set (cfg_Backends c) \<and> be_ID b = i"
    by (rule BackendByID_SomeD)
next
  assume b: "b \<in> set (cfg_Backends c) \<and> be_ID b = i"
  then have "BackendByID c i \<noteq> None" by (auto simp: BackendByID_None)
  then obtain b' where b': "BackendByID c i = Some b'" by blast
  from BackendByID_SomeD [OF this] b same_ID [OF assms, of b b'] show "BackendByID c i = Some b"
    unfolding b' by auto
qed

lemma BackendByName_iff:
  assumes valid: "validNames c"
  shows "BackendByName c n = Some b \<longleftrightarrow> b \<in> set (cfg_Backends c) \<and> namedBackend b n"
proof
  show "BackendByName c n = Some b \<Longrightarrow> b \<in> set (cfg_Backends c) \<and> namedBackend b n"
    using BackendByName_SomeD [of c n b] by (simp add: namedBackend_def aliasesOf_def)
next
  assume b: "b \<in> set (cfg_Backends c) \<and> namedBackend b n"
  then have "BackendByName c n \<noteq> None"
    by (auto simp: BackendByName_def BackendByID_None namedBackend_def aliasesOf_def find_None_iff
        list_ex_iff split: option.splits)
  then obtain b' where b': "BackendByName c n = Some b'" by blast
  from BackendByName_SomeD [OF this]
  have "b' \<in> set (cfg_Backends c) \<and> namedBackend b' n" by (simp add: namedBackend_def aliasesOf_def)
  with b have "b = b'"
    using same_ID [OF valid] same_alias [OF valid] alias_not_ID [OF valid]
    unfolding namedBackend_def by metis
  with b' show "BackendByName c n = Some b" by simp
qed

lemma BackendByToken_iff:
  assumes valid: "validNames c"
  shows "BackendByToken c t = Some b \<longleftrightarrow> b \<in> set (cfg_Backends c) \<and> hasToken b t"
proof
  show "BackendByToken c t = Some b \<Longrightarrow> b \<in> set (cfg_Backends c) \<and> hasToken b t"
    by (auto simp: hasToken_def dest: BackendByToken_SomeD)
next
  assume b: "b \<in> set (cfg_Backends c) \<and> hasToken b t"
  then have "be_Mode b = ''reverse''"
    using valid by (auto simp: validBackends_def validBackend_def list_all_iff)
  with b have "BackendByToken c t \<noteq> None"
    by (auto simp: BackendByToken_def hasToken_def find_None_iff)
  then obtain b' where b': "BackendByToken c t = Some b'" by blast
  from BackendByToken_SomeD [OF this] b tokensOf_distinct [of "cfg_Backends c" b b'] valid
  show "BackendByToken c t = Some b"
    unfolding b' by (auto simp: validBackends_def hasToken_def)
qed

interpretation by_id: directory validNames cfg_Backends "\<lambda>b i. be_ID b = i" BackendByID
  by unfold_locales (rule BackendByID_iff)

interpretation by_name: directory validNames cfg_Backends namedBackend BackendByName
  by unfold_locales (rule BackendByName_iff)

interpretation by_token: directory validNames cfg_Backends hasToken BackendByToken
  by unfold_locales (rule BackendByToken_iff)

subsection \<open>The routes of a valid configuration\<close>

lemma valid_route_target:
  assumes "validConfig parseKey c" "rt \<in> set (cfg_Routes c)"
  shows "route_Backend rt \<in> be_ID ` set (cfg_Backends c)"
  using assms by (auto simp: validConfig_def Let_def list_all_iff validRoute_def)

lemma Resolve_target:
  assumes valid: "validConfig parseKey c"
    and resolve: "Resolve (NewRouter (cfg_Routes c)) req = Some i"
  shows "\<exists>b. BackendByID c i = Some b \<and> be_ID b = i \<and> be_Mode b = ''reverse''"
proof -
  from resolve obtain rt where "ResolveRoute (NewRouter (cfg_Routes c)) req = Some rt"
    and i: "i = route_Backend rt"
    by (auto simp: Resolve_def split: option.splits)
  then have "rt \<in> set (cfg_Routes c)" by (auto simp: ResolveRoute_find dest: find_SomeD)
  from valid_route_target [OF valid this] obtain b
    where b: "b \<in> set (cfg_Backends c)" "be_ID b = i" unfolding i by auto
  have names: "validNames c" using valid by (simp add: validConfig_def Let_def)
  with b have "be_Mode b = ''reverse''" by (auto simp: validBackends_def validBackend_def list_all_iff)
  with b by_id.lookup_iff [OF names, of i b] show ?thesis by auto
qed

subsection \<open>The update wait\<close>

lemma parseAutoUpdateWait_Inr:
  assumes "parseAutoUpdateWait s = Inr d"
  shows "d = AutoUpdateDisabled \<longleftrightarrow> toLower (trimSpace s) \<in> set disablingWords"
    and "AutoUpdateDisabled \<le> d" and "d \<le> max_duration"
  using assms ParseDuration_bounds [of "trimSpace s" d]
  by (auto simp: parseAutoUpdateWait_def Let_def AutoUpdateDisabled_def max_duration_def
      split: if_splits option.splits)

lemma ResolvedAutoUpdateWait_range:
  "(ResolvedAutoUpdateWait c = AutoUpdateDisabled \<longleftrightarrow>
     (case cfg_AutoUpdateWait c of None \<Rightarrow> False
      | Some raw \<Rightarrow> toLower (trimSpace raw) \<in> set disablingWords)) \<and>
   AutoUpdateDisabled \<le> ResolvedAutoUpdateWait c \<and> ResolvedAutoUpdateWait c \<le> max_duration"
proof -
  have default: "DefaultAutoUpdateWait \<noteq> AutoUpdateDisabled"
    "AutoUpdateDisabled \<le> DefaultAutoUpdateWait" "DefaultAutoUpdateWait \<le> max_duration"
    by (simp_all add: DefaultAutoUpdateWait_def AutoUpdateDisabled_def max_duration_def)
  have word: "parseAutoUpdateWait raw = Inr AutoUpdateDisabled"
    if "toLower (trimSpace raw) \<in> set disablingWords" for raw
    using that by (simp add: parseAutoUpdateWait_def)
  show ?thesis
    using default word parseAutoUpdateWait_Inr
    by (fastforce simp: ResolvedAutoUpdateWait_def split: option.splits sum.splits)
qed

subsection \<open>A configuration\<close>

definition exampleConfig :: Config where
  "exampleConfig = \<lparr>cfg_Listen = \<lparr>listen_SSH = '':22'', listen_Control = '':7443''\<rparr>,
     cfg_PublicHost = [], cfg_AutoUpdateWait = Some ''48h'', cfg_HostKey = ''hub_key'',
     cfg_TLSCert = [], cfg_TLSKey = [], cfg_ControlTokens = [],
     cfg_Backends =
       [\<lparr>be_Aliases = ''web www'', be_ID = ''web1'', be_Mode = ''reverse'', be_Token = ''t1'',
         be_Username = [], be_HostKey = [], be_HostKeyFile = []\<rparr>,
        \<lparr>be_Aliases = [], be_ID = ''db1'', be_Mode = ''reverse'', be_Token = ''t2'',
         be_Username = [], be_HostKey = [], be_HostKeyFile = []\<rparr>],
     cfg_Routes =
       [\<lparr>route_Match = \<lparr>match_Username = [], match_Hostname = []\<rparr>, route_Backend = ''db1'',
         route_Username = ''dba'', route_Hostname = [], route_EndUser = []\<rparr>],
     cfg_JumpUsers = [\<lparr>ju_Name = ''alice'', ju_Keys = [''k1''], ju_Backends = [''web1'']\<rparr>]\<rparr>"

definition exampleParser :: keyParser where
  "exampleParser t = (if t = ''k1'' then Some ([], []) else None)"

lemma exampleConfig_valid:
  "Validate exampleParser exampleConfig = Inr (exampleConfig\<lparr>cfg_Routes :=
     map normalizeRoute (cfg_Routes exampleConfig)\<rparr>)"
  by code_simp

subsection \<open>Properties\<close>

text \<open>C16: validation accepts exactly the valid configurations, and returns them with the flat
  predicates of the routes copied into the nested ones. The right-hand side is the
  declarative reading of the many early returns: unique non-empty names, ids, aliases and
  tokens, aliases that are no ids, known grants and route targets, only reverse backends.\<close>

theorem Validate_decides:
  "Validate parseKey c = Inr c' \<longleftrightarrow>
   validConfig parseKey c \<and> c' = c\<lparr>cfg_Routes := map normalizeRoute (cfg_Routes c)\<rparr>"
  by (rule Validate_iff)

text \<open>C31: in a validated configuration the three look-ups find a backend exactly by its id, by
  its id or one of its aliases, and by its non-empty token: a name or a token never means
  two backends, and the order of the entries does not matter.\<close>

theorem lookups_exact:
  assumes "Validate parseKey c0 = Inr c"
  shows "(BackendByID c n = Some b \<longleftrightarrow> b \<in> set (cfg_Backends c) \<and> be_ID b = n) \<and>
    (BackendByName c n = Some b \<longleftrightarrow>
       b \<in> set (cfg_Backends c) \<and> (be_ID b = n \<or> n \<in> set (aliasesOf b))) \<and>
    (BackendByToken c n = Some b \<longleftrightarrow> b \<in> set (cfg_Backends c) \<and> n \<noteq> [] \<and> be_Token b = n)"
  using by_id.lookup_iff by_name.lookup_iff by_token.lookup_iff ValidateD(2) [OF assms]
  by (simp add: namedBackend_def hasToken_def)

theorem lookups_exact_witness:
  "BackendByName (exampleConfig\<lparr>cfg_Routes := map normalizeRoute (cfg_Routes exampleConfig)\<rparr>)
     ''www'' = Some (hd (cfg_Backends exampleConfig)) \<longleftrightarrow>
   hd (cfg_Backends exampleConfig) \<in> set (cfg_Backends exampleConfig) \<and>
   (be_ID (hd (cfg_Backends exampleConfig)) = ''www'' \<or>
    ''www'' \<in> set (aliasesOf (hd (cfg_Backends exampleConfig))))"
  using lookups_exact [OF exampleConfig_valid, of "''www''" "hd (cfg_Backends exampleConfig)"]
  by simp

text \<open>In a validated configuration whatever a login is routed to is a configured backend,
  in reverse mode: routing cannot name a backend that does not exist.\<close>

theorem routes_reach_backends:
  assumes "Validate parseKey c0 = Inr c" and "Resolve (NewRouter (cfg_Routes c)) req = Some i"
  shows "\<exists>b. BackendByID c i = Some b \<and> be_ID b = i \<and> be_Mode b = ''reverse''"
  using ValidateD(1) [OF assms(1)] assms(2) by (rule Resolve_target)

theorem routes_reach_backends_witness:
  "\<exists>b. BackendByID (exampleConfig\<lparr>cfg_Routes := map normalizeRoute (cfg_Routes exampleConfig)\<rparr>)
         ''db1'' = Some b \<and> be_ID b = ''db1'' \<and> be_Mode b = ''reverse''"
proof (rule routes_reach_backends [OF exampleConfig_valid])
  show "Resolve (NewRouter (cfg_Routes (exampleConfig\<lparr>cfg_Routes :=
      map normalizeRoute (cfg_Routes exampleConfig)\<rparr>)))
      \<lparr>req_Username = ''dba'', req_Hostname = ''x''\<rparr> = Some ''db1''"
    by code_simp
qed

text \<open>The soak period in force is the disabling sentinel exactly when one of the five words
  is written, in any case and surrounded by any white space; otherwise it is a duration
  that is not negative. A typo never turns updates off or shortens the wait to less than 0.\<close>

theorem update_wait_range:
  "(ResolvedAutoUpdateWait c = AutoUpdateDisabled \<longleftrightarrow>
     (case cfg_AutoUpdateWait c of None \<Rightarrow> False
      | Some raw \<Rightarrow> toLower (trimSpace raw) \<in> set disablingWords)) \<and>
   AutoUpdateDisabled \<le> ResolvedAutoUpdateWait c \<and> ResolvedAutoUpdateWait c \<le> max_duration"
  by (rule ResolvedAutoUpdateWait_range)

end
