(* ===== verification/Control.thy ===== *)
theory Control
  imports Config_Validate Versions "HOL-Library.List_Lexorder" "HOL-Library.Char_ord"
    "HOL-Library.Multiset" "HOL-Library.Word"
begin

text \<open>
  \<open>internal/control\<close>: the registry of connected agents, the registration exchange between agent
  and hub (\<open>protocol.go\<close>, \<open>server.go\<close>, \<open>client.go\<close>), and the life of the hub's connection
  handlers as a step relation in which any number of handlers interleave. A yamux session is
  a number; the JSON that carries a message is not modelled beyond a message arriving or not.
\<close>

subsection \<open>Messages\<close>

record RegisterRequest =
  rq_Transport :: string
  rq_Backend :: string
  rq_Token :: string
  rq_Version :: string
  rq_OS :: string
  rq_Arch :: string
  rq_HostKey :: string

record RegisterResponse =
  rp_OK :: bool
  rp_Backend :: string
  rp_Error :: string
  rp_UpdateAvailable :: bool
  rp_LatestVersion :: string

definition transportName :: string where
  "transportName = ''openssh-forward-v1''"

text \<open>\<open>WriteRegister\<close> fills in the transport of what it sends.\<close>

definition WriteRegister :: "RegisterRequest \<Rightarrow> RegisterRequest" where
  "WriteRegister req = req\<lparr>rq_Transport := transportName\<rparr>"

text \<open>
  Reading a message takes at most \<open>maxMessage\<close> bytes of the stream; \<open>decode\<close> is the JSON decoder.
\<close>

definition maxMessage :: nat where "maxMessage = 65536"

definition ReadRegister :: "(string \<Rightarrow> RegisterRequest option) \<Rightarrow> string \<Rightarrow> RegisterRequest option" where
  "ReadRegister decode stream = decode (take maxMessage stream)"

definition ReadResponse :: "(string \<Rightarrow> RegisterResponse option) \<Rightarrow> string \<Rightarrow> RegisterResponse option" where
  "ReadResponse decode stream = decode (take maxMessage stream)"

text \<open>\<open>encode\<close> is the JSON encoder and the stream it writes to; it may fail.\<close>

definition WriteResponse :: "(RegisterResponse \<Rightarrow> string option) \<Rightarrow> RegisterResponse \<Rightarrow> string option" where
  "WriteResponse encode resp = encode resp"

text \<open>
  The header of an update over a stream, which neither side sends any more. Reading it has no limit.
\<close>

record UpdateHeader =
  uh_Version :: string
  uh_Size :: "64 word"
  uh_SHA256 :: string
  uh_Signature :: string

definition WriteUpdateHeader :: "(UpdateHeader \<Rightarrow> string option) \<Rightarrow> UpdateHeader \<Rightarrow> string option" where
  "WriteUpdateHeader encode header = encode header"

definition ReadUpdateHeader :: "(string \<Rightarrow> UpdateHeader option) \<Rightarrow> string \<Rightarrow> UpdateHeader option" where
  "ReadUpdateHeader decode stream = decode stream"

text \<open>A decoder of JSON takes the first value of a stream and no more.\<close>

lemma message_over_wire:
  assumes "\<And>x rest. decode (encode x @ rest) = Some x" "length (encode resp) \<le> maxMessage"
  shows "ReadResponse decode (the (WriteResponse (Some \<circ> encode) resp) @ rest) = Some resp"
  using assms(1) [of resp "take (maxMessage - length (encode resp)) rest"] assms(2)
  by (simp add: ReadResponse_def WriteResponse_def)

lemma header_over_wire:
  assumes "\<And>x rest. decode (encode x @ rest) = Some x"
  shows "ReadUpdateHeader decode (the (WriteUpdateHeader (Some \<circ> encode) header) @ rest) = Some header"
  using assms by (simp add: ReadUpdateHeader_def WriteUpdateHeader_def)

definition refusal :: "string \<Rightarrow> RegisterResponse" where
  "refusal msg = \<lparr>rp_OK = False, rp_Backend = [], rp_Error = msg, rp_UpdateAvailable = False,
     rp_LatestVersion = []\<rparr>"

subsection \<open>The registry\<close>

type_synonym session = nat

record connection =
  cn_session :: session
  cn_hostKey :: string
  cn_version :: string
  cn_os :: string
  cn_arch :: string
  cn_connectedAt :: time
  cn_remoteAddr :: string

type_synonym Registry = "string \<rightharpoonup> connection"

definition NewRegistry :: Registry where
  "NewRegistry = Map.empty"

definition registerConn ::
  "Registry \<Rightarrow> string \<Rightarrow> session \<Rightarrow> string \<Rightarrow> RegisterRequest \<Rightarrow> string \<Rightarrow> time \<Rightarrow> Registry option" where
  "registerConn r backend s hostKey req remoteAddr now =
     (case r backend of
        Some _ \<Rightarrow> None
      | None \<Rightarrow> Some (r(backend \<mapsto>
          \<lparr>cn_session = s, cn_hostKey = hostKey, cn_version = rq_Version req, cn_os = rq_OS req,
           cn_arch = rq_Arch req, cn_connectedAt = now, cn_remoteAddr = remoteAddr\<rparr>)))"

definition emptyRequest :: RegisterRequest where
  "emptyRequest = \<lparr>rq_Transport = [], rq_Backend = [], rq_Token = [], rq_Version = [], rq_OS = [],
     rq_Arch = [], rq_HostKey = []\<rparr>"

definition register :: "Registry \<Rightarrow> string \<Rightarrow> session \<Rightarrow> time \<Rightarrow> Registry option" where
  "register r backend s now = registerConn r backend s [] emptyRequest [] now"

definition HostKey :: "Registry \<Rightarrow> string \<Rightarrow> string" where
  "HostKey r backend = (case r backend of Some c \<Rightarrow> cn_hostKey c | None \<Rightarrow> [])"

definition unregister :: "Registry \<Rightarrow> string \<Rightarrow> session \<Rightarrow> Registry" where
  "unregister r backend s =
     (case r backend of
        Some cur \<Rightarrow> if cn_session cur = s then r(backend := None) else r
      | None \<Rightarrow> r)"

datatype openError = ContextDone | NotConnected string | OpenStreamFailed string

text \<open>\<open>openStream s\<close> says whether the session still takes a stream.\<close>

definition Open :: "Registry \<Rightarrow> bool \<Rightarrow> (session \<Rightarrow> bool) \<Rightarrow> string \<Rightarrow> openError + session" where
  "Open r ctxDone openStream backend =
     (if ctxDone then Inl ContextDone
      else case r backend of
        None \<Rightarrow> Inl (NotConnected backend)
      | Some c \<Rightarrow>
          if openStream (cn_session c) then Inr (cn_session c) else Inl (OpenStreamFailed backend))"

record BackendStatus =
  bs_Backend :: string
  bs_Online :: bool
  bs_Version :: string
  bs_OS :: string
  bs_Arch :: string
  bs_ConnectedAt :: time
  bs_RemoteAddr :: string
  bs_HostKey :: string

definition statusOf :: "string \<Rightarrow> connection \<Rightarrow> BackendStatus" where
  "statusOf i c = \<lparr>bs_Backend = i, bs_Online = True, bs_Version = cn_version c, bs_OS = cn_os c,
     bs_Arch = cn_arch c, bs_ConnectedAt = cn_connectedAt c, bs_RemoteAddr = cn_remoteAddr c,
     bs_HostKey = cn_hostKey c\<rparr>"

text \<open>\<open>Status\<close>, from the entries of the map in whatever order Go visits them.\<close>

definition Status :: "(string \<times> connection) list \<Rightarrow> BackendStatus list" where
  "Status entries = sort_key bs_Backend (map (\<lambda>(i, c). statusOf i c) entries)"

subsection \<open>Registration, on the hub\<close>

text \<open>The resolver that \<open>cmd/sshhub/main.go\<close> hands the server.\<close>

definition resolveToken :: "Config \<Rightarrow> string \<Rightarrow> string \<Rightarrow> string option" where
  "resolveToken cfg token requestedBackend =
     (case BackendByToken cfg token of
        Some b \<Rightarrow> Some (be_ID b)
      | None \<Rightarrow>
          if requestedBackend \<noteq> [] \<and> token \<in> set (cfg_ControlTokens cfg) then
            (case BackendByID cfg requestedBackend of
               Some b \<Rightarrow> if be_Mode b = ''reverse'' then Some (be_ID b) else None
             | None \<Rightarrow> None)
          else None)"

datatype registerError =
    AcceptStreamFailed
  | ReadRegisterFailed
  | RegistrationError string
  | UnsupportedTransport
  | WriteResponseFailed

text \<open>What the log shows of an error with a message, and of an agent's version.\<close>

definition RegistrationErrorText :: "string \<Rightarrow> string" where
  "RegistrationErrorText msg = ''registration failed: '' @ msg"

definition versionOrUnknown :: "string \<Rightarrow> string" where
  "versionOrUnknown v = (if v = [] then ''unknown'' else v)"

text \<open>
  \<open>Server.register\<close>: \<open>accepted\<close> says whether a stream came, \<open>input\<close> what was read from it,
  \<open>written\<close> whether the answer could be written. The answers sent are returned too.
\<close>

definition serverRegister ::
  "(string \<Rightarrow> string \<Rightarrow> string option) \<Rightarrow> string \<Rightarrow> bool \<Rightarrow> RegisterRequest option \<Rightarrow> bool \<Rightarrow>
   (registerError + string \<times> RegisterRequest) \<times> RegisterResponse list" where
  "serverRegister resolve hubVersion accepted input written =
     (if \<not> accepted then (Inl AcceptStreamFailed, [])
      else case input of
        None \<Rightarrow> (Inl ReadRegisterFailed, [])
      | Some req \<Rightarrow>
          if rq_Token req = [] then
            (Inl (RegistrationError ''token is required''), [refusal ''token is required''])
          else if rq_Transport req \<noteq> transportName then
            (Inl UnsupportedTransport,
             [refusal ''legacy embedded agents are not supported; migrate to OpenSSH forwarding''])
          else case resolve (rq_Token req) (rq_Backend req) of
            None \<Rightarrow> (Inl (RegistrationError ''invalid token''), [refusal ''invalid token''])
          | Some backendID \<Rightarrow>
              let updateAvailable = (rq_Version req \<noteq> [] \<and> IsNewer hubVersion (rq_Version req));
                  resp = \<lparr>rp_OK = True, rp_Backend = backendID, rp_Error = [],
                          rp_UpdateAvailable = updateAvailable, rp_LatestVersion = hubVersion\<rparr>
              in if written then (Inr (backendID, req), [resp])
                 else (Inl WriteResponseFailed, [resp]))"

lemma serverRegister_unread: "serverRegister resolve v True None written = (Inl ReadRegisterFailed, [])"
  by (simp add: serverRegister_def)

subsection \<open>Registration, on the agent\<close>

datatype clientError =
    OpenStreamError
  | WriteRegisterFailed
  | ReadResponseFailed
  | ClientRefused string

text \<open>The client's \<open>register\<close>: \<open>reply\<close> is what the hub answers to the request it receives.\<close>

definition clientRequest :: "string \<Rightarrow> string \<Rightarrow> string \<Rightarrow> string \<Rightarrow> string \<Rightarrow> string \<Rightarrow> RegisterRequest" where
  "clientRequest backend token hostKey version goos arch =
     \<lparr>rq_Transport = [], rq_Backend = backend, rq_Token = token, rq_Version = version,
      rq_OS = goos, rq_Arch = arch, rq_HostKey = hostKey\<rparr>"

definition clientRegister ::
  "(RegisterRequest \<Rightarrow> RegisterResponse option) \<Rightarrow> bool \<Rightarrow> bool \<Rightarrow> string \<Rightarrow> string \<Rightarrow> string \<Rightarrow>
   string \<Rightarrow> string \<Rightarrow> string \<Rightarrow> clientError + string" where
  "clientRegister reply opened written backend token hostKey version goos arch =
     (if \<not> opened then Inl OpenStreamError
      else let req = clientRequest backend token hostKey version goos arch in
      if \<not> written then Inl WriteRegisterFailed
      else case reply (WriteRegister req) of
        None \<Rightarrow> Inl ReadResponseFailed
      | Some resp \<Rightarrow>
          if \<not> rp_OK resp then Inl (ClientRefused (rp_Error resp))
          else let assigned = rp_Backend resp;
                   assigned = (if assigned = [] then backend else assigned)
               in Inr assigned)"

subsection \<open>Connection handlers\<close>

text \<open>
  A handler waits for its registration, has been told its backend, or is connected and waits
  for its session to close. A session closes at any time; the handler takes it out of the
  registry in a later step. \<open>slots\<close> is the channel of 256 places.
\<close>

datatype phase =
    Registering
  | Resolved string RegisterRequest
  | Connected string RegisterRequest

record Hub =
  hub_registry :: Registry
  hub_handlers :: "session \<rightharpoonup> phase"
  hub_closed :: "session set"
  hub_slots :: nat
  hub_next :: session

definition handlerSlots :: nat where "handlerSlots = 256"

definition startHub :: Hub where
  "startHub = \<lparr>hub_registry = NewRegistry, hub_handlers = Map.empty, hub_closed = {},
     hub_slots = 0, hub_next = 0\<rparr>"

definition endHandler :: "Hub \<Rightarrow> session \<Rightarrow> Hub" where
  "endHandler h s = h\<lparr>hub_handlers := (hub_handlers h)(s := None), hub_slots := hub_slots h - 1,
     hub_closed := insert s (hub_closed h)\<rparr>"

inductive hubStep :: "Config \<Rightarrow> string \<Rightarrow> Hub \<Rightarrow> Hub \<Rightarrow> bool" for cfg hubVersion where
  Accept:
    "hub_slots h < handlerSlots \<Longrightarrow>
     hubStep cfg hubVersion h (h\<lparr>hub_handlers := (hub_handlers h)(hub_next h \<mapsto> Registering),
       hub_slots := hub_slots h + 1, hub_next := Suc (hub_next h)\<rparr>)"
| RegisterFails:
    "hub_handlers h s = Some Registering \<Longrightarrow>
     serverRegister (resolveToken cfg) hubVersion accepted input written = (Inl err, answers) \<Longrightarrow>
     hubStep cfg hubVersion h (endHandler h s)"
| RegisterSucceeds:
    "hub_handlers h s = Some Registering \<Longrightarrow>
     serverRegister (resolveToken cfg) hubVersion accepted input written =
       (Inr (backend, req), answers) \<Longrightarrow>
     hubStep cfg hubVersion h (h\<lparr>hub_handlers := (hub_handlers h)(s \<mapsto> Resolved backend req)\<rparr>)"
| Refuse:
    "hub_handlers h s = Some (Resolved backend req) \<Longrightarrow>
     registerConn (hub_registry h) backend s (rq_HostKey req) req addr now = None \<Longrightarrow>
     hubStep cfg hubVersion h (endHandler h s)"
| Enter:
    "hub_handlers h s = Some (Resolved backend req) \<Longrightarrow>
     registerConn (hub_registry h) backend s (rq_HostKey req) req addr now = Some r \<Longrightarrow>
     hubStep cfg hubVersion h (h\<lparr>hub_registry := r,
       hub_handlers := (hub_handlers h)(s \<mapsto> Connected backend req)\<rparr>)"
| Drop:
    "s < hub_next h \<Longrightarrow> hubStep cfg hubVersion h (h\<lparr>hub_closed := insert s (hub_closed h)\<rparr>)"
| Leave:
    "hub_handlers h s = Some (Connected backend req) \<Longrightarrow> s \<in> hub_closed h \<Longrightarrow>
     hubStep cfg hubVersion h
       ((endHandler h s)\<lparr>hub_registry := unregister (hub_registry h) backend s\<rparr>)"

inductive hubReach :: "Config \<Rightarrow> string \<Rightarrow> Hub \<Rightarrow> bool" for cfg hubVersion where
  Start: "hubReach cfg hubVersion startHub"
| Step: "hubReach cfg hubVersion h \<Longrightarrow> hubStep cfg hubVersion h h' \<Longrightarrow> hubReach cfg hubVersion h'"

inductive_cases hubStepE: "hubStep cfg hubVersion h h'"

subsection \<open>A table of sessions\<close>

text \<open>
  What the hub relies on in its registry: a name is entered only when it is free, and a
  session that leaves takes out its own entry and nobody else's.
\<close>

locale session_table =
  fixes lookup :: "'t \<Rightarrow> 'k \<Rightarrow> 's option"
    and enter :: "'t \<Rightarrow> 'k \<Rightarrow> 'e \<Rightarrow> 't option"
    and leave :: "'t \<Rightarrow> 'k \<Rightarrow> 's \<Rightarrow> 't"
    and session_of :: "'e \<Rightarrow> 's"
  assumes enter_None: "enter t k e = None \<longleftrightarrow> lookup t k \<noteq> None"
    and lookup_enter:
      "enter t k e = Some t' \<Longrightarrow> lookup t' j = (if j = k then Some (session_of e) else lookup t j)"
    and lookup_leave:
      "lookup (leave t k s) j = (if j = k \<and> lookup t k = Some s then None else lookup t j)"
begin

lemma enter_free: "enter t k e = Some t' \<Longrightarrow> lookup t k = None"
  using enter_None [of t k e] by simp

lemma leave_stale: "lookup t k \<noteq> Some s \<Longrightarrow> lookup (leave t k s) j = lookup t j"
  by (simp add: lookup_leave)

text \<open>Entering and leaving again is no change.\<close>

lemma enter_leave:
  "enter t k e = Some t' \<Longrightarrow> lookup (leave t' k (session_of e)) j = lookup t j"
  using enter_free [of t k e t'] by (simp add: lookup_leave lookup_enter)

text \<open>A session under one name stays under one name.\<close>

lemma enter_unique:
  assumes "enter t k e = Some t'" "\<And>i j s. lookup t i = Some s \<Longrightarrow> lookup t j = Some s \<Longrightarrow> i = j"
    and "\<And>i. lookup t i \<noteq> Some (session_of e)"
    and "lookup t' i = Some s" "lookup t' j = Some s"
  shows "i = j"
  using assms by (auto simp: lookup_enter split: if_splits)

end

definition lookupSession :: "Registry \<Rightarrow> string \<Rightarrow> session option" where
  "lookupSession r backend = map_option cn_session (r backend)"

type_synonym arrival = "session \<times> RegisterRequest \<times> string \<times> time"

definition enterArrival :: "Registry \<Rightarrow> string \<Rightarrow> arrival \<Rightarrow> Registry option" where
  "enterArrival r backend a =
     (case a of (s, req, addr, now) \<Rightarrow> registerConn r backend s (rq_HostKey req) req addr now)"

interpretation registry: session_table lookupSession enterArrival unregister fst
  by unfold_locales
    (auto simp: lookupSession_def enterArrival_def registerConn_def unregister_def
      split: option.splits)

lemma registerConn_enter:
  "registerConn r b s (rq_HostKey req) req addr now = enterArrival r b (s, req, addr, now)"
  by (simp add: enterArrival_def)

subsection \<open>What every reachable hub satisfies\<close>

definition authenticated :: "Config \<Rightarrow> string \<Rightarrow> RegisterRequest \<Rightarrow> bool" where
  "authenticated cfg b req \<longleftrightarrow>
     rq_Token req \<noteq> [] \<and> rq_Transport req = transportName \<and>
     resolveToken cfg (rq_Token req) (rq_Backend req) = Some b"

text \<open>The registered sessions are exactly those of the connected handlers.\<close>

definition tableInv :: "Registry \<Rightarrow> (session \<rightharpoonup> phase) \<Rightarrow> bool" where
  "tableInv r m \<longleftrightarrow>
     (\<forall>b s. lookupSession r b = Some s \<longleftrightarrow> (\<exists>req. m s = Some (Connected b req)))"

text \<open>The key the registry holds is the one the agent sent.\<close>

definition keyInv :: "Registry \<Rightarrow> (session \<rightharpoonup> phase) \<Rightarrow> bool" where
  "keyInv r m \<longleftrightarrow>
     (\<forall>b c req. r b = Some c \<longrightarrow> m (cn_session c) = Some (Connected b req) \<longrightarrow>
        cn_hostKey c = rq_HostKey req)"

definition authInv :: "Config \<Rightarrow> (session \<rightharpoonup> phase) \<Rightarrow> bool" where
  "authInv cfg m \<longleftrightarrow>
     (\<forall>s b req. m s = Some (Resolved b req) \<or> m s = Some (Connected b req) \<longrightarrow>
        authenticated cfg b req)"

definition hubInv :: "Config \<Rightarrow> Hub \<Rightarrow> bool" where
  "hubInv cfg h \<longleftrightarrow>
     tableInv (hub_registry h) (hub_handlers h) \<and> keyInv (hub_registry h) (hub_handlers h) \<and>
     authInv cfg (hub_handlers h) \<and> placesOK handlerSlots (hub_handlers h) (hub_slots h) (hub_next h)"

lemma hubInv_start: "hubInv cfg startHub"
  by (simp add: hubInv_def startHub_def NewRegistry_def lookupSession_def tableInv_def keyInv_def
      authInv_def placesOK_def)

lemma serverRegister_Inr:
  "serverRegister resolve v accepted input written = (Inr (b, req), answers) \<Longrightarrow>
   accepted \<and> written \<and> input = Some req \<and> rq_Token req \<noteq> [] \<and> rq_Transport req = transportName \<and>
   resolve (rq_Token req) (rq_Backend req) = Some b"
  by (auto simp: serverRegister_def Let_def split: if_splits option.splits)

lemma tableInv_iff:
  "tableInv r m \<Longrightarrow> lookupSession r b = Some s \<longleftrightarrow> (\<exists>req. m s = Some (Connected b req))"
  unfolding tableInv_def by blast

lemma tableInv_unconnected:
  assumes "tableInv r m" "\<And>b req. m s \<noteq> Some (Connected b req)"
    and "\<And>b req. p \<noteq> Some (Connected b req)"
  shows "tableInv r (m(s := p))"
  using assms unfolding tableInv_def by auto

lemma keyInv_unconnected:
  assumes "keyInv r m" "\<And>b req. p \<noteq> Some (Connected b req)"
  shows "keyInv r (m(s := p))"
  using assms unfolding keyInv_def by auto

lemma authInv_update:
  assumes "authInv cfg m"
    and "\<And>b req. p = Some (Resolved b req) \<or> p = Some (Connected b req) \<Longrightarrow> authenticated cfg b req"
  shows "authInv cfg (m(s := p))"
  using assms unfolding authInv_def by auto

lemma authInv_remove: "authInv cfg m \<Longrightarrow> authInv cfg (m(s := None))"
  by (rule authInv_update) simp_all

lemma hubInv_end:
  assumes "hubInv cfg h" "hub_handlers h s = Some p" "\<And>b req. p \<noteq> Connected b req"
  shows "hubInv cfg (endHandler h s)"
proof -
  have "hub_handlers h s \<noteq> Some (Connected b req)" for b req using assms(2,3) by simp
  moreover have "placesOK handlerSlots ((hub_handlers h)(s := None)) (hub_slots h - 1) (hub_next h)"
    using assms(1,2) by (intro placesOK_remove) (simp_all add: hubInv_def)
  ultimately show ?thesis using assms(1)
    by (simp add: hubInv_def endHandler_def tableInv_unconnected keyInv_unconnected authInv_remove)
qed

lemma hubInv_enter:
  assumes inv: "hubInv cfg h" and s: "hub_handlers h s = Some (Resolved b req)"
    and r: "registerConn (hub_registry h) b s (rq_HostKey req) req addr now = Some r"
  shows "hubInv cfg (h\<lparr>hub_registry := r,
    hub_handlers := (hub_handlers h)(s \<mapsto> Connected b req)\<rparr>)"
proof -
  note e = r [unfolded registerConn_enter]
  have t: "tableInv (hub_registry h) (hub_handlers h)" using inv by (simp add: hubInv_def)
  have look: "lookupSession r j = (if j = b then Some s else lookupSession (hub_registry h) j)" for j
    using registry.lookup_enter [OF e, of j] by simp
  have free: "lookupSession (hub_registry h) b = None" using registry.enter_free [OF e] .
  have notreg: "lookupSession (hub_registry h) j \<noteq> Some s" for j
    using tableInv_iff [OF t, of j s] s by auto
  have nobody: "hub_handlers h u \<noteq> Some (Connected b q)" for u q
    using tableInv_iff [OF t, of b u] free by auto
  have "lookupSession r j = Some u \<longleftrightarrow>
      (\<exists>q. ((hub_handlers h)(s \<mapsto> Connected b req)) u = Some (Connected j q))" for j u
    using tableInv_iff [OF t, of j u] look [of j] notreg [of j] nobody [of u]
    by (cases "u = s"; cases "j = b") auto
  then have "tableInv r ((hub_handlers h)(s \<mapsto> Connected b req))" unfolding tableInv_def by blast
  moreover have "keyInv r ((hub_handlers h)(s \<mapsto> Connected b req))"
  proof -
    have "r j = (if j = b then Some \<lparr>cn_session = s, cn_hostKey = rq_HostKey req,
        cn_version = rq_Version req, cn_os = rq_OS req, cn_arch = rq_Arch req,
        cn_connectedAt = now, cn_remoteAddr = addr\<rparr> else hub_registry h j)" for j
      using r by (auto simp: registerConn_def split: option.splits)
    moreover have "hub_registry h j = Some c \<Longrightarrow> cn_session c \<noteq> s" for j c
      using notreg [of j] by (auto simp: lookupSession_def)
    ultimately show ?thesis
      using inv by (auto simp: hubInv_def keyInv_def split: if_splits)
  qed
  moreover have "authenticated cfg b req" using inv s by (auto simp: hubInv_def authInv_def)
  ultimately show ?thesis
    using inv s by (auto simp: hubInv_def intro!: authInv_update placesOK_change)
qed

lemma hubInv_leave:
  assumes inv: "hubInv cfg h" and s: "hub_handlers h s = Some (Connected b req)"
  shows "hubInv cfg ((endHandler h s)\<lparr>hub_registry := unregister (hub_registry h) b s\<rparr>)"
proof -
  have t: "tableInv (hub_registry h) (hub_handlers h)" using inv by (simp add: hubInv_def)
  have here: "lookupSession (hub_registry h) b = Some s" using tableInv_iff [OF t] s by blast
  have look: "lookupSession (unregister (hub_registry h) b s) j =
      (if j = b then None else lookupSession (hub_registry h) j)" for j
    using registry.lookup_leave [of "hub_registry h" b s j] here by simp
  have only: "lookupSession (hub_registry h) j = Some s \<longleftrightarrow> j = b" for j
    using tableInv_iff [OF t, of j s] s here by auto
  have one: "hub_handlers h u = Some (Connected b q) \<Longrightarrow> u = s" for u q
    using tableInv_iff [OF t, of b u] here by auto
  have "lookupSession (unregister (hub_registry h) b s) j = Some u \<longleftrightarrow>
      (\<exists>q. ((hub_handlers h)(s := None)) u = Some (Connected j q))" for j u
  proof (cases "u = s")
    case True
    with look [of j] only [of j] show ?thesis by simp
  next
    case False
    with one [of u] have "\<not> (\<exists>q. hub_handlers h u = Some (Connected b q))" by blast
    with False tableInv_iff [OF t, of j u] look [of j] show ?thesis by (cases "j = b") simp_all
  qed
  then have "tableInv (unregister (hub_registry h) b s) ((hub_handlers h)(s := None))"
    unfolding tableInv_def by blast
  moreover have "keyInv (unregister (hub_registry h) b s) ((hub_handlers h)(s := None))"
  proof -
    have "unregister (hub_registry h) b s j = Some c \<Longrightarrow> hub_registry h j = Some c" for j c
      by (auto simp: unregister_def split: option.splits if_splits)
    moreover have "keyInv (hub_registry h) (hub_handlers h)" using inv by (simp add: hubInv_def)
    ultimately show ?thesis unfolding keyInv_def by (metis fun_upd_apply option.distinct(1))
  qed
  moreover have "placesOK handlerSlots ((hub_handlers h)(s := None)) (hub_slots h - 1) (hub_next h)"
    using inv s by (intro placesOK_remove) (simp_all add: hubInv_def)
  ultimately show ?thesis
    using inv by (simp add: hubInv_def endHandler_def authInv_remove)
qed

lemma hubInv_step:
  assumes "hubStep cfg hubVersion h h'" "hubInv cfg h"
  shows "hubInv cfg h'"
  using assms
proof (induction rule: hubStep.induct)
  case (Accept h)
  have "hub_handlers h (hub_next h) = None"
    using Accept by (auto simp: hubInv_def placesOK_def)
  with Accept placesOK_add [of handlerSlots "hub_handlers h" "hub_slots h" "hub_next h"] show ?case
    by (auto simp: hubInv_def intro!: tableInv_unconnected keyInv_unconnected authInv_update)
next
  case (RegisterFails h s accepted input written err answers)
  then show ?case by (auto intro: hubInv_end)
next
  case (RegisterSucceeds h s accepted input written backend req answers)
  then have "authenticated cfg backend req"
    by (auto simp: authenticated_def dest: serverRegister_Inr)
  with RegisterSucceeds show ?case
    by (auto simp: hubInv_def intro!: tableInv_unconnected keyInv_unconnected authInv_update
        placesOK_change)
next
  case (Refuse h s backend req addr now)
  then show ?case by (auto intro: hubInv_end)
next
  case (Enter h s backend req addr now r)
  then show ?case by (auto intro: hubInv_enter)
next
  case (Drop s h)
  then show ?case by (simp add: hubInv_def)
next
  case (Leave h s backend req)
  then show ?case by (auto intro: hubInv_leave)
qed

lemma hubInv_reach: "hubReach cfg hubVersion h \<Longrightarrow> hubInv cfg h"
  by (induction rule: hubReach.induct) (auto intro: hubInv_start hubInv_step)

lemma hubInv_registered:
  assumes "hubInv cfg h" "hub_registry h b = Some c"
  shows "\<exists>req. hub_handlers h (cn_session c) = Some (Connected b req) \<and>
    authenticated cfg b req \<and> cn_hostKey c = rq_HostKey req"
proof -
  have "lookupSession (hub_registry h) b = Some (cn_session c)"
    using assms(2) by (simp add: lookupSession_def)
  then obtain req where "hub_handlers h (cn_session c) = Some (Connected b req)"
    using assms(1) tableInv_iff by (auto simp: hubInv_def)
  moreover from this assms have "authenticated cfg b req" "cn_hostKey c = rq_HostKey req"
    unfolding hubInv_def authInv_def keyInv_def by blast+
  ultimately show ?thesis by blast
qed

lemma resolveToken_valid:
  assumes "Validate parseKey c0 = Inr cfg" "resolveToken cfg token requested = Some b"
  shows "\<exists>bk. bk \<in> set (cfg_Backends cfg) \<and> be_ID bk = b \<and> be_Token bk = token \<and> token \<noteq> []"
proof -
  have "cfg_ControlTokens cfg = []"
    using ValidateD(1) [OF assms(1)] by (simp add: validConfig_def Let_def)
  with assms(2) obtain bk where "BackendByToken cfg token = Some bk" "be_ID bk = b"
    by (auto simp: resolveToken_def split: option.splits)
  with BackendByToken_SomeD show ?thesis by blast
qed

subsection \<open>The sessions the hub promises\<close>

text \<open>
  The abstract hub: which session serves each backend. A session that serves none starts to
  serve a free backend whose token its agent presented; a session that serves one stops.
\<close>

inductive sessionSpec :: "Config \<Rightarrow> (string \<rightharpoonup> session) \<Rightarrow> (string \<rightharpoonup> session) \<Rightarrow> bool" for cfg where
  Join:
    "t b = None \<Longrightarrow> s \<notin> ran t \<Longrightarrow> authenticated cfg b req \<Longrightarrow> sessionSpec cfg t (t(b \<mapsto> s))"
| Part: "t b = Some s \<Longrightarrow> sessionSpec cfg t (t(b := None))"

definition absHub :: "Hub \<Rightarrow> (string \<rightharpoonup> session)" where
  "absHub h = lookupSession (hub_registry h)"

lemma lookupSession_enter:
  assumes "registerConn r b s (rq_HostKey req) req addr now = Some r'"
  shows "lookupSession r' = (lookupSession r)(b \<mapsto> s)" "lookupSession r b = None"
  using assms registry.lookup_enter [of r b "(s, req, addr, now)"] registry.enter_free
  by (auto simp: registerConn_enter fun_eq_iff)

lemma lookupSession_leave:
  "lookupSession r b = Some s \<Longrightarrow> lookupSession (unregister r b s) = (lookupSession r)(b := None)"
  by (auto simp: registry.lookup_leave fun_eq_iff)

lemma hubStep_refines:
  assumes "hubStep cfg hubVersion h h'" "hubInv cfg h"
  shows "absHub h' = absHub h \<or> sessionSpec cfg (absHub h) (absHub h')"
  using assms
proof (induction rule: hubStep.induct)
  case (Enter h s backend req addr now r)
  then have inv: "tableInv (hub_registry h) (hub_handlers h)" "authenticated cfg backend req"
    by (auto simp: hubInv_def authInv_def)
  have "s \<notin> ran (absHub h)"
    using tableInv_iff [OF inv(1)] Enter(1) by (auto simp: absHub_def ran_def)
  then have "sessionSpec cfg (absHub h) ((absHub h)(backend \<mapsto> s))"
    using Enter(2) inv(2) by (intro Join) (simp_all add: absHub_def lookupSession_enter)
  then show ?case
    by (simp add: absHub_def lookupSession_enter(1) [OF Enter(2)] del: fun_upd_apply)
next
  case (Leave h s backend req)
  then have "lookupSession (hub_registry h) backend = Some s"
    using tableInv_iff [of "hub_registry h" "hub_handlers h"] by (auto simp: hubInv_def)
  then have "sessionSpec cfg (absHub h) ((absHub h)(backend := None))"
    by (intro Part) (simp add: absHub_def)
  with \<open>lookupSession (hub_registry h) backend = Some s\<close> show ?case
    by (simp add: absHub_def endHandler_def lookupSession_leave del: fun_upd_apply)
qed (simp_all add: absHub_def endHandler_def)

subsection \<open>Getting in\<close>

definition hubSteps :: "Config \<Rightarrow> string \<Rightarrow> Hub \<Rightarrow> Hub \<Rightarrow> bool" where
  "hubSteps cfg hubVersion = rtranclp (hubStep cfg hubVersion)"

lemma valid_agent_enters:
  assumes inv: "hubInv cfg h" and free: "hub_slots h < handlerSlots"
    and auth: "authenticated cfg b req" and b: "hub_registry h b = None"
  shows "\<exists>h' c. hubSteps cfg hubVersion h h' \<and> hub_registry h' b = Some c \<and>
    cn_hostKey c = rq_HostKey req"
proof -
  let ?s = "hub_next h"
  define h1 where "h1 = h\<lparr>hub_handlers := (hub_handlers h)(?s \<mapsto> Registering),
    hub_slots := hub_slots h + 1, hub_next := Suc ?s\<rparr>"
  define h2 where "h2 = h1\<lparr>hub_handlers := (hub_handlers h1)(?s \<mapsto> Resolved b req)\<rparr>"
  define c where "c = \<lparr>cn_session = ?s, cn_hostKey = rq_HostKey req, cn_version = rq_Version req,
    cn_os = rq_OS req, cn_arch = rq_Arch req, cn_connectedAt = 0, cn_remoteAddr = []\<rparr>"
  define h3 where "h3 = h2\<lparr>hub_registry := (hub_registry h)(b \<mapsto> c),
    hub_handlers := (hub_handlers h2)(?s \<mapsto> Connected b req)\<rparr>"
  have 1: "hubStep cfg hubVersion h h1" unfolding h1_def by (rule Accept [OF free])
  obtain answers where reg: "serverRegister (resolveToken cfg) hubVersion True (Some req) True =
      (Inr (b, req), answers)"
    using auth by (simp add: authenticated_def serverRegister_def Let_def)
  have 2: "hubStep cfg hubVersion h1 h2"
    unfolding h2_def by (rule RegisterSucceeds [OF _ reg]) (simp add: h1_def)
  have "registerConn (hub_registry h2) b ?s (rq_HostKey req) req [] 0 = Some ((hub_registry h)(b \<mapsto> c))"
    using b by (simp add: registerConn_def h2_def h1_def c_def)
  then have 3: "hubStep cfg hubVersion h2 h3"
    unfolding h3_def by (intro Enter) (simp_all add: h2_def)
  have "hubSteps cfg hubVersion h h3"
    unfolding hubSteps_def
    by (rule converse_rtranclp_into_rtranclp, rule 1, rule converse_rtranclp_into_rtranclp, rule 2,
        rule r_into_rtranclp, rule 3)
  then show ?thesis by (intro exI [of _ h3] exI [of _ c]) (simp add: h3_def c_def)
qed

subsection \<open>The status list\<close>

lemma Status_order:
  assumes "distinct (map fst es)" "distinct (map fst es')" "map_of es = map_of es'"
  shows "Status es = Status es'"
proof -
  let ?st = "\<lambda>(i, c). statusOf i c"
  have key: "bs_Backend (?st e) = fst e" for e by (cases e) (simp add: statusOf_def)
  have "set es = set es'"
    using assms by (metis map_of_eq_Some_iff subrelI subset_antisym)
  moreover have "distinct es" "distinct es'" using assms by (simp_all add: distinct_map)
  ultimately have "mset es = mset es'" by (simp add: set_eq_iff_mset_eq_distinct)
  then have m: "mset (map ?st es) = mset (sort_key bs_Backend (map ?st es'))" by simp
  have "inj_on fst (set es)" using assms(1) by (simp add: distinct_map)
  then have "inj_on bs_Backend (set (map ?st es))"
    by (force simp: inj_on_def key)
  from sort_key_inj_key_eq [OF m this] show ?thesis by (simp add: Status_def)
qed

lemma Status_sorted:
  assumes "distinct (map fst es)"
  shows "sorted (map bs_Backend (Status es))" "distinct (map bs_Backend (Status es))"
    "set (map bs_Backend (Status es)) = fst ` set es"
proof -
  have "map bs_Backend (map (\<lambda>(i, c). statusOf i c) es) = map fst es"
    by (auto simp: statusOf_def)
  then have key: "image_mset bs_Backend (mset (map (\<lambda>(i, c). statusOf i c) es)) = mset (map fst es)"
    by (metis mset_map)
  show "sorted (map bs_Backend (Status es))" by (simp add: Status_def)
  have "mset (map bs_Backend (Status es)) = mset (map fst es)"
    unfolding Status_def mset_map mset_sort key [unfolded mset_map] ..
  then show "distinct (map bs_Backend (Status es))"
    "set (map bs_Backend (Status es)) = fst ` set es"
    using assms by (metis mset_eq_imp_distinct_iff, metis list.set_map mset_eq_setD)
qed

subsection \<open>A hub with one agent\<close>

definition exampleRequest :: RegisterRequest where
  "exampleRequest = \<lparr>rq_Transport = transportName, rq_Backend = [], rq_Token = ''t1'',
     rq_Version = ''0.8.0'', rq_OS = ''linux'', rq_Arch = ''amd64'', rq_HostKey = ''key1''\<rparr>"

definition exampleConnection :: connection where
  "exampleConnection = \<lparr>cn_session = 1, cn_hostKey = ''key1'', cn_version = ''0.8.0'',
     cn_os = ''linux'', cn_arch = ''amd64'', cn_connectedAt = 5, cn_remoteAddr = ''10.0.0.9:4''\<rparr>"

abbreviation exampleValid :: Config where
  "exampleValid \<equiv> exampleConfig\<lparr>cfg_Routes := map normalizeRoute (cfg_Routes exampleConfig)\<rparr>"

lemma exampleRequest_authenticated: "authenticated exampleValid ''web1'' exampleRequest"
  by code_simp

lemma example_connected:
  "\<exists>h c. hubReach exampleValid ''0.9.0'' h \<and> hub_registry h ''web1'' = Some c \<and>
     cn_hostKey c = ''key1''"
proof -
  have start: "hubReach exampleValid ''0.9.0'' startHub" by (rule Start)
  from valid_agent_enters [OF hubInv_start _ exampleRequest_authenticated, of "''0.9.0''"]
  obtain h c where "hubSteps exampleValid ''0.9.0'' startHub h" "hub_registry h ''web1'' = Some c"
    "cn_hostKey c = ''key1''"
    by (auto simp: startHub_def handlerSlots_def NewRegistry_def exampleRequest_def)
  moreover from this(1) start have "hubReach exampleValid ''0.9.0'' h"
    unfolding hubSteps_def by (induction rule: rtranclp_induct) (auto intro: Step)
  ultimately show ?thesis by blast
qed

subsection \<open>Properties\<close>

text \<open>C12: nobody is registered without the token. In every state the hub can reach, however its
  handlers interleave, the session registered for a backend belongs to a live handler whose
  agent presented exactly that backend's token of the validated configuration, over the
  OpenSSH transport; and the pinned host key is the one that agent sent.\<close>

theorem registered_agent_authenticated:
  assumes "Validate parseKey c0 = Inr cfg" "hubReach cfg hubVersion h"
    and "hub_registry h b = Some c"
  shows "\<exists>req bk. hub_handlers h (cn_session c) = Some (Connected b req) \<and>
    bk \<in> set (cfg_Backends cfg) \<and> be_ID bk = b \<and> be_Token bk = rq_Token req \<and> rq_Token req \<noteq> [] \<and>
    rq_Transport req = transportName \<and> cn_hostKey c = rq_HostKey req"
  using hubInv_registered [OF hubInv_reach [OF assms(2)] assms(3)] resolveToken_valid [OF assms(1)]
  unfolding authenticated_def by metis

theorem registered_agent_authenticated_witness:
  "\<exists>(h::Hub) c req (bk::Backend). hub_registry h ''web1'' = Some c \<and>
     hub_handlers h (cn_session c) = Some (Connected ''web1'' req) \<and>
     be_ID bk = ''web1'' \<and> be_Token bk = rq_Token req"
proof -
  obtain h c where "hubReach exampleValid ''0.9.0'' h" "hub_registry h ''web1'' = Some c"
    using example_connected by blast
  from registered_agent_authenticated [OF exampleConfig_valid this] this(2) show ?thesis by blast
qed

text \<open>C20: one agent per backend. In every reachable state two connected handlers of one backend
  are the same handler, so a second agent with the token never displaces or shadows the
  first, and at most 256 handlers are alive.\<close>

theorem one_agent_per_backend:
  assumes "hubReach cfg hubVersion h"
    and "hub_handlers h s = Some (Connected b req)" "hub_handlers h s' = Some (Connected b req')"
  shows "s = s' \<and> card (dom (hub_handlers h)) \<le> handlerSlots"
proof -
  have inv: "hubInv cfg h" using assms(1) by (rule hubInv_reach)
  then have t: "tableInv (hub_registry h) (hub_handlers h)" by (simp add: hubInv_def)
  have "lookupSession (hub_registry h) b = Some s" "lookupSession (hub_registry h) b = Some s'"
    using tableInv_iff [OF t] assms(2,3) by blast+
  then show ?thesis using inv by (simp add: hubInv_def placesOK_def)
qed

theorem one_agent_per_backend_witness:
  "\<exists>(h::Hub) s req. hub_handlers h s = Some (Connected ''web1'' req) \<and>
     card (dom (hub_handlers h)) \<le> handlerSlots"
proof -
  obtain h c where h: "hubReach exampleValid ''0.9.0'' h" "hub_registry h ''web1'' = Some c"
    using example_connected by blast
  from hubInv_registered [OF hubInv_reach [OF h(1)] h(2)] obtain req
    where c: "hub_handlers h (cn_session c) = Some (Connected ''web1'' req)" by blast
  from one_agent_per_backend [OF h(1) c c] c show ?thesis by blast
qed

text \<open>C33: an agent gets in. From every reachable state with a free handler and a backend that is
  not connected, an agent that presents the backend's token can become its registered
  session with its host key, whatever the other handlers are doing.\<close>

theorem agent_can_register:
  assumes "hubReach cfg hubVersion h" "hub_slots h < handlerSlots" "authenticated cfg b req"
    and "hub_registry h b = None"
  shows "\<exists>h' c. hubSteps cfg hubVersion h h' \<and> hub_registry h' b = Some c \<and>
    cn_hostKey c = rq_HostKey req"
  using hubInv_reach [OF assms(1)] assms(2-4) by (rule valid_agent_enters)

theorem agent_can_register_witness:
  "\<exists>h' c. hubSteps exampleValid ''0.9.0'' startHub h' \<and> hub_registry h' ''web1'' = Some c \<and>
     cn_hostKey c = rq_HostKey exampleRequest"
  by (rule agent_can_register [OF Start _ exampleRequest_authenticated])
    (simp_all add: startHub_def handlerSlots_def NewRegistry_def)

text \<open>C21: the hub implements the table of sessions it promises. Every step of every reachable hub,
  whatever it does to its handlers, slots and messages, leaves the sessions as they are or is a
  step of the abstract table: a session without a backend takes a free one whose token its
  agent presented, or a session gives its own backend up.\<close>

theorem hub_refines_sessions:
  assumes "hubReach cfg hubVersion h" "hubStep cfg hubVersion h h'"
  shows "absHub h' = absHub h \<or> sessionSpec cfg (absHub h) (absHub h')"
  using assms(2) hubInv_reach [OF assms(1)] by (rule hubStep_refines)

theorem hub_refines_sessions_witness:
  "\<exists>h h'. hubStep exampleValid ''0.9.0'' h h' \<and> absHub h' \<noteq> absHub h \<and>
     sessionSpec exampleValid (absHub h) (absHub h')"
proof -
  have moved: "\<exists>h1 h2. hubReach exampleValid ''0.9.0'' h1 \<and> hubStep exampleValid ''0.9.0'' h1 h2 \<and>
      absHub h2 \<noteq> absHub h1" if "hubReach exampleValid ''0.9.0'' h" "absHub h \<noteq> absHub startHub" for h
    using that by (induction rule: hubReach.induct) metis+
  obtain h c where h: "hubReach exampleValid ''0.9.0'' h" "hub_registry h ''web1'' = Some c"
    using example_connected by blast
  then have "absHub h ''web1'' \<noteq> absHub startHub ''web1''"
    by (simp add: absHub_def lookupSession_def startHub_def NewRegistry_def)
  then obtain h1 h2 where "hubReach exampleValid ''0.9.0'' h1" "hubStep exampleValid ''0.9.0'' h1 h2"
    "absHub h2 \<noteq> absHub h1"
    using moved [OF h(1)] by metis
  with hub_refines_sessions show ?thesis by blast
qed

text \<open>Hub and agent agree on a registration. When the messages arrive, the agent is told the
  backend that the hub resolved its token to, or a refusal with the hub's reason.\<close>

theorem registration_agrees:
  "clientRegister (\<lambda>r. case snd (serverRegister resolve hubVersion True (Some r) True) of
       [] \<Rightarrow> None | a # _ \<Rightarrow> Some a) True True requested token hostKey version goos arch =
   (if token = [] then Inl (ClientRefused ''token is required'')
    else case resolve token requested of
      None \<Rightarrow> Inl (ClientRefused ''invalid token'')
    | Some b \<Rightarrow> Inr (if b = [] then requested else b))"
  by (auto simp: clientRegister_def serverRegister_def WriteRegister_def clientRequest_def
      refusal_def Let_def split: option.splits)

text \<open>The same over the wire: each side writes its message in JSON and reads at most 64 KiB. When the
  messages fit and JSON reads back what it wrote, they agree as above; a longer request is not
  read, and the agent gets no answer.\<close>

theorem registration_over_wire:
  fixes requested token hostKey version goos arch hubVersion :: string
    and resolve :: "string \<Rightarrow> string \<Rightarrow> string option"
    and encodeReq :: "RegisterRequest \<Rightarrow> string" and encodeResp :: "RegisterResponse \<Rightarrow> string"
    and decodeReq decodeResp
  defines "req \<equiv> WriteRegister (clientRequest requested token hostKey version goos arch)"
  defines "answer \<equiv> \<lambda>bytes. case snd (serverRegister resolve hubVersion True (ReadRegister decodeReq bytes) True)
      of [] \<Rightarrow> None | a # _ \<Rightarrow> ReadResponse decodeResp (encodeResp a)"
  assumes req: "\<And>r. decodeReq (encodeReq r) = Some r"
      "\<And>r n. n < length (encodeReq r) \<Longrightarrow> decodeReq (take n (encodeReq r)) = None"
    and resp: "\<And>a. decodeResp (encodeResp a) = Some a"
      "\<And>a. a \<in> set (snd (serverRegister resolve hubVersion True (Some req) True)) \<Longrightarrow>
        length (encodeResp a) \<le> maxMessage"
  shows "clientRegister (\<lambda>r. answer (encodeReq r)) True True requested token hostKey version goos arch =
    (if maxMessage < length (encodeReq req) then Inl ReadResponseFailed
     else clientRegister (\<lambda>r. case snd (serverRegister resolve hubVersion True (Some r) True) of
       [] \<Rightarrow> None | a # _ \<Rightarrow> Some a) True True requested token hostKey version goos arch)"
proof -
  have "answer (encodeReq req) = (if maxMessage < length (encodeReq req) then None
      else case snd (serverRegister resolve hubVersion True (Some req) True) of [] \<Rightarrow> None | a # _ \<Rightarrow> Some a)"
    using req resp
    by (cases "snd (serverRegister resolve hubVersion True (Some req) True)")
      (auto simp: answer_def ReadRegister_def ReadResponse_def serverRegister_unread)
  then show ?thesis
    by (simp add: clientRegister_def Let_def flip: req_def)
qed

text \<open>The status list names every connected backend once, in order, and does not depend on
  the order in which the map is visited.\<close>

theorem status_canonical:
  assumes "distinct (map fst es)" "distinct (map fst es')" "map_of es = map_of es'"
  shows "Status es = Status es' \<and> sorted (map bs_Backend (Status es)) \<and>
    distinct (map bs_Backend (Status es)) \<and>
    set (map bs_Backend (Status es)) = dom (map_of es)"
  using Status_order [OF assms] Status_sorted [OF assms(1)] by (simp add: dom_map_of_conv_image_fst)

theorem status_canonical_witness:
  "Status [(''web1'', exampleConnection), (''db1'', exampleConnection)] =
   Status [(''db1'', exampleConnection), (''web1'', exampleConnection)]"
  using status_canonical [of "[(''web1'', exampleConnection), (''db1'', exampleConnection)]"
      "[(''db1'', exampleConnection), (''web1'', exampleConnection)]"]
  by (simp add: fun_upd_twist)

end
