(* ===== verification/Proxy.thy ===== *)
theory Proxy
  imports Rate_Limit Control "HOL-Library.Word"
begin

text \<open>
  \<open>internal/proxy/proxy.go\<close>: who may open a tunnel to what, and the life of the proxy's
  connections as a step relation over the rate limiter. The SSH library is a parameter:
  \<open>parse\<close> is \<open>ssh.ParseAuthorizedKey\<close> (the marshalled key, the options and the rest of the line)
  and \<open>handshake\<close> is \<open>ssh.NewServerConn\<close>, of which only \<open>handshakeSound\<close> is assumed.
\<close>

subsection \<open>Authorization\<close>

type_synonym authorizedKeyParser = "string \<Rightarrow> (string \<times> string list \<times> string) option"

definition validationParser :: "authorizedKeyParser \<Rightarrow> keyParser" where
  "validationParser parse t = map_option snd (parse t)"

type_synonym permissions = "(string \<times> string) list"

text \<open>\<open>PublicKeyCallback\<close> maps a user and a marshalled key to permissions.\<close>

record ServerConfig =
  ssc_MaxAuthTries :: nat
  ssc_NoClientAuth :: bool
  ssc_PublicKeyCallback :: "string \<Rightarrow> string \<Rightarrow> permissions option"

definition keyAllowed :: "authorizedKeyParser \<Rightarrow> string \<Rightarrow> string \<Rightarrow> bool" where
  "keyAllowed parse pk t \<longleftrightarrow>
     (case parse t of
        None \<Rightarrow> False
      | Some (allowed, options, rest) \<Rightarrow>
          \<not> (options \<noteq> [] \<or> trimSpace rest \<noteq> []) \<and> allowed = pk)"

fun authorizeLoop ::
  "authorizedKeyParser \<Rightarrow> string \<Rightarrow> string \<Rightarrow> JumpUser list \<Rightarrow> permissions option" where
  "authorizeLoop parse user pk [] = None"
| "authorizeLoop parse user pk (access # us) =
     (if ju_Name access \<noteq> user then authorizeLoop parse user pk us
      else if ju_Keys access = [] then Some [(''jump_user'', ju_Name access)]
      else if list_ex (keyAllowed parse pk) (ju_Keys access)
      then Some [(''jump_user'', ju_Name access)]
      else authorizeLoop parse user pk us)"

definition authorize ::
  "authorizedKeyParser \<Rightarrow> Config \<Rightarrow> string \<Rightarrow> string \<Rightarrow> permissions option" where
  "authorize parse cfg user pk = authorizeLoop parse user pk (cfg_JumpUsers cfg)"

definition hasOpenJumpUser :: "Config \<Rightarrow> bool" where
  "hasOpenJumpUser cfg = list_ex (\<lambda>u. ju_Keys u = []) (cfg_JumpUsers cfg)"

definition isOpenJumpUser :: "Config \<Rightarrow> string \<Rightarrow> bool" where
  "isOpenJumpUser cfg name =
     (case find (\<lambda>u. ju_Name u = name) (cfg_JumpUsers cfg) of
        Some u \<Rightarrow> ju_Keys u = []
      | None \<Rightarrow> False)"

datatype newError = HostKeyUnreadable | HostKeyUnparsable

definition NewProxy ::
  "authorizedKeyParser \<Rightarrow> Config \<Rightarrow> (string \<Rightarrow> string option) \<Rightarrow> (string \<Rightarrow> bool) \<Rightarrow>
   newError + ServerConfig" where
  "NewProxy parse cfg readFile privateKeyOk =
     (case readFile (cfg_HostKey cfg) of
        None \<Rightarrow> Inl HostKeyUnreadable
      | Some bytes \<Rightarrow>
          if \<not> privateKeyOk bytes then Inl HostKeyUnparsable
          else Inr \<lparr>ssc_MaxAuthTries = 24,
                    ssc_NoClientAuth = (if hasOpenJumpUser cfg then True else False),
                    ssc_PublicKeyCallback = authorize parse cfg\<rparr>)"

text \<open>What the library returns for a connection whose handshake succeeded.\<close>

record ServerConn =
  sc_User :: string
  sc_Permissions :: "permissions option"

text \<open>The re-check in \<open>handle\<close> after a successful handshake.\<close>

definition mayServe :: "Config \<Rightarrow> ServerConn \<Rightarrow> bool" where
  "mayServe cfg c \<longleftrightarrow>
     (if (case sc_Permissions c of
            None \<Rightarrow> True
          | Some p \<Rightarrow> (case map_of p ''jump_user'' of None \<Rightarrow> True | Some v \<Rightarrow> v = []))
      then isOpenJumpUser cfg (sc_User c) else True)"

subsection \<open>Forwarding\<close>

record directTCPIPPayload =
  dp_DestAddr :: string
  dp_DestPort :: "32 word"
  dp_OriginAddr :: string
  dp_OriginPort :: "32 word"

datatype rejection = Prohibited | ConnectionFailed | ResourceShortage

datatype forwardResult =
    Rejected rejection string
  | AcceptFailed
  | Bridged string session

fun grantLoop :: "string \<Rightarrow> string \<Rightarrow> JumpUser list \<Rightarrow> bool" where
  "grantLoop user i [] = False"
| "grantLoop user i (u # us) =
     (ju_Name u = user \<and> list_ex (\<lambda>j. j = i) (ju_Backends u) \<or> grantLoop user i us)"

text \<open>\<open>payload\<close> is what \<open>ssh.Unmarshal\<close> made of the extra data; \<open>accepted\<close> whether the channel was.\<close>

definition forward ::
  "Config \<Rightarrow> Registry \<Rightarrow> (session \<Rightarrow> bool) \<Rightarrow> bool \<Rightarrow> string \<Rightarrow> directTCPIPPayload option \<Rightarrow>
   forwardResult" where
  "forward cfg registry openStream accepted user payload =
     (case payload of
        None \<Rightarrow> Rejected Prohibited ''only configured backend names on logical port 22 are allowed''
      | Some p \<Rightarrow>
          if dp_DestPort p \<noteq> 22
          then Rejected Prohibited ''only configured backend names on logical port 22 are allowed''
          else case BackendByName cfg (dp_DestAddr p) of
            None \<Rightarrow> Rejected Prohibited ''destination denied''
          | Some backendConfig \<Rightarrow>
              let backendID = be_ID backendConfig in
              if \<not> grantLoop user backendID (cfg_JumpUsers cfg)
              then Rejected Prohibited ''destination denied''
              else case Open registry False openStream backendID of
                Inl err \<Rightarrow> Rejected ConnectionFailed ''backend unavailable''
              | Inr s \<Rightarrow> if \<not> accepted then AcceptFailed else Bridged backendID s)"

subsection \<open>Connections\<close>

definition connectionSlots :: nat where "connectionSlots = 256"
definition channelSlots :: nat where "channelSlots = 16"

text \<open>
  A new channel: refused by its type, refused for want of a place, or handed to \<open>forward\<close>.
  The result says which, with the places in use afterwards.
\<close>

definition newChannel :: "nat \<Rightarrow> string \<Rightarrow> (rejection \<times> string) option \<times> nat" where
  "newChannel inUse channelType =
     (if channelType \<noteq> ''direct-tcpip''
      then (Some (Prohibited, ''ProxyJump only; direct sessions are disabled''), inUse)
      else if inUse < channelSlots then (None, inUse + 1)
      else (Some (ResourceShortage, ''channel limit''), inUse))"

text \<open>
  The phases of \<open>Serve\<close> and \<open>handle\<close> for one connection, from the remote address (\<open>None\<close> is nil)
  and the client at the other end: in the handshake, holding release function \<open>n\<close>; with the
  handshake's result, the slot given back; and serving, with the channel places in use.
\<close>

datatype 'c connPhase =
    Handshaking "string option" nat 'c
  | Judging "string option" 'c "ServerConn option"
  | Serving 'c ServerConn nat

record 'c Proxy =
  px_limiter :: Limiter
  px_conns :: "nat \<rightharpoonup> 'c connPhase"
  px_slots :: nat
  px_next :: nat

definition startProxy :: "'c Proxy" where
  "startProxy = \<lparr>px_limiter = NewLimiter DefaultConfig, px_conns = Map.empty, px_slots = 0,
     px_next = 0\<rparr>"

definition endConn :: "'c Proxy \<Rightarrow> nat \<Rightarrow> 'c Proxy" where
  "endConn p i = p\<lparr>px_conns := (px_conns p)(i := None), px_slots := px_slots p - 1\<rparr>"

definition setConn :: "'c Proxy \<Rightarrow> nat \<Rightarrow> 'c connPhase \<Rightarrow> 'c Proxy" where
  "setConn p i ph = p\<lparr>px_conns := (px_conns p)(i \<mapsto> ph)\<rparr>"

text \<open>
  What a step does with the limiter: an attempt is turned away, taken or finds no place, with its
  address, its time and the release function; a handshake gives its slot back; a failure or a
  success is recorded.
\<close>

datatype proxyLabel =
    Turned "string option" time Reason
  | Took "string option" time nat
  | NoPlace "string option" time nat
  | GaveBack time nat
  | Noted "string option" time
  | Cleared "string option" time
  | Quiet

inductive proxyEvent ::
  "Config \<Rightarrow> ServerConfig \<Rightarrow> (ServerConfig \<Rightarrow> 'c \<Rightarrow> ServerConn option) \<Rightarrow> proxyLabel \<Rightarrow>
   'c Proxy \<Rightarrow> 'c Proxy \<Rightarrow> bool"
  for cfg conf handshake where
  Refused:
    "Acquire (px_limiter p) addr now = ((reason, rel), l) \<Longrightarrow> reason \<noteq> Allowed \<Longrightarrow>
     proxyEvent cfg conf handshake (Turned addr now reason) p (p\<lparr>px_limiter := l\<rparr>)"
| Accepted:
    "Acquire (px_limiter p) addr now = ((Allowed, Some n), l) \<Longrightarrow> px_slots p < connectionSlots \<Longrightarrow>
     proxyEvent cfg conf handshake (Took addr now n) p
       (p\<lparr>px_limiter := l, px_conns := (px_conns p)(px_next p \<mapsto> Handshaking addr n client),
          px_slots := px_slots p + 1, px_next := Suc (px_next p)\<rparr>)"
| NoSlot:
    "Acquire (px_limiter p) addr now = ((Allowed, Some n), l) \<Longrightarrow> \<not> px_slots p < connectionSlots \<Longrightarrow>
     proxyEvent cfg conf handshake (NoPlace addr now n) p (p\<lparr>px_limiter := release l n\<rparr>)"
| HandshakeEnds:
    "px_conns p i = Some (Handshaking addr n client) \<Longrightarrow>
     result = None \<or> result = handshake conf client \<Longrightarrow>
     proxyEvent cfg conf handshake (GaveBack now n) p
       ((setConn p i (Judging addr client result))\<lparr>px_limiter := release (px_limiter p) n\<rparr>)"
| Failed:
    "px_conns p i = Some (Judging addr client None) \<Longrightarrow>
     proxyEvent cfg conf handshake (Noted addr now) p
       ((endConn p i)\<lparr>px_limiter := RecordFailure (px_limiter p) addr now\<rparr>)"
| Dropped:
    "px_conns p i = Some (Judging addr client (Some c)) \<Longrightarrow> \<not> mayServe cfg c \<Longrightarrow>
     proxyEvent cfg conf handshake Quiet p (endConn p i)"
| Served:
    "px_conns p i = Some (Judging addr client (Some c)) \<Longrightarrow> mayServe cfg c \<Longrightarrow>
     proxyEvent cfg conf handshake (Cleared addr now) p
       ((setConn p i (Serving client c 0))\<lparr>px_limiter := RecordSuccess (px_limiter p) addr now\<rparr>)"
| Channel:
    "px_conns p i = Some (Serving client c k) \<Longrightarrow>
     proxyEvent cfg conf handshake Quiet p
       (setConn p i (Serving client c (snd (newChannel k channelType))))"
| ChannelDone:
    "px_conns p i = Some (Serving client c (Suc k)) \<Longrightarrow>
     proxyEvent cfg conf handshake Quiet p (setConn p i (Serving client c k))"
| Closed:
    "px_conns p i = Some (Serving client c k) \<Longrightarrow>
     proxyEvent cfg conf handshake Quiet p (endConn p i)"

definition proxyStep ::
  "Config \<Rightarrow> ServerConfig \<Rightarrow> (ServerConfig \<Rightarrow> 'c \<Rightarrow> ServerConn option) \<Rightarrow> 'c Proxy \<Rightarrow> 'c Proxy \<Rightarrow> bool"
where
  "proxyStep cfg conf handshake p p' \<longleftrightarrow> (\<exists>lab. proxyEvent cfg conf handshake lab p p')"

lemma proxyStepI: "proxyEvent cfg conf handshake lab p p' \<Longrightarrow> proxyStep cfg conf handshake p p'"
  by (auto simp: proxyStep_def)

inductive proxyReach ::
  "Config \<Rightarrow> ServerConfig \<Rightarrow> (ServerConfig \<Rightarrow> 'c \<Rightarrow> ServerConn option) \<Rightarrow> 'c Proxy \<Rightarrow> bool"
  for cfg conf handshake where
  Start: "proxyReach cfg conf handshake startProxy"
| Step: "proxyReach cfg conf handshake p \<Longrightarrow> proxyStep cfg conf handshake p p' \<Longrightarrow>
    proxyReach cfg conf handshake p'"

text \<open>
  What \<open>ssh.NewServerConn\<close> guarantees: without permissions a client got in without
  authentication, which the configuration must allow; with permissions it proved that it
  holds a key (\<open>proves\<close>) for which the callback returned them, for the user it is logged in as.
\<close>

definition handshakeSound ::
  "(ServerConfig \<Rightarrow> 'c \<Rightarrow> ServerConn option) \<Rightarrow> ('c \<Rightarrow> string \<Rightarrow> bool) \<Rightarrow> bool" where
  "handshakeSound handshake proves \<longleftrightarrow>
     (\<forall>conf client c. handshake conf client = Some c \<longrightarrow>
        (case sc_Permissions c of
           None \<Rightarrow> ssc_NoClientAuth conf
         | Some p \<Rightarrow> \<exists>k. proves client k \<and> ssc_PublicKeyCallback conf (sc_User c) k = Some p))"

subsection \<open>Who is authorized\<close>

definition grants :: "authorizedKeyParser \<Rightarrow> Config \<Rightarrow> string \<Rightarrow> string \<Rightarrow> bool" where
  "grants parse cfg user pk \<longleftrightarrow>
     (\<exists>u\<in>set (cfg_JumpUsers cfg). ju_Name u = user \<and>
        (ju_Keys u = [] \<or> (\<exists>t\<in>set (ju_Keys u). keyAllowed parse pk t)))"

lemma authorizeLoop_iff:
  "authorizeLoop parse user pk us = Some perms \<longleftrightarrow>
   (\<exists>u\<in>set us. ju_Name u = user \<and>
      (ju_Keys u = [] \<or> (\<exists>t\<in>set (ju_Keys u). keyAllowed parse pk t))) \<and>
   perms = [(''jump_user'', user)]"
  by (induction us) (auto simp: list_ex_iff)

lemma authorize_grants:
  "authorize parse cfg user pk =
   (if grants parse cfg user pk then Some [(''jump_user'', user)] else None)"
proof (cases "authorize parse cfg user pk")
  case None
  with authorizeLoop_iff [of parse user pk "cfg_JumpUsers cfg" "[(''jump_user'', user)]"]
  show ?thesis by (auto simp: authorize_def grants_def)
next
  case (Some perms)
  then show ?thesis by (simp add: authorize_def grants_def authorizeLoop_iff)
qed

lemma isOpenJumpUserD:
  "isOpenJumpUser cfg name \<Longrightarrow>
   \<exists>u\<in>set (cfg_JumpUsers cfg). ju_Name u = name \<and> ju_Keys u = []"
  by (auto simp: isOpenJumpUser_def split: option.splits dest: find_SomeD)

lemma NewProxy_callback:
  "NewProxy parse cfg readFile privateKeyOk = Inr conf \<Longrightarrow>
   ssc_PublicKeyCallback conf = authorize parse cfg \<and>
   (ssc_NoClientAuth conf \<longleftrightarrow> hasOpenJumpUser cfg)"
  by (auto simp: NewProxy_def split: option.splits if_splits)

text \<open>A client that is served is a jump user: an open one, or one whose key it proved.\<close>

definition admitted :: "authorizedKeyParser \<Rightarrow> Config \<Rightarrow> ('c \<Rightarrow> string \<Rightarrow> bool) \<Rightarrow> 'c \<Rightarrow> string \<Rightarrow> bool" where
  "admitted parse cfg proves client user \<longleftrightarrow>
     (\<exists>u\<in>set (cfg_JumpUsers cfg). ju_Name u = user \<and>
        (ju_Keys u = [] \<or> (\<exists>pk t. t \<in> set (ju_Keys u) \<and> proves client pk \<and> keyAllowed parse pk t)))"

lemma served_admitted:
  assumes new: "NewProxy parse cfg readFile privateKeyOk = Inr conf"
    and sound: "handshakeSound handshake proves" and hs: "handshake conf client = Some c"
    and serve: "mayServe cfg c"
  shows "admitted parse cfg proves client (sc_User c)"
proof (cases "sc_Permissions c")
  case None
  with serve have "isOpenJumpUser cfg (sc_User c)" by (simp add: mayServe_def)
  then show ?thesis unfolding admitted_def by (blast dest: isOpenJumpUserD)
next
  case (Some perms)
  with sound hs obtain pk where pk: "proves client pk"
    "ssc_PublicKeyCallback conf (sc_User c) pk = Some perms"
    unfolding handshakeSound_def by fastforce
  with NewProxy_callback [OF new] have "grants parse cfg (sc_User c) pk"
    by (simp add: authorize_grants split: if_splits)
  with pk(1) show ?thesis unfolding admitted_def grants_def by blast
qed

lemma grantLoop_iff:
  "grantLoop user i us \<longleftrightarrow> (\<exists>u\<in>set us. ju_Name u = user \<and> i \<in> set (ju_Backends u))"
  by (induction us) (auto simp: list_ex_iff)

lemma Open_iff:
  "Open r False openStream b = Inr s \<longleftrightarrow>
   (\<exists>c. r b = Some c \<and> s = cn_session c \<and> openStream s)"
  by (auto simp: Open_def split: option.splits)

lemma forward_iff:
  "forward cfg r openStream accepted user payload = Bridged i s \<longleftrightarrow>
   accepted \<and>
   (\<exists>p b. payload = Some p \<and> dp_DestPort p = 22 \<and> BackendByName cfg (dp_DestAddr p) = Some b \<and>
      i = be_ID b) \<and>
   (\<exists>u\<in>set (cfg_JumpUsers cfg). ju_Name u = user \<and> i \<in> set (ju_Backends u)) \<and>
   (\<exists>c. r i = Some c \<and> s = cn_session c \<and> openStream s)"
  by (auto simp: forward_def Let_def grantLoop_iff [symmetric] Open_iff [symmetric]
      split: option.splits sum.splits if_splits)

subsection \<open>What every reachable proxy satisfies\<close>

definition servedInv ::
  "Config \<Rightarrow> ServerConfig \<Rightarrow> (ServerConfig \<Rightarrow> 'c \<Rightarrow> ServerConn option) \<Rightarrow> (nat \<rightharpoonup> 'c connPhase) \<Rightarrow> bool"
where
  "servedInv cfg conf handshake m \<longleftrightarrow>
     (\<forall>i addr client c k.
        (m i = Some (Judging addr client (Some c)) \<longrightarrow> handshake conf client = Some c) \<and>
        (m i = Some (Serving client c k) \<longrightarrow>
           handshake conf client = Some c \<and> mayServe cfg c \<and> k \<le> channelSlots))"

text \<open>A connection in its handshake holds a release function of its source, and nobody else does.\<close>

definition heldInv :: "string option list \<Rightarrow> (nat \<rightharpoonup> 'c connPhase) \<Rightarrow> bool" where
  "heldInv rel m \<longleftrightarrow>
     (\<forall>i addr n client. m i = Some (Handshaking addr n client) \<longrightarrow>
        n < length rel \<and> rel ! n = Some (key addr) \<and>
        (\<forall>j addr' client'. m j = Some (Handshaking addr' n client') \<longrightarrow> i = j))"

definition proxyInv ::
  "Config \<Rightarrow> ServerConfig \<Rightarrow> (ServerConfig \<Rightarrow> 'c \<Rightarrow> ServerConn option) \<Rightarrow> 'c Proxy \<Rightarrow> bool" where
  "proxyInv cfg conf handshake p \<longleftrightarrow>
     servedInv cfg conf handshake (px_conns p) \<and>
     heldInv (lim_releases (px_limiter p)) (px_conns p) \<and>
     rlInv (px_limiter p) \<and> lim_cfg (px_limiter p) = DefaultConfig \<and>
     placesOK connectionSlots (px_conns p) (px_slots p) (px_next p)"

lemma lim_releases_simps [simp]:
  "lim_releases (RecordFailure l a now) = lim_releases l"
  "lim_releases (RecordSuccess l a now) = lim_releases l"
  "lim_cfg (RecordFailure l a now) = lim_cfg l"
  "lim_cfg (RecordSuccess l a now) = lim_cfg l"
  by (simp_all add: RecordFailure_eq RecordSuccess_eq)

lemma lim_releases_release: "lim_releases (release l n) = (lim_releases l)[n := None]"
proof (cases "n < length (lim_releases l) \<and> lim_releases l ! n \<noteq> None")
  case True
  then show ?thesis by (auto simp: release_def Let_def split: option.splits)
next
  case False
  then have "(lim_releases l)[n := None] = lim_releases l"
    by (metis list_update_beyond list_update_id not_less)
  with False show ?thesis by (auto simp: release_def Let_def split: option.splits)
qed

lemma lim_releases_Acquire:
  assumes "Acquire l a now = ((reason, rel), l')"
  shows "case rel of None \<Rightarrow> reason \<noteq> Allowed \<and> lim_releases l' = lim_releases l
    | Some n \<Rightarrow> reason = Allowed \<and> n = length (lim_releases l) \<and>
        lim_releases l' = lim_releases l @ [Some (key a)]"
  using assms unfolding Acquire_cases by (auto split: if_splits)

lemma limiter_Acquire:
  assumes "Acquire l a now = (res, l')" "rlInv l" "lim_cfg l = DefaultConfig"
  shows "rlInv l' \<and> lim_cfg l' = DefaultConfig"
  using rlInv_Acquire [of l a now] lim_cfg_Acquire [of l a now] assms wfConfig_Default by simp

lemma heldInvD:
  "heldInv rel m \<Longrightarrow> m i = Some (Handshaking addr n client) \<Longrightarrow>
   n < length rel \<and> rel ! n = Some (key addr)"
  unfolding heldInv_def by blast

lemma heldInv_unique:
  "heldInv rel m \<Longrightarrow> m i = Some (Handshaking addr n client) \<Longrightarrow>
   m j = Some (Handshaking addr' n client') \<Longrightarrow> i = j"
  unfolding heldInv_def by blast

lemma heldInv_keep:
  assumes "heldInv rel m" "\<And>addr n client. p \<noteq> Handshaking addr n client"
  shows "heldInv rel (m(i \<mapsto> p))" "heldInv rel (m(i := None))"
  using assms by (auto simp: heldInv_def)

lemma heldInv_append: "heldInv rel m \<Longrightarrow> heldInv (rel @ [k]) m"
  by (fastforce simp: heldInv_def nth_append)

lemma heldInv_add:
  assumes "heldInv rel m"
  shows "heldInv (rel @ [Some (key addr)]) (m(i \<mapsto> Handshaking addr (length rel) client))"
  using assms by (fastforce simp: heldInv_def nth_append)

lemma heldInv_give_back:
  assumes inv: "heldInv rel m" and i: "m i = Some (Handshaking addr n client)"
    and p: "\<And>addr n client. p \<noteq> Handshaking addr n client"
  shows "heldInv (rel[n := None]) (m(i \<mapsto> p))"
  unfolding heldInv_def
proof (intro allI impI)
  fix j addr' n' client'
  assume "(m(i \<mapsto> p)) j = Some (Handshaking addr' n' client')"
  with p have j: "j \<noteq> i" "m j = Some (Handshaking addr' n' client')" by (auto split: if_splits)
  have "n' \<noteq> n" using inv i j unfolding heldInv_def by metis
  with inv j show "n' < length (rel[n := None]) \<and> rel[n := None] ! n' = Some (key addr') \<and>
      (\<forall>k addr'' client''. (m(i \<mapsto> p)) k = Some (Handshaking addr'' n' client'') \<longrightarrow> j = k)"
    using p by (auto simp: heldInv_def)
qed

lemma servedInv_update:
  assumes "servedInv cfg conf handshake m"
    and "\<And>addr client c. p = Judging addr client (Some c) \<Longrightarrow> handshake conf client = Some c"
    and "\<And>client c k. p = Serving client c k \<Longrightarrow>
      handshake conf client = Some c \<and> mayServe cfg c \<and> k \<le> channelSlots"
  shows "servedInv cfg conf handshake (m(i \<mapsto> p))" "servedInv cfg conf handshake (m(i := None))"
  using assms unfolding servedInv_def by (auto split: if_splits)

lemma newChannel_bound: "k \<le> channelSlots \<Longrightarrow> snd (newChannel k t) \<le> channelSlots"
  by (simp add: newChannel_def)

lemma served_conn:
  "proxyInv cfg conf handshake p \<Longrightarrow> px_conns p i = Some (Serving client c k) \<Longrightarrow>
   handshake conf client = Some c \<and> mayServe cfg c \<and> k \<le> channelSlots"
  unfolding proxyInv_def servedInv_def by blast

lemma conn_limiter [simp]:
  "px_limiter (endConn p i) = px_limiter p" "px_limiter (setConn p i q) = px_limiter p"
  by (simp_all add: endConn_def setConn_def)

lemma proxyInv_start: "proxyInv cfg conf handshake startProxy"
  by (simp add: proxyInv_def startProxy_def servedInv_def heldInv_def rlInv_New placesOK_empty)
    (simp add: NewLimiter_def)

lemma proxyInv_end:
  assumes "proxyInv cfg conf handshake p" "px_conns p i = Some q"
  shows "proxyInv cfg conf handshake (endConn p i)"
  using assms placesOK_remove [of connectionSlots "px_conns p" "px_slots p" "px_next p" i q]
  unfolding proxyInv_def endConn_def by (simp add: servedInv_def heldInv_def)

lemma proxyInv_set:
  assumes "proxyInv cfg conf handshake p" "px_conns p i = Some q"
    and "\<And>addr n client. q' \<noteq> Handshaking addr n client"
    and "\<And>addr client c. q' = Judging addr client (Some c) \<Longrightarrow> handshake conf client = Some c"
    and "\<And>client c k. q' = Serving client c k \<Longrightarrow>
      handshake conf client = Some c \<and> mayServe cfg c \<and> k \<le> channelSlots"
  shows "proxyInv cfg conf handshake (setConn p i q')"
  using assms unfolding proxyInv_def setConn_def
  by (auto intro!: placesOK_change heldInv_keep(1) servedInv_update(1))

lemma proxyInv_limiter:
  assumes "proxyInv cfg conf handshake p" "rlInv l" "lim_cfg l = DefaultConfig"
    and "lim_releases l = lim_releases (px_limiter p)"
  shows "proxyInv cfg conf handshake (p\<lparr>px_limiter := l\<rparr>)"
  using assms by (simp add: proxyInv_def)

lemma proxyInv_record:
  assumes "proxyInv cfg conf handshake p"
  shows "proxyInv cfg conf handshake (p\<lparr>px_limiter := RecordFailure (px_limiter p) a now\<rparr>)"
    and "proxyInv cfg conf handshake (p\<lparr>px_limiter := RecordSuccess (px_limiter p) a now\<rparr>)"
  using assms wfConfig_Default
  by (auto intro!: proxyInv_limiter rlInv_RecordFailure rlInv_RecordSuccess simp: proxyInv_def)

lemma proxyInv_accept:
  assumes inv: "proxyInv cfg conf handshake p"
    and acq: "Acquire (px_limiter p) addr now = ((Allowed, Some n), l)"
    and free: "px_slots p < connectionSlots"
  shows "proxyInv cfg conf handshake
    (p\<lparr>px_limiter := l, px_conns := (px_conns p)(px_next p \<mapsto> Handshaking addr n client),
       px_slots := px_slots p + 1, px_next := Suc (px_next p)\<rparr>)"
proof -
  have "lim_releases l = lim_releases (px_limiter p) @ [Some (key addr)]"
    "n = length (lim_releases (px_limiter p))"
    using lim_releases_Acquire [OF acq] by simp_all
  moreover have "heldInv (lim_releases (px_limiter p)) (px_conns p)"
    using inv by (simp add: proxyInv_def)
  ultimately have "heldInv (lim_releases l) ((px_conns p)(px_next p \<mapsto> Handshaking addr n client))"
    by (simp add: heldInv_add)
  moreover have "rlInv l \<and> lim_cfg l = DefaultConfig"
    using limiter_Acquire [OF acq] inv by (simp add: proxyInv_def)
  moreover have "servedInv cfg conf handshake
      ((px_conns p)(px_next p \<mapsto> Handshaking addr n client))"
    using inv by (intro servedInv_update(1)) (auto simp: proxyInv_def)
  moreover have "placesOK connectionSlots
      ((px_conns p)(px_next p \<mapsto> Handshaking addr n client)) (px_slots p + 1) (Suc (px_next p))"
    using inv free by (intro placesOK_add) (auto simp: proxyInv_def)
  ultimately show ?thesis by (simp add: proxyInv_def)
qed

lemma proxyInv_no_slot:
  assumes inv: "proxyInv cfg conf handshake p"
    and acq: "Acquire (px_limiter p) addr now = ((Allowed, Some n), l)"
  shows "proxyInv cfg conf handshake (p\<lparr>px_limiter := release l n\<rparr>)"
proof -
  let ?rel = "lim_releases (px_limiter p)"
  have "lim_releases (release l n) = ?rel @ [None]"
    using lim_releases_Acquire [OF acq] by (simp add: lim_releases_release)
  then have "heldInv (lim_releases (release l n)) (px_conns p)"
    using inv by (simp add: proxyInv_def heldInv_append)
  moreover have "rlInv l \<and> lim_cfg l = DefaultConfig"
    using limiter_Acquire [OF acq] inv by (simp add: proxyInv_def)
  ultimately show ?thesis using inv by (simp add: proxyInv_def rlInv_release)
qed

lemma proxyInv_handshake_ends:
  assumes inv: "proxyInv cfg conf handshake p"
    and i: "px_conns p i = Some (Handshaking addr n client)"
    and result: "result = None \<or> result = handshake conf client"
  shows "proxyInv cfg conf handshake
    ((setConn p i (Judging addr client result))\<lparr>px_limiter := release (px_limiter p) n\<rparr>)"
proof -
  let ?q = "Judging addr client result"
  have "heldInv ((lim_releases (px_limiter p))[n := None]) ((px_conns p)(i \<mapsto> ?q))"
    using inv i by (intro heldInv_give_back) (auto simp: proxyInv_def)
  moreover have "servedInv cfg conf handshake ((px_conns p)(i \<mapsto> ?q))"
    using inv result by (intro servedInv_update(1)) (auto simp: proxyInv_def)
  moreover have "placesOK connectionSlots ((px_conns p)(i \<mapsto> ?q)) (px_slots p) (px_next p)"
    using inv i by (intro placesOK_change) (auto simp: proxyInv_def)
  ultimately show ?thesis
    using inv by (simp add: proxyInv_def setConn_def lim_releases_release rlInv_release)
qed

lemma proxyInv_event:
  assumes "proxyEvent cfg conf handshake lab p p'" "proxyInv cfg conf handshake p"
  shows "proxyInv cfg conf handshake p'"
  using assms
proof (induction rule: proxyEvent.induct)
  case (Refused p addr now reason rel l)
  then have "rlInv l \<and> lim_cfg l = DefaultConfig" "lim_releases l = lim_releases (px_limiter p)"
    using limiter_Acquire [OF Refused(1)] lim_releases_Acquire [OF Refused(1)]
    by (auto simp: proxyInv_def split: option.splits)
  with Refused show ?case by (simp add: proxyInv_limiter)
next
  case (Accepted p addr now n l client)
  then show ?case by (intro proxyInv_accept)
next
  case (NoSlot p addr now n l)
  then show ?case by (simp add: proxyInv_no_slot)
next
  case (HandshakeEnds p i addr n client result)
  then show ?case by (simp add: proxyInv_handshake_ends)
next
  case (Failed p i addr client now)
  then show ?case using proxyInv_record(1) [OF proxyInv_end] by fastforce
next
  case (Dropped p i addr client c)
  then show ?case by (simp add: proxyInv_end)
next
  case (Served p i addr client c now)
  then have "proxyInv cfg conf handshake (setConn p i (Serving client c 0))"
    by (intro proxyInv_set) (auto simp: proxyInv_def servedInv_def)
  then show ?case using proxyInv_record(2) by fastforce
next
  case (Channel p i client c k channelType)
  with served_conn [OF Channel(2,1)] show ?case
    by (intro proxyInv_set) (auto simp: newChannel_bound)
next
  case (ChannelDone p i client c k)
  with served_conn [OF ChannelDone(2,1)] show ?case by (intro proxyInv_set) auto
next
  case (Closed p i client c k)
  then show ?case by (simp add: proxyInv_end)
qed

lemma proxyInv_step:
  "proxyStep cfg conf handshake p p' \<Longrightarrow> proxyInv cfg conf handshake p \<Longrightarrow> proxyInv cfg conf handshake p'"
  by (auto simp: proxyStep_def intro: proxyInv_event)

lemma proxyInv_reach: "proxyReach cfg conf handshake p \<Longrightarrow> proxyInv cfg conf handshake p"
  by (induction rule: proxyReach.induct) (auto intro: proxyInv_start proxyInv_step)

text \<open>The connections of one source that are in their handshake.\<close>

definition handshakesOf :: "'c Proxy \<Rightarrow> string \<Rightarrow> nat set" where
  "handshakesOf p k =
     {i. \<exists>addr n client. px_conns p i = Some (Handshaking addr n client) \<and> key addr = k}"

lemma handshakes_bound:
  assumes inv: "proxyInv cfg conf handshake p"
  shows "int (card (handshakesOf p k)) \<le> 8"
proof -
  let ?rel = "lim_releases (px_limiter p)" and ?H = "handshakesOf p k"
  define slot where "slot i = (case px_conns p i of Some (Handshaking addr n client) \<Rightarrow> n | _ \<Rightarrow> 0)" for i
  have held: "heldInv ?rel (px_conns p)" using inv by (simp add: proxyInv_def)
  have "inj_on slot ?H"
    using heldInv_unique [OF held] by (auto simp: inj_on_def handshakesOf_def slot_def)
  moreover have "slot ` ?H \<subseteq> {n. n < length ?rel \<and> ?rel ! n = Some k}"
    using heldInvD [OF held] by (auto simp: handshakesOf_def slot_def)
  ultimately have "card ?H \<le> card {n. n < length ?rel \<and> ?rel ! n = Some k}"
    by (intro card_inj_on_le) auto
  also have "\<dots> = count_list ?rel (Some k)"
    by (simp add: count_list_eq_length_filter length_filter_conv_card eq_commute)
  finally have "int (card ?H) \<le> openSlots (px_limiter p) k" by (simp add: openSlots_def)
  also have "\<dots> \<le> 8"
  proof (cases "lim_sources (px_limiter p) k")
    case None
    with inv show ?thesis by (simp add: proxyInv_def rlInv_None)
  next
    case (Some s)
    with inv rlInv_Some [OF _ Some] show ?thesis
      by (auto simp: proxyInv_def okSource_def DefaultConfig_def)
  qed
  finally show ?thesis .
qed

text \<open>The channel places in use on a connection.\<close>

definition channelsOf :: "'c Proxy \<Rightarrow> nat \<Rightarrow> nat" where
  "channelsOf p i = (case px_conns p i of Some (Serving client c n) \<Rightarrow> n | _ \<Rightarrow> 0)"

lemma channels_bound: "proxyInv cfg conf handshake p \<Longrightarrow> channelsOf p i \<le> channelSlots"
  using served_conn [of cfg conf handshake p i]
  by (auto simp: channelsOf_def split: option.splits connPhase.splits)

subsection \<open>Being served\<close>

definition proxySteps ::
  "Config \<Rightarrow> ServerConfig \<Rightarrow> (ServerConfig \<Rightarrow> 'c \<Rightarrow> ServerConn option) \<Rightarrow> 'c Proxy \<Rightarrow> 'c Proxy \<Rightarrow> bool"
where
  "proxySteps cfg conf handshake = rtranclp (proxyStep cfg conf handshake)"

lemma proxySteps_reach:
  assumes "proxySteps cfg conf handshake p p'" "proxyReach cfg conf handshake p"
  shows "proxyReach cfg conf handshake p'"
  using assms unfolding proxySteps_def by (induction rule: rtranclp_induct) (auto intro: Step)

text \<open>An admitted client that proves its access is served, in three steps.\<close>

lemma client_served_events:
  assumes acq: "fst (fst (Acquire (px_limiter p) addr now)) = Allowed"
    and free: "px_slots p < connectionSlots"
    and hs: "handshake conf client = Some c" and serve: "mayServe cfg c"
  shows "\<exists>n p1 p2 p3. proxyEvent cfg conf handshake (Took addr now n) p p1 \<and>
    proxyEvent cfg conf handshake (GaveBack now n) p1 p2 \<and>
    proxyEvent cfg conf handshake (Cleared addr now) p2 p3 \<and>
    px_conns p3 (px_next p) = Some (Serving client c 0)"
proof -
  obtain n l where acq: "Acquire (px_limiter p) addr now = ((Allowed, Some n), l)"
    using acq lim_releases_Acquire [of "px_limiter p" addr now]
    by (cases "Acquire (px_limiter p) addr now") (auto split: option.splits)
  define p1 where "p1 = p\<lparr>px_limiter := l,
    px_conns := (px_conns p)(px_next p \<mapsto> Handshaking addr n client),
    px_slots := px_slots p + 1, px_next := Suc (px_next p)\<rparr>"
  define p2 where "p2 = (setConn p1 (px_next p) (Judging addr client (Some c)))
    \<lparr>px_limiter := release (px_limiter p1) n\<rparr>"
  define p3 where "p3 = (setConn p2 (px_next p) (Serving client c 0))
    \<lparr>px_limiter := RecordSuccess (px_limiter p2) addr now\<rparr>"
  have "proxyEvent cfg conf handshake (Took addr now n) p p1"
    unfolding p1_def by (rule Accepted [OF acq free])
  moreover have "proxyEvent cfg conf handshake (GaveBack now n) p1 p2"
    unfolding p2_def by (rule HandshakeEnds) (simp_all add: p1_def hs)
  moreover have "proxyEvent cfg conf handshake (Cleared addr now) p2 p3"
    unfolding p3_def by (rule Served) (simp_all add: p2_def setConn_def serve)
  moreover have "px_conns p3 (px_next p) = Some (Serving client c 0)"
    by (simp add: p3_def setConn_def)
  ultimately show ?thesis by blast
qed

lemma client_served:
  assumes "fst (fst (Acquire (px_limiter p) addr now)) = Allowed" "px_slots p < connectionSlots"
    "handshake conf client = Some c" "mayServe cfg c"
  shows "\<exists>p'. proxySteps cfg conf handshake p p' \<and>
    px_conns p' (px_next p) = Some (Serving client c 0)"
proof -
  from client_served_events [where handshake = handshake and conf = conf and client = client, OF assms]
  obtain n p1 p2 p3 where ev:
    "proxyEvent cfg conf handshake (Took addr now n) p p1"
    "proxyEvent cfg conf handshake (GaveBack now n) p1 p2"
    "proxyEvent cfg conf handshake (Cleared addr now) p2 p3"
    "px_conns p3 (px_next p) = Some (Serving client c 0)" by blast
  have "proxySteps cfg conf handshake p p3"
    unfolding proxySteps_def
    by (rule converse_rtranclp_into_rtranclp, rule proxyStepI, rule ev(1),
        rule converse_rtranclp_into_rtranclp, rule proxyStepI, rule ev(2),
        rule r_into_rtranclp, rule proxyStepI, rule ev(3))
  with ev(4) show ?thesis by blast
qed

lemma mayServe_authorized:
  assumes "sc_Permissions c = authorize parse cfg (sc_User c) pk" "sc_Permissions c \<noteq> None"
    and "sc_User c \<noteq> []"
  shows "mayServe cfg c"
  using assms by (simp add: mayServe_def authorize_grants split: if_splits)

text \<open>In a valid configuration the user of a name is unique, and so are its keys and grants.\<close>

lemma admitted_user:
  assumes valid: "validConfig parseKey cfg" and adm: "admitted parse cfg proves client user"
    and u: "u \<in> set (cfg_JumpUsers cfg)" "ju_Name u = user"
  shows "ju_Keys u = [] \<or> (\<exists>pk t. t \<in> set (ju_Keys u) \<and> proves client pk \<and> keyAllowed parse pk t)"
proof -
  have "distinct (map ju_Name (cfg_JumpUsers cfg))"
    using valid by (simp add: validConfig_def Let_def)
  then have "v = u" if "v \<in> set (cfg_JumpUsers cfg)" "ju_Name v = user" for v
    using that u by (auto simp: distinct_map inj_on_def)
  with adm show ?thesis unfolding admitted_def by blast
qed

subsection \<open>A proxy with one user\<close>

text \<open>A client names a user and may hold a key.\<close>

type_synonym exampleClient = "string \<times> string option"

fun exampleHandshake :: "ServerConfig \<Rightarrow> exampleClient \<Rightarrow> ServerConn option" where
  "exampleHandshake conf (user, None) =
     (if ssc_NoClientAuth conf then Some \<lparr>sc_User = user, sc_Permissions = None\<rparr> else None)"
| "exampleHandshake conf (user, Some pk) =
     (case ssc_PublicKeyCallback conf user pk of
        None \<Rightarrow> None
      | Some perms \<Rightarrow> Some \<lparr>sc_User = user, sc_Permissions = Some perms\<rparr>)"

definition exampleHolds :: "exampleClient \<Rightarrow> string \<Rightarrow> bool" where
  "exampleHolds client pk \<longleftrightarrow> snd client = Some pk"

lemma exampleHandshake_sound: "handshakeSound exampleHandshake exampleHolds"
proof -
  have "case sc_Permissions c of
      None \<Rightarrow> ssc_NoClientAuth conf
    | Some p \<Rightarrow> \<exists>k. exampleHolds client k \<and> ssc_PublicKeyCallback conf (sc_User c) k = Some p"
    if "exampleHandshake conf client = Some c" for conf client c
    using that by (cases "(conf, client)" rule: exampleHandshake.cases)
      (auto simp: exampleHolds_def split: if_splits option.splits)
  then show ?thesis unfolding handshakeSound_def by blast
qed

definition exampleKeys :: authorizedKeyParser where
  "exampleKeys t = (if t = ''k1'' then Some (''blob1'', [], []) else None)"

definition exampleServer :: ServerConfig where
  "exampleServer = \<lparr>ssc_MaxAuthTries = 24, ssc_NoClientAuth = False,
     ssc_PublicKeyCallback = authorize exampleKeys exampleValid\<rparr>"

definition exampleConn :: ServerConn where
  "exampleConn = \<lparr>sc_User = ''alice'', sc_Permissions = Some [(''jump_user'', ''alice'')]\<rparr>"

lemma exampleKeys_parser: "validationParser exampleKeys = exampleParser"
  by (rule ext) (simp add: validationParser_def exampleKeys_def exampleParser_def)

lemma exampleServer_New:
  "NewProxy exampleKeys exampleValid (\<lambda>_. Some ''pem'') (\<lambda>_. True) = Inr exampleServer"
  by (simp add: NewProxy_def exampleServer_def hasOpenJumpUser_def exampleConfig_def)

lemma exampleConn_authorized:
  "exampleHandshake exampleServer (''alice'', Some ''blob1'') = Some exampleConn"
  by (simp add: exampleServer_def exampleConn_def authorize_def exampleConfig_def keyAllowed_def
      exampleKeys_def trimSpace_def)

lemma exampleConn_served:
  "\<exists>p i. proxyReach exampleValid exampleServer exampleHandshake p \<and>
     px_conns p i = Some (Serving (''alice'', Some ''blob1'') exampleConn 0)"
proof -
  have "fst (fst (Acquire (px_limiter startProxy) (Some ''10.0.0.7:5'') 1000)) = Allowed"
    by code_simp
  moreover have "mayServe exampleValid exampleConn"
    by (simp add: mayServe_def exampleConn_def)
  ultimately obtain p where "proxySteps exampleValid exampleServer exampleHandshake startProxy p"
    "px_conns p (px_next startProxy) = Some (Serving (''alice'', Some ''blob1'') exampleConn 0)"
    using client_served [of startProxy "Some ''10.0.0.7:5''" 1000 exampleHandshake exampleServer
        "(''alice'', Some ''blob1'')" exampleConn exampleValid] exampleConn_authorized
    by (auto simp: startProxy_def connectionSlots_def)
  with proxySteps_reach [OF _ Start] show ?thesis by blast
qed

definition examplePayload :: directTCPIPPayload where
  "examplePayload = \<lparr>dp_DestAddr = ''www'', dp_DestPort = 22, dp_OriginAddr = ''127.0.0.1'',
     dp_OriginPort = 0\<rparr>"

lemma examplePayload_forwarded:
  assumes "hub_registry h ''web1'' = Some c"
  shows "forward exampleValid (hub_registry h) (\<lambda>_. True) True (sc_User exampleConn)
    (Some examplePayload) = Bridged ''web1'' (cn_session c)"
proof -
  have "BackendByName exampleValid ''www'' = Some (hd (cfg_Backends exampleConfig))" by code_simp
  with assms show ?thesis
    by (simp add: forward_def Let_def examplePayload_def exampleConn_def exampleConfig_def Open_def)
qed

lemma mayServe_iff:
  assumes valid: "Validate parseKey c0 = Inr cfg"
    and new: "NewProxy parse cfg readFile privateKeyOk = Inr conf"
    and sound: "handshakeSound handshake proves" and hs: "handshake conf client = Some c"
  shows "mayServe cfg c \<longleftrightarrow> sc_Permissions c \<noteq> None \<or> isOpenJumpUser cfg (sc_User c)"
proof (cases "sc_Permissions c")
  case None
  then show ?thesis by (simp add: mayServe_def)
next
  case (Some perms)
  with sound hs obtain pk where "ssc_PublicKeyCallback conf (sc_User c) pk = Some perms"
    unfolding handshakeSound_def by fastforce
  with NewProxy_callback [OF new] have pk: "authorize parse cfg (sc_User c) pk = Some perms" by simp
  then have "sc_User c \<in> ju_Name ` set (cfg_JumpUsers cfg)"
    by (force simp: authorize_def authorizeLoop_iff)
  then have "sc_User c \<noteq> []"
    using ValidateD(1) [OF valid] by (auto simp: validConfig_def Let_def list_all_iff validJumpUser_def)
  with Some pk mayServe_authorized [of c parse cfg pk] show ?thesis by simp
qed

text \<open>No tunnel without jump access. In every state the proxy can reach, a tunnel to a backend
  is opened for a client only if the user it is logged in as is granted that backend and,
  unless that very user is configured without keys, the client proved that it holds one of
  that user's keys: an open user elsewhere in the configuration opens nothing else. The
  stream is the one of the agent registered for the backend.\<close>

lemma tunnel_needs_jump_access:
  assumes "Validate (validationParser parse) c0 = Inr cfg"
    and "NewProxy parse cfg readFile privateKeyOk = Inr conf"
    and "handshakeSound handshake proves" and "proxyReach cfg conf handshake p"
    and "px_conns p i = Some (Serving client c k)"
    and "forward cfg registry openStream accepted (sc_User c) payload = Bridged b s"
  shows "\<exists>u\<in>set (cfg_JumpUsers cfg). ju_Name u = sc_User c \<and> b \<in> set (ju_Backends u) \<and>
    (ju_Keys u = [] \<or>
     (\<exists>pk t. t \<in> set (ju_Keys u) \<and> proves client pk \<and> keyAllowed parse pk t)) \<and>
    lookupSession registry b = Some s"
proof -
  from served_conn [OF proxyInv_reach [OF assms(4)] assms(5)]
  have "handshake conf client = Some c" "mayServe cfg c" by simp_all
  from served_admitted [OF assms(2,3) this]
  have adm: "admitted parse cfg proves client (sc_User c)" .
  from assms(6) obtain u where u: "u \<in> set (cfg_JumpUsers cfg)" "ju_Name u = sc_User c"
    "b \<in> set (ju_Backends u)" "lookupSession registry b = Some s"
    unfolding forward_iff lookupSession_def by auto
  from admitted_user [OF ValidateD(1) [OF assms(1)] adm u(1,2)] u show ?thesis by blast
qed

text \<open>A port other than 22, a name that is no backend's, and a backend that the user is not
  granted are refused without a look at the registry.\<close>

lemma forward_refuses_unseen:
  assumes "\<not> (\<exists>p b. payload = Some p \<and> dp_DestPort p = 22 \<and>
      BackendByName cfg (dp_DestAddr p) = Some b \<and>
      (\<exists>u\<in>set (cfg_JumpUsers cfg). ju_Name u = user \<and> be_ID b \<in> set (ju_Backends u)))"
  shows "\<exists>msg. \<forall>registry openStream accepted.
    forward cfg registry openStream accepted user payload = Rejected Prohibited msg"
proof (cases "\<exists>p. payload = Some p \<and> dp_DestPort p = 22")
  case False
  then show ?thesis
    by (intro exI [of _ "''only configured backend names on logical port 22 are allowed''"])
      (auto simp: forward_def split: option.splits)
next
  case True
  with assms show ?thesis
    by (intro exI [of _ "''destination denied''"])
      (auto simp: forward_def Let_def grantLoop_iff split: option.splits)
qed

subsection \<open>Properties\<close>

text \<open>C24: forwarding decides exactly. A channel is bridged to a backend precisely when its request
  decodes, asks for port 22, names the backend by its id or an alias as
  \<open>BackendByName\<close> resolves it, the user is granted that backend, the backend's agent is connected and opens a
  stream, and the channel can be accepted.\<close>

theorem forward_exact:
  "forward cfg registry openStream accepted user payload = Bridged i s \<longleftrightarrow>
   accepted \<and>
   (\<exists>p b. payload = Some p \<and> dp_DestPort p = 22 \<and> BackendByName cfg (dp_DestAddr p) = Some b \<and>
      i = be_ID b) \<and>
   (\<exists>u\<in>set (cfg_JumpUsers cfg). ju_Name u = user \<and> i \<in> set (ju_Backends u)) \<and>
   (\<exists>c. registry i = Some c \<and> s = cn_session c \<and> openStream s)"
  by (rule forward_iff)

text \<open>C19: the proxy's resources are bounded. However its connections interleave, at most 8 of one
  source are in their handshake, at most 256 are alive, and each client has at most 16
  channels.\<close>

theorem proxy_bounded:
  assumes "proxyReach cfg conf handshake p"
  shows "card (handshakesOf p k) \<le> 8 \<and> card (dom (px_conns p)) \<le> 256 \<and>
    channelsOf p i \<le> 16"
  using handshakes_bound [OF proxyInv_reach [OF assms], of k]
    channels_bound [OF proxyInv_reach [OF assms], of i] proxyInv_reach [OF assms]
  by (auto simp: proxyInv_def placesOK_def connectionSlots_def channelSlots_def)

theorem proxy_bounded_witness:
  "\<exists>p i. px_conns p i = Some (Serving (''alice'', Some ''blob1'') exampleConn 0) \<and>
     card (handshakesOf p ''10.0.0.7'') \<le> 8 \<and> card (dom (px_conns p)) \<le> 256 \<and> channelsOf p i \<le> 16"
proof -
  obtain p i where p: "proxyReach exampleValid exampleServer exampleHandshake p"
    "px_conns p i = Some (Serving (''alice'', Some ''blob1'') exampleConn 0)"
    using exampleConn_served by blast
  with proxy_bounded [OF p(1)] show ?thesis by blast
qed

text \<open>Who has access is served. When the limiter admits the connection, a place is free and the
  handshake gives the client permissions or the client's user is an open one, the client can
  be served, its connection being at the number the proxy has next.\<close>

theorem authorized_client_is_served:
  assumes "Validate (validationParser parse) c0 = Inr cfg"
    and "NewProxy parse cfg readFile privateKeyOk = Inr conf" and "handshakeSound handshake proves"
    and "fst (fst (Acquire (px_limiter p) addr now)) = Allowed" and "px_slots p < connectionSlots"
    and "handshake conf client = Some c"
    and "sc_Permissions c \<noteq> None \<or> isOpenJumpUser cfg (sc_User c)"
  shows "\<exists>p'. proxySteps cfg conf handshake p p' \<and>
    px_conns p' (px_next p) = Some (Serving client c 0)"
  using assms(4-6) mayServe_iff [OF assms(1-3,6)] assms(7) by (intro client_served) simp_all

theorem authorized_client_is_served_witness:
  "\<exists>p'. proxySteps exampleValid exampleServer exampleHandshake startProxy p' \<and>
    px_conns p' 0 = Some (Serving (''alice'', Some ''blob1'') exampleConn 0)"
proof -
  have "fst (fst (Acquire (px_limiter (startProxy :: exampleClient Proxy)) None 1000)) = Allowed"
    by code_simp
  from authorized_client_is_served [where handshake = exampleHandshake and p = startProxy
      and client = "(''alice'', Some ''blob1'')", OF exampleConfig_valid [folded exampleKeys_parser]
      exampleServer_New exampleHandshake_sound this _ exampleConn_authorized]
  show ?thesis by (simp add: startProxy_def connectionSlots_def exampleConn_def)
qed

end
