(* ===== verification/Go_IP.thy ===== *)
theory Go_IP
  imports Go_Net
begin

text \<open>
  Go's \<open>net.ParseIP\<close>, over \<open>netip.ParseAddr\<close>, and \<open>IP.IsLoopback\<close>. An address is its sixteen
  bytes; \<open>None\<close> is nil. A textual zone, which \<open>ParseIP\<close> refuses, is refused at once.
\<close>

type_synonym IP = "nat list"

text \<open>The loop of \<open>parseIPv4Fields\<close>: the character before, the finished fields, the value and the
  number of digits of the current one.\<close>

fun ipv4Loop :: "char option \<Rightarrow> nat list \<Rightarrow> nat \<Rightarrow> nat \<Rightarrow> string \<Rightarrow> nat list option" where
  "ipv4Loop prev fields val digLen [] =
     (if length fields < 3 then None else Some (fields @ [val]))"
| "ipv4Loop prev fields val digLen (c # cs) =
     (if isDigit c then
        if digLen = 1 \<and> val = 0 then None
        else let val = val * 10 + digitVal c in
          if 255 < val then None else ipv4Loop (Some c) fields val (digLen + 1) cs
      else if c = CHR ''.'' then
        if prev = None \<or> cs = [] \<or> prev = Some CHR ''.'' then None
        else if length fields = 3 then None
        else ipv4Loop (Some c) (fields @ [val]) 0 0 cs
      else None)"

definition parseIPv4Fields :: "string \<Rightarrow> nat list option" where
  "parseIPv4Fields s = ipv4Loop None [] 0 0 s"

definition mappedIPv4 :: "nat list \<Rightarrow> IP" where
  "mappedIPv4 b = replicate 10 0 @ [255, 255] @ b"

definition hexVal :: "char \<Rightarrow> nat option" where
  "hexVal c =
     (let n = of_char c in
      if 48 \<le> n \<and> n \<le> 57 then Some (n - 48)
      else if 97 \<le> n \<and> n \<le> 102 then Some (n - 87)
      else if 65 \<le> n \<and> n \<le> 70 then Some (n - 55)
      else None)"

definition hexGroup :: "string \<Rightarrow> string" where
  "hexGroup s = takeWhile (\<lambda>c. hexVal c \<noteq> None) s"

definition hexNumber :: "string \<Rightarrow> nat" where
  "hexNumber s = foldl (\<lambda>acc c. 16 * acc + the (hexVal c)) 0 s"

text \<open>
  The loop of \<open>parseIPv6\<close> over what is left of the string, with the bytes so far and where the
  ellipsis stood. A fifth hexadecimal digit is an error, so a group is below \<open>2 ^ 16\<close>.
\<close>

function ipv6Loop :: "nat option \<Rightarrow> nat list \<Rightarrow> string \<Rightarrow> (nat option \<times> nat list \<times> string) option" where
  "ipv6Loop ell ip s =
     (if 16 \<le> length ip then Some (ell, ip, s)
      else
        let off = length (hexGroup s);
            acc = hexNumber (hexGroup s);
            ip' = ip @ [acc div 256, acc mod 256] in
        if 4 < off \<or> off = 0 then None
        else case drop off s of
          [] \<Rightarrow> Some (ell, ip', [])
        | c # cs \<Rightarrow>
            if c = CHR ''.'' then
              if ell = None \<and> length ip \<noteq> 12 then None
              else if 16 < length ip + 4 then None
              else map_option (\<lambda>fs. (ell, ip @ fs, [])) (parseIPv4Fields s)
            else if c \<noteq> CHR '':'' then None
            else (case cs of
                [] \<Rightarrow> None
              | d # ds \<Rightarrow>
                  if d = CHR '':'' then
                    if ell \<noteq> None then None
                    else if ds = [] then Some (Some (length ip'), ip', [])
                    else ipv6Loop (Some (length ip')) ip' ds
                  else ipv6Loop ell ip' cs))"
  by pat_completeness auto
termination
  by (relation "measure (\<lambda>(ell, ip, s). 16 - length ip)") auto

declare ipv6Loop.simps [simp del]

definition parseIPv6 :: "string \<Rightarrow> IP option" where
  "parseIPv6 s =
     (let lead = hasPrefix s ''::''; s = (if lead then drop 2 s else s) in
      if lead \<and> s = [] then Some (replicate 16 0)
      else case ipv6Loop (if lead then Some 0 else None) [] s of
        None \<Rightarrow> None
      | Some (ell, ip, rest) \<Rightarrow>
          if rest \<noteq> [] then None
          else if length ip < 16 then
            (case ell of
               None \<Rightarrow> None
             | Some e \<Rightarrow> Some (take e ip @ replicate (16 - length ip) 0 @ drop e ip))
          else if ell \<noteq> None then None
          else Some ip)"

definition ParseIP :: "string \<Rightarrow> IP option" where
  "ParseIP s =
     (case find (\<lambda>c. c = CHR ''.'' \<or> c = CHR '':'' \<or> c = CHR ''%'') s of
        None \<Rightarrow> None
      | Some c \<Rightarrow>
          if c = CHR ''.'' then map_option mappedIPv4 (parseIPv4Fields s)
          else if c = CHR ''%'' \<or> CHR ''%'' \<in> set s then None
          else parseIPv6 s)"

definition To4 :: "IP \<Rightarrow> nat list option" where
  "To4 ip = (if take 10 ip = replicate 10 0 \<and> ip ! 10 = 255 \<and> ip ! 11 = 255
             then Some (drop 12 ip) else None)"

definition IsLoopback :: "IP \<Rightarrow> bool" where
  "IsLoopback ip =
     (case To4 ip of Some ip4 \<Rightarrow> ip4 ! 0 = 127 | None \<Rightarrow> ip = replicate 15 0 @ [1])"

text \<open>The check the agent makes of the address of its SSH server.\<close>

definition loopbackAddr :: "string \<Rightarrow> bool" where
  "loopbackAddr addr \<longleftrightarrow>
     (case SplitHostPort addr of
        None \<Rightarrow> False
      | Some (host, port) \<Rightarrow> (case ParseIP host of None \<Rightarrow> False | Some ip \<Rightarrow> IsLoopback ip))"

text \<open>Which literals pass.\<close>

lemma loopback_examples:
  "list_all loopbackAddr [''127.0.0.1:22'', ''127.200.3.4:2222'', ''[::1]:22'', ''[0:0::0001]:22'',
     ''[::ffff:127.0.0.1]:22'']"
  "list_all (\<lambda>a. \<not> loopbackAddr a) [''localhost:22'', ''0.0.0.0:22'', ''127.0.0.01:22'', ''127.0.0:22'',
     ''127.0.0.256:22'', ''[::]:22'', ''[::1%lo]:22'', ''::1:22'', ''127.0.0.1'', ''[::1::]:22'',
     ''[1:2:3:4:5:6:7::8]:22'', ''128.0.0.1:22'']"
  by code_simp+

subsection \<open>Dotted literals\<close>

text \<open>The first field of a parsed literal is the number before its first dot.\<close>

lemma ipv4Loop_keeps:
  "ipv4Loop prev (f # fs) val n s = Some r \<Longrightarrow> hd r = f"
  by (induction prev "f # fs" val n s arbitrary: fs rule: ipv4Loop.induct)
    (auto simp: Let_def split: if_splits)

lemma ipv4Loop_first:
  assumes "ipv4Loop prev [] val n s = Some r"
  shows "\<exists>ds rest. s = ds @ CHR ''.'' # rest \<and> list_all isDigit ds \<and>
    hd r = foldl (\<lambda>v c. v * 10 + digitVal c) val ds \<and> (n = 1 \<and> val = 0 \<longrightarrow> ds = [])"
  using assms
proof (induction s arbitrary: prev val n)
  case Nil
  then show ?case by simp
next
  case (Cons c cs)
  show ?case
  proof (cases "isDigit c")
    case True
    with Cons.prems have step: "\<not> (n = 1 \<and> val = 0)"
      "ipv4Loop (Some c) [] (val * 10 + digitVal c) (n + 1) cs = Some r"
      by (auto simp: Let_def split: if_splits)
    from Cons.IH [OF step(2)] obtain ds rest where
      "cs = ds @ CHR ''.'' # rest" "list_all isDigit ds"
      "hd r = foldl (\<lambda>v c. v * 10 + digitVal c) (val * 10 + digitVal c) ds" by blast
    with True step(1) show ?thesis by (intro exI [of _ "c # ds"] exI [of _ rest]) auto
  next
    case False
    with Cons.prems have "c = CHR ''.''" "ipv4Loop (Some c) [val] 0 0 cs = Some r"
      by (auto split: if_splits)
    with ipv4Loop_keeps [OF this(2)] show ?thesis
      by (intro exI [of _ "[]"] exI [of _ cs]) simp
  qed
qed

lemma foldl_digits_mono: "v * 10 ^ length ds \<le> foldl (\<lambda>v c. v * 10 + digitVal c) v ds"
proof (induction ds arbitrary: v)
  case Nil
  then show ?case by simp
next
  case (Cons c ds)
  have "v * 10 ^ length (c # ds) \<le> (v * 10 + digitVal c) * 10 ^ length ds"
    by (simp add: algebra_simps)
  also have "\<dots> \<le> foldl (\<lambda>v c. v * 10 + digitVal c) v (c # ds)" using Cons by simp
  finally show ?case .
qed

lemma digitVal_eq: "isDigit c \<Longrightarrow> digitVal c = n \<Longrightarrow> n \<le> 9 \<Longrightarrow> c = char_of (n + 48)"
  by (simp add: isDigit_def digitVal_def) (metis char_of_char le_add_diff_inverse2)

lemma digitVal_le: "isDigit c \<Longrightarrow> digitVal c \<le> 9"
  unfolding isDigit_def digitVal_def by linarith

lemma number_127:
  fixes x y z :: nat
  assumes "(x * 10 + y) * 10 + z = 127" "x \<le> 9" "y \<le> 9" "z \<le> 9" "x \<noteq> 0"
  shows "x = 1 \<and> y = 2 \<and> z = 7"
proof -
  have sum: "100 * x + 10 * y + z = 127" using assms(1) by simp
  have "\<not> 2 \<le> x" using sum by linarith
  with assms(5) have x: "x = 1" by linarith
  have "\<not> y \<le> 1" "\<not> 3 \<le> y" using sum x assms(4) by linarith+
  then have "y = 2" by linarith
  with sum x show ?thesis by simp
qed

text \<open>A dotted literal is a loopback address exactly when it starts with \<open>127.\<close>.\<close>

text \<open>A number from 100 to 999 without a leading zero has three digits.\<close>

lemma three_digits:
  assumes ds: "list_all isDigit (c # ds)" and c0: "digitVal c \<noteq> 0"
    and val: "100 \<le> foldl (\<lambda>v c. v * 10 + digitVal c) 0 (c # ds)"
      "foldl (\<lambda>v c. v * 10 + digitVal c) 0 (c # ds) < 1000"
  obtains d e where "ds = [d, e]"
proof -
  have "length ds < 3"
  proof (rule ccontr)
    assume "\<not> length ds < 3"
    then have "(10::nat) ^ 3 \<le> 10 ^ length ds" by (intro power_increasing) auto
    also have "\<dots> \<le> digitVal c * 10 ^ length ds" using c0 by simp
    also have "\<dots> \<le> foldl (\<lambda>v c. v * 10 + digitVal c) 0 (c # ds)"
      using foldl_digits_mono [of "digitVal c" ds] by simp
    finally show False using val(2) by simp
  qed
  then consider "ds = []" | d where "ds = [d]" | d e where "ds = [d, e]"
    by (cases ds; cases "tl ds"; cases "tl (tl ds)") auto
  then show ?thesis
  proof cases
    case 1
    then show ?thesis using val ds digitVal_le [of c] by simp
  next
    case (2 d)
    then show ?thesis using val ds digitVal_le [of c] digitVal_le [of d] by simp
  next
    case (3 d e)
    then show ?thesis by (rule that)
  qed
qed

lemma first_field_127:
  assumes "ipv4Loop None [] 0 0 s = Some r" "hd r = 127"
  shows "hasPrefix s ''127.''"
proof -
  obtain ds rest where s: "s = ds @ CHR ''.'' # rest" and ds: "list_all isDigit ds"
    and hd: "foldl (\<lambda>v c. v * 10 + digitVal c) 0 ds = 127"
    using ipv4Loop_first [OF assms(1)] assms(2) by auto
  obtain c ds1 where c: "ds = c # ds1" using hd by (cases ds) auto
  have c0: "digitVal c \<noteq> 0"
  proof
    assume "digitVal c = 0"
    moreover from this have "ipv4Loop (Some c) [] 0 1 (ds1 @ CHR ''.'' # rest) = Some r"
      using assms(1) ds by (simp add: s c)
    ultimately have "hd r = 0"
      using ipv4Loop_first [of "Some c" 0 1] by fastforce
    with assms(2) show False by simp
  qed
  obtain d e where ds': "ds = [c, d, e]"
    using three_digits [of c ds1] ds c0 hd by (auto simp: c)
  have "digitVal c = 1 \<and> digitVal d = 2 \<and> digitVal e = 7"
  proof -
    have "(digitVal c * 10 + digitVal d) * 10 + digitVal e = 127" using hd by (simp add: ds')
    moreover have "digitVal c \<le> 9" "digitVal d \<le> 9" "digitVal e \<le> 9"
      using ds digitVal_le by (simp_all add: ds')
    ultimately show ?thesis using c0 by (rule number_127)
  qed
  then have "c = char_of (49::nat) \<and> d = char_of (50::nat) \<and> e = char_of (55::nat)"
    using ds digitVal_eq [of c 1] digitVal_eq [of d 2] digitVal_eq [of e 7] by (simp add: ds')
  moreover have "char_of (49::nat) = CHR ''1''" "char_of (50::nat) = CHR ''2''"
    "char_of (55::nat) = CHR ''7''"
    by code_simp+
  ultimately have "ds = ''127''" by (simp only: ds')
  then show ?thesis by (simp add: s hasPrefix_def)
qed

lemma ipv4Loop_not_Nil: "ipv4Loop prev fields val n s = Some r \<Longrightarrow> r \<noteq> []"
  by (induction prev fields val n s rule: ipv4Loop.induct) (auto simp: Let_def split: if_splits)

lemma IsLoopback_mapped: "b \<noteq> [] \<Longrightarrow> IsLoopback (mappedIPv4 b) \<longleftrightarrow> hd b = 127"
  by (simp add: IsLoopback_def To4_def mappedIPv4_def hd_conv_nth nth_append)

lemma loopback_literal:
  assumes "CHR '':'' \<notin> set h" "ParseIP h = Some ip"
  shows "IsLoopback ip \<longleftrightarrow> hasPrefix h ''127.''"
proof -
  obtain r where r: "ipv4Loop None [] 0 0 h = Some r" "ip = mappedIPv4 r"
    using assms
    by (auto simp: ParseIP_def parseIPv4Fields_def split: option.splits if_splits
        dest!: find_SomeD)
  have "hd r = 127" if "hasPrefix h ''127.''"
  proof -
    from that obtain rest where "h = ''127.'' @ rest" by (auto simp: hasPrefix_iff)
    with r(1) have "ipv4Loop (Some CHR ''.'') [127] 0 0 rest = Some r"
      by (simp add: isDigit_def digitVal_def split: if_splits)
    then show ?thesis by (rule ipv4Loop_keeps)
  qed
  then show ?thesis
    using first_field_127 [OF r(1)] IsLoopback_mapped [OF ipv4Loop_not_Nil [OF r(1)]] r(2) by blast
qed

end
