(* ===== verification/HubTLS.thy ===== *)
theory HubTLS
  imports Go_IP Go_Encoding "HOL-Library.Word"
begin

unbundle bit_operations_syntax

text \<open>
  \<open>internal/hubtls/hubtls.go\<close>: the control plane's TLS identity, its pin, and the agent's check
  of it. X.509, PEM, SHA-256 and the generation of keys are the record \<open>tlsLib\<close>. The files are
  those the hub writes, with the mode asked for (384 is octal 600, 420 is 644); creating
  directories touches none of them.
\<close>

subsection \<open>The library\<close>

datatype keyUsage = KeyEncipherment | DigitalSignature | CertSign

record certTemplate =
  ct_SerialNumber :: nat
  ct_CommonName :: string
  ct_NotBefore :: time
  ct_NotAfter :: time
  ct_KeyUsage :: "keyUsage list"
  ct_ServerAuth :: bool
  ct_BasicConstraintsValid :: bool
  ct_IsCA :: bool
  ct_IPAddresses :: "IP list"
  ct_DNSNames :: "string list"

record Certificate =
  xc_RawSubjectPublicKeyInfo :: string

text \<open>A key pair as \<open>tls.Certificate\<close> holds it: the chain in DER and the private key.\<close>

record tlsCertificate =
  tc_Certificate :: "string list"
  tc_PrivateKey :: string

record tlsLib =
  tl_Sum256 :: "string \<Rightarrow> string"
  tl_ParseCertificate :: "string \<Rightarrow> Certificate option"
  tl_Decode :: "string \<Rightarrow> (string \<times> string) option"
  tl_EncodeToMemory :: "string \<Rightarrow> string \<Rightarrow> string"
  tl_X509KeyPair :: "string \<Rightarrow> string \<Rightarrow> tlsCertificate option"
  tl_CreateCertificate :: "certTemplate \<Rightarrow> string \<Rightarrow> string option"
  tl_MarshalECPrivateKey :: "string \<Rightarrow> string option"
  tl_AddYears :: "time \<Rightarrow> nat \<Rightarrow> time"

subsection \<open>Pins\<close>

definition pinPrefix :: string where "pinPrefix = ''sha256:''"

definition Fingerprint :: "tlsLib \<Rightarrow> Certificate \<Rightarrow> string" where
  "Fingerprint lib cert =
     pinPrefix @ StdEncode (tl_Sum256 lib (xc_RawSubjectPublicKeyInfo cert))"

datatype pemError = NoPEMCertificate | PEMCertificateUnparsable

definition FingerprintFromPEM :: "tlsLib \<Rightarrow> string \<Rightarrow> pemError + string" where
  "FingerprintFromPEM lib pemBytes =
     (case tl_Decode lib pemBytes of
        None \<Rightarrow> Inl NoPEMCertificate
      | Some (blockType, bytes) \<Rightarrow>
          if blockType \<noteq> ''CERTIFICATE'' then Inl NoPEMCertificate
          else case tl_ParseCertificate lib bytes of
            None \<Rightarrow> Inl PEMCertificateUnparsable
          | Some cert \<Rightarrow> Inr (Fingerprint lib cert))"

datatype pinError = PinPrefix | PinNotBase64 | PinLength nat

definition parsePin :: "string \<Rightarrow> pinError + string" where
  "parsePin pin =
     (if length pin \<le> length pinPrefix \<or> take (length pinPrefix) pin \<noteq> pinPrefix
      then Inl PinPrefix
      else case StdDecode (drop (length pinPrefix) pin) of
        None \<Rightarrow> Inl PinNotBase64
      | Some raw \<Rightarrow> if length raw \<noteq> 32 then Inl (PinLength (length raw)) else Inr raw)"

text \<open>The comparison looks at every byte, whatever the first difference.\<close>

definition constantTimeEqual :: "string \<Rightarrow> string \<Rightarrow> bool" where
  "constantTimeEqual a b =
     (if length a \<noteq> length b then False
      else fold (\<lambda>i diff. diff OR (of_char (a ! i) XOR of_char (b ! i))) [0..<length a] (0 :: 8 word)
        = 0)"

subsection \<open>TLS configurations\<close>

datatype peerError = NoPeerCertificate | PeerCertificateUnparsable | PinMismatch string string

record tlsConfig =
  cc_Certificates :: "tlsCertificate list"
  cc_ServerName :: string
  cc_MinVersion :: nat
  cc_InsecureSkipVerify :: bool
  cc_VerifyPeerCertificate :: "(string list \<Rightarrow> peerError + unit) option"

definition VersionTLS12 :: nat where "VersionTLS12 = 0x0303"

definition tlsServerConfig :: "tlsCertificate \<Rightarrow> tlsConfig" where
  "tlsServerConfig cert = \<lparr>cc_Certificates = [cert], cc_ServerName = [], cc_MinVersion = VersionTLS12,
     cc_InsecureSkipVerify = False, cc_VerifyPeerCertificate = None\<rparr>"

definition verifyPin :: "tlsLib \<Rightarrow> string \<Rightarrow> string list \<Rightarrow> peerError + unit" where
  "verifyPin lib pin rawCerts =
     (case rawCerts of
        [] \<Rightarrow> Inl NoPeerCertificate
      | der # _ \<Rightarrow>
          (case tl_ParseCertificate lib der of
             None \<Rightarrow> Inl PeerCertificateUnparsable
           | Some cert \<Rightarrow>
               let got = Fingerprint lib cert in
               if \<not> constantTimeEqual got pin then Inl (PinMismatch pin got) else Inr ()))"

definition ClientConfig :: "tlsLib \<Rightarrow> string \<Rightarrow> string \<Rightarrow> pinError + tlsConfig" where
  "ClientConfig lib serverName pin =
     (if pin = [] then
        Inr \<lparr>cc_Certificates = [], cc_ServerName = serverName, cc_MinVersion = VersionTLS12,
             cc_InsecureSkipVerify = False, cc_VerifyPeerCertificate = None\<rparr>
      else case parsePin pin of
        Inl err \<Rightarrow> Inl err
      | Inr raw \<Rightarrow>
          Inr \<lparr>cc_Certificates = [], cc_ServerName = serverName, cc_MinVersion = VersionTLS12,
               cc_InsecureSkipVerify = True, cc_VerifyPeerCertificate = Some (verifyPin lib pin)\<rparr>)"

subsection \<open>The hub's key pair\<close>

record tlsFile =
  fl_Content :: string
  fl_Mode :: nat

type_synonym tlsFiles = "string \<rightharpoonup> tlsFile"

text \<open>What a write to a file meets: no error, none but at opening it, or one after some bytes.\<close>

datatype writeFault = WriteOK | OpenFails | WriteStops nat

text \<open>\<open>os.WriteFile\<close>: an existing file is truncated and keeps its mode.\<close>

definition WriteFile ::
  "writeFault \<Rightarrow> string \<Rightarrow> string \<Rightarrow> nat \<Rightarrow> tlsFiles \<Rightarrow> bool \<times> tlsFiles" where
  "WriteFile flt path content mode fs =
     (let m = (case fs path of None \<Rightarrow> mode | Some f \<Rightarrow> fl_Mode f) in
      case flt of
        WriteOK \<Rightarrow> (True, fs(path \<mapsto> \<lparr>fl_Content = content, fl_Mode = m\<rparr>))
      | OpenFails \<Rightarrow> (False, fs)
      | WriteStops n \<Rightarrow> (False, fs(path \<mapsto> \<lparr>fl_Content = take n content, fl_Mode = m\<rparr>)))"

datatype tlsError =
    PathsRequired
  | LoadKeyPair
  | IncompleteKeyPair
  | GenerateKey
  | GenerateSerial
  | CreateCertificate
  | MarshalKey
  | CreateDirectory
  | WriteKey
  | WriteCertificate
  | ParseGenerated

text \<open>What the environment gives to one call.\<close>

record tlsEnv =
  te_Key :: "string option"
  te_Serial :: "nat option"
  te_Now :: time
  te_MkdirCert :: bool
  te_MkdirKey :: bool
  te_WriteKey :: writeFault
  te_WriteCert :: writeFault

text \<open>The names and addresses a certificate is issued for.\<close>

definition subjectAltNames :: "string list \<Rightarrow> IP list \<times> string list" where
  "subjectAltNames hosts =
     (let (ips, names) = fold (\<lambda>h (ips, names).
            case ParseIP h of
              Some ip \<Rightarrow> (ips @ [ip], names)
            | None \<Rightarrow> if h \<noteq> [] then (ips, names @ [h]) else (ips, names)) hosts ([], [])
      in if names = [] \<and> ips = [] then ([mappedIPv4 [127, 0, 0, 1]], [''localhost'']) else (ips, names))"

definition generateSelfSigned ::
  "tlsLib \<Rightarrow> tlsEnv \<Rightarrow> string list \<Rightarrow> tlsError + string \<times> string" where
  "generateSelfSigned lib env hosts =
     (case te_Key env of
        None \<Rightarrow> Inl GenerateKey
      | Some k \<Rightarrow>
          (case te_Serial env of
             None \<Rightarrow> Inl GenerateSerial
           | Some serial \<Rightarrow>
               let (ips, names) = subjectAltNames hosts;
                   tmpl = \<lparr>ct_SerialNumber = serial, ct_CommonName = ''sshhub control plane'',
                           ct_NotBefore = te_Now env - hour, ct_NotAfter = tl_AddYears lib (te_Now env) 10,
                           ct_KeyUsage = [KeyEncipherment, DigitalSignature, CertSign],
                           ct_ServerAuth = True, ct_BasicConstraintsValid = True, ct_IsCA = True,
                           ct_IPAddresses = ips, ct_DNSNames = names\<rparr> in
               case tl_CreateCertificate lib tmpl k of
                 None \<Rightarrow> Inl CreateCertificate
               | Some der \<Rightarrow>
                   (case tl_MarshalECPrivateKey lib k of
                      None \<Rightarrow> Inl MarshalKey
                    | Some keyDER \<Rightarrow>
                        Inr (tl_EncodeToMemory lib ''CERTIFICATE'' der,
                             tl_EncodeToMemory lib ''EC PRIVATE KEY'' keyDER))))"

definition LoadOrCreate ::
  "tlsLib \<Rightarrow> tlsEnv \<Rightarrow> string \<Rightarrow> string \<Rightarrow> string list \<Rightarrow> tlsFiles \<Rightarrow>
   (tlsError + tlsCertificate) \<times> tlsFiles" where
  "LoadOrCreate lib env certPath keyPath hosts fs =
     (if certPath = [] \<or> keyPath = [] then (Inl PathsRequired, fs)
      else case (fs certPath, fs keyPath) of
        (Some c, Some k) \<Rightarrow>
          (case tl_X509KeyPair lib (fl_Content c) (fl_Content k) of
             None \<Rightarrow> (Inl LoadKeyPair, fs)
           | Some cert \<Rightarrow> (Inr cert, fs))
      | (Some c, None) \<Rightarrow> (Inl IncompleteKeyPair, fs)
      | (None, Some k) \<Rightarrow> (Inl IncompleteKeyPair, fs)
      | (None, None) \<Rightarrow>
          (case generateSelfSigned lib env hosts of
             Inl err \<Rightarrow> (Inl err, fs)
           | Inr (certPEM, keyPEM) \<Rightarrow>
               if te_MkdirCert env \<or> te_MkdirKey env then (Inl CreateDirectory, fs)
               else
                 let (ok, fs) = WriteFile (te_WriteKey env) keyPath keyPEM 384 fs in
                 if \<not> ok then (Inl WriteKey, fs)
                 else
                   let (ok, fs) = WriteFile (te_WriteCert env) certPath certPEM 420 fs in
                   if \<not> ok then (Inl WriteCertificate, fs)
                   else case tl_X509KeyPair lib certPEM keyPEM of
                     None \<Rightarrow> (Inl ParseGenerated, fs)
                   | Some cert \<Rightarrow> (Inr cert, fs)))"

subsection \<open>The comparison is equality\<close>

lemma or_fold_zero:
  fixes d :: "8 word"
  shows "fold (\<lambda>i diff. diff OR f i) is d = 0 \<longleftrightarrow> d = 0 \<and> (\<forall>i\<in>set is. f i = 0)"
  by (induction "is" arbitrary: d) (auto simp: or_eq_0_iff)

lemma char_word_eq [simp]: "(of_char c :: 8 word) = of_char d \<longleftrightarrow> c = d"
proof
  assume "(of_char c :: 8 word) = of_char d"
  then have "unat (of_char c :: 8 word) = unat (of_char d :: 8 word)" by simp
  moreover have "unat (of_char x :: 8 word) = of_char x" for x
  proof -
    have "(of_char x :: 8 word) = of_nat (of_char x)" by (rule of_nat_of_char [symmetric])
    then show ?thesis by (simp add: unat_of_nat)
  qed
  ultimately have "(of_char c :: nat) = of_char d" by metis
  then show "c = d" by simp
qed simp

lemma xor_word_zero: "x XOR y = 0 \<longleftrightarrow> x = y" for x y :: "8 word"
proof
  assume "x XOR y = 0"
  then have "(x XOR y) XOR y = 0 XOR y" by simp
  then show "x = y" by (simp add: ac_simps)
qed simp

lemma constantTimeEqual_eq: "constantTimeEqual a b \<longleftrightarrow> a = b"
proof (cases "length a = length b")
  case True
  have "constantTimeEqual a b \<longleftrightarrow> (\<forall>i\<in>set [0..<length a]. of_char (a ! i) XOR of_char (b ! i) = (0 :: 8 word))"
    using True by (simp add: constantTimeEqual_def or_fold_zero)
  also have "\<dots> \<longleftrightarrow> (\<forall>i<length a. a ! i = b ! i)"
    by (auto simp: xor_word_zero)
  finally show ?thesis using True by (simp add: list_eq_iff_nth_eq)
qed (auto simp: constantTimeEqual_def)

subsection \<open>Pins\<close>

lemma parsePin_Inr:
  "parsePin pin = Inr raw \<longleftrightarrow>
   (\<exists>b. pin = pinPrefix @ b \<and> b \<noteq> [] \<and> StdDecode b = Some raw) \<and> length raw = 32"
proof -
  have "length pinPrefix < length pin \<and> take (length pinPrefix) pin = pinPrefix \<longleftrightarrow>
      (\<exists>b. pin = pinPrefix @ b \<and> b \<noteq> [])"
    by (metis append_take_drop_id append_Nil2 drop_eq_Nil linorder_not_le append_eq_conv_conj
        length_append length_greater_0_conv less_add_same_cancel1)
  then show ?thesis
    by (auto simp: parsePin_def not_le split: option.splits if_splits)
qed

lemma verifyPin_Inr:
  "verifyPin lib pin chain = Inr () \<longleftrightarrow>
   (\<exists>der rest cert. chain = der # rest \<and> tl_ParseCertificate lib der = Some cert \<and>
      Fingerprint lib cert = pin)"
  by (auto simp: verifyPin_def Let_def constantTimeEqual_eq split: list.splits option.splits)

lemma ClientConfig_pin:
  "pin \<noteq> [] \<Longrightarrow> ClientConfig lib name pin = Inr conf \<longleftrightarrow>
   (\<exists>raw. parsePin pin = Inr raw) \<and>
   conf = \<lparr>cc_Certificates = [], cc_ServerName = name, cc_MinVersion = VersionTLS12,
     cc_InsecureSkipVerify = True, cc_VerifyPeerCertificate = Some (verifyPin lib pin)\<rparr>"
  by (auto simp: ClientConfig_def split: sum.splits)

lemma Fingerprint_pin:
  "Fingerprint lib cert = pinPrefix @ b \<Longrightarrow>
   StdDecode b = Some (tl_Sum256 lib (xc_RawSubjectPublicKeyInfo cert))"
  by (auto simp: Fingerprint_def StdDecode_StdEncode)

lemma parsePin_Fingerprint:
  assumes "length (tl_Sum256 lib (xc_RawSubjectPublicKeyInfo cert)) = 32"
  shows "parsePin (Fingerprint lib cert) = Inr (tl_Sum256 lib (xc_RawSubjectPublicKeyInfo cert))"
proof -
  have "StdEncode (tl_Sum256 lib (xc_RawSubjectPublicKeyInfo cert)) \<noteq> []"
    using assms by (intro encode64_not_Nil) auto
  then show ?thesis using assms by (auto simp: parsePin_Inr Fingerprint_def StdDecode_StdEncode)
qed

subsection \<open>The key pair on disk\<close>

lemma WriteFile_True:
  "WriteFile flt path content mode fs = (True, fs') \<longleftrightarrow>
   flt = WriteOK \<and> fs' = fs(path \<mapsto> \<lparr>fl_Content = content,
     fl_Mode = (case fs path of None \<Rightarrow> mode | Some f \<Rightarrow> fl_Mode f)\<rparr>)"
  by (auto simp: WriteFile_def Let_def split: writeFault.splits)

lemma WriteFile_other:
  "WriteFile flt path content mode fs = (ok, fs') \<Longrightarrow> p \<noteq> path \<Longrightarrow> fs' p = fs p"
  by (auto simp: WriteFile_def Let_def split: writeFault.splits)

lemma WriteFile_mode:
  "WriteFile flt path content mode fs = (ok, fs') \<Longrightarrow> fs path = None \<Longrightarrow> fs' path = Some f \<Longrightarrow>
   fl_Mode f = mode"
  by (auto simp: WriteFile_def Let_def split: writeFault.splits)

text \<open>A start that creates the pair: what is on disk, and what came of it.\<close>

lemma LoadOrCreate_cases:
  assumes "LoadOrCreate lib env certPath keyPath hosts fs = (r, fs')"
  obtains (untouched) "fs' = fs"
  | (created) ok1 ok2 certPEM keyPEM fs1 where "fs certPath = None" "fs keyPath = None"
      "WriteFile (te_WriteKey env) keyPath keyPEM 384 fs = (ok1, fs1)"
      "if ok1 then WriteFile (te_WriteCert env) certPath certPEM 420 fs1 = (ok2, fs') else fs' = fs1"
proof -
  have "fs' = fs \<or> (\<exists>ok1 ok2 certPEM keyPEM fs1. fs certPath = None \<and> fs keyPath = None \<and>
      WriteFile (te_WriteKey env) keyPath keyPEM 384 fs = (ok1, fs1) \<and>
      (if ok1 then WriteFile (te_WriteCert env) certPath certPEM 420 fs1 = (ok2, fs') else fs' = fs1))"
    using assms unfolding LoadOrCreate_def
    by (fastforce simp: Let_def split: option.splits sum.splits prod.splits if_splits)
  then show ?thesis using untouched created by blast
qed

lemma LoadOrCreate_Inr:
  assumes "LoadOrCreate lib env certPath keyPath hosts fs = (Inr cert, fs')" "certPath \<noteq> keyPath"
  shows "certPath \<noteq> [] \<and> keyPath \<noteq> [] \<and> (\<exists>c k. fs' certPath = Some c \<and> fs' keyPath = Some k \<and>
    tl_X509KeyPair lib (fl_Content c) (fl_Content k) = Some cert)"
  using assms unfolding LoadOrCreate_def
  by (auto simp: Let_def WriteFile_True split: option.splits sum.splits prod.splits if_splits)

lemma LoadOrCreate_again:
  assumes "LoadOrCreate lib env certPath keyPath hosts fs = (Inr cert, fs')" "certPath \<noteq> keyPath"
  shows "LoadOrCreate lib env' certPath keyPath hosts' fs' = (Inr cert, fs')"
  using LoadOrCreate_Inr [OF assms] by (auto simp: LoadOrCreate_def)

lemma LoadOrCreate_frame:
  assumes "LoadOrCreate lib env certPath keyPath hosts fs = (r, fs')"
  shows "fs p = Some f \<Longrightarrow> fs' p = Some f" and "p \<noteq> certPath \<Longrightarrow> p \<noteq> keyPath \<Longrightarrow> fs' p = fs p"
proof -
  have other: "fs' p = fs p" if "p \<noteq> certPath \<and> p \<noteq> keyPath \<or> fs' = fs" for p
    using assms
  proof (cases rule: LoadOrCreate_cases)
    case untouched
    then show ?thesis by simp
  next
    case (created ok1 ok2 certPEM keyPEM fs1)
    with that show ?thesis by (metis WriteFile_other)
  qed
  then show "p \<noteq> certPath \<Longrightarrow> p \<noteq> keyPath \<Longrightarrow> fs' p = fs p" by blast
  show "fs' p = Some f" if f: "fs p = Some f"
    using assms
  proof (cases rule: LoadOrCreate_cases)
    case untouched
    with f show ?thesis by simp
  next
    case (created ok1 ok2 certPEM keyPEM fs1)
    with f have "p \<noteq> certPath" "p \<noteq> keyPath" by auto
    with f other show ?thesis by simp
  qed
qed

lemma LoadOrCreate_key_mode:
  assumes "LoadOrCreate lib env certPath keyPath hosts fs = (r, fs')" "certPath \<noteq> keyPath"
    and "fs keyPath = None" "fs' keyPath = Some f"
  shows "fl_Mode f = 384"
  using assms(1)
proof (cases rule: LoadOrCreate_cases)
  case untouched
  with assms show ?thesis by simp
next
  case (created ok1 ok2 certPEM keyPEM fs1)
  then have "fs1 keyPath = fs' keyPath"
    using assms(2) by (auto dest: WriteFile_other split: if_splits)
  then show ?thesis using WriteFile_mode [OF created(3) assms(3)] assms(4) by simp
qed

lemma FingerprintFromPEM_Inr:
  "FingerprintFromPEM lib pem = Inr pin \<longleftrightarrow>
   (\<exists>der cert. tl_Decode lib pem = Some (''CERTIFICATE'', der) \<and>
      tl_ParseCertificate lib der = Some cert \<and> pin = Fingerprint lib cert)"
  by (auto simp: FingerprintFromPEM_def split: option.splits if_splits)

lemma Fingerprint_not_Nil [simp]: "Fingerprint lib cert \<noteq> []"
  by (simp add: Fingerprint_def pinPrefix_def)

subsection \<open>A library\<close>

definition exampleTLS :: tlsLib where
  "exampleTLS = \<lparr>tl_Sum256 = (\<lambda>x. replicate 32 CHR ''h''), tl_ParseCertificate = (\<lambda>der.
       Some \<lparr>xc_RawSubjectPublicKeyInfo = der\<rparr>),
     tl_Decode = (\<lambda>pem. case pem of [] \<Rightarrow> None | t # der \<Rightarrow>
       Some (if t = CHR ''C'' then ''CERTIFICATE'' else ''EC PRIVATE KEY'', der)),
     tl_EncodeToMemory = (\<lambda>t bytes. take 1 t @ bytes),
     tl_X509KeyPair = (\<lambda>c k. Some \<lparr>tc_Certificate = [drop 1 c], tc_PrivateKey = drop 1 k\<rparr>),
     tl_CreateCertificate = (\<lambda>tmpl k. Some (''der'' @ k)), tl_MarshalECPrivateKey = Some,
     tl_AddYears = (\<lambda>t n. t + int n * (8760 * hour))\<rparr>"

definition exampleStart :: tlsEnv where
  "exampleStart = \<lparr>te_Key = Some ''key'', te_Serial = Some 7, te_Now = 0, te_MkdirCert = False,
     te_MkdirKey = False, te_WriteKey = WriteOK, te_WriteCert = WriteOK\<rparr>"

definition examplePair :: tlsCertificate where
  "examplePair = \<lparr>tc_Certificate = [''derkey''], tc_PrivateKey = ''key''\<rparr>"

definition exampleDisk :: tlsFiles where
  "exampleDisk = [''key.pem'' \<mapsto> \<lparr>fl_Content = ''Ekey'', fl_Mode = 384\<rparr>,
     ''cert.pem'' \<mapsto> \<lparr>fl_Content = ''Cderkey'', fl_Mode = 420\<rparr>]"

lemma example_created:
  "LoadOrCreate exampleTLS exampleStart ''cert.pem'' ''key.pem'' [''hub.example''] Map.empty =
   (Inr examplePair, exampleDisk)"
  by (simp add: LoadOrCreate_def exampleTLS_def exampleStart_def generateSelfSigned_def Let_def
      subjectAltNames_def WriteFile_def examplePair_def exampleDisk_def split: prod.splits)

definition examplePin :: string where
  "examplePin = ''sha256:'' @ StdEncode (replicate 32 CHR ''h'')"

lemma example_ClientConfig: "\<exists>conf. ClientConfig exampleTLS ''hub'' examplePin = Inr conf"
proof -
  have "parsePin examplePin = Inr (replicate 32 CHR ''h'')" by code_simp
  then show ?thesis by (simp add: ClientConfig_def examplePin_def)
qed

subsection \<open>Properties\<close>

text \<open>C26: a pin authenticates the hub. A configuration with a pin switches the ordinary checks off
  and accepts a chain exactly when its first certificate parses and has that pin as its
  fingerprint; then the SHA-256 digest of the certificate's public key is the one that the pin
  spells. The byte-wise comparison is no weaker than equality.\<close>

theorem pin_decides:
  assumes "pin \<noteq> []" "ClientConfig lib serverName pin = Inr conf"
  shows "cc_InsecureSkipVerify conf \<and> (\<exists>verify. cc_VerifyPeerCertificate conf = Some verify \<and>
    (\<forall>chain. verify chain = Inr () \<longleftrightarrow>
       (\<exists>der rest cert. chain = der # rest \<and> tl_ParseCertificate lib der = Some cert \<and>
          Fingerprint lib cert = pin \<and>
          parsePin pin = Inr (tl_Sum256 lib (xc_RawSubjectPublicKeyInfo cert)))))"
proof -
  have "parsePin pin = Inr (tl_Sum256 lib (xc_RawSubjectPublicKeyInfo cert))"
    if "Fingerprint lib cert = pin" for cert
    using ClientConfig_pin [OF assms(1)] assms(2) Fingerprint_pin [of lib cert] that
    by (auto simp: parsePin_Inr)
  then show ?thesis
    using ClientConfig_pin [OF assms(1)] assms(2) by (auto simp: verifyPin_Inr)
qed

theorem pin_decides_witness:
  "\<exists>conf. ClientConfig exampleTLS ''hub'' examplePin = Inr conf \<and> cc_InsecureSkipVerify conf"
proof -
  obtain conf where conf: "ClientConfig exampleTLS ''hub'' examplePin = Inr conf"
    using example_ClientConfig by blast
  from pin_decides [OF _ this] conf show ?thesis by (simp add: examplePin_def)
qed

text \<open>C27: the hub keeps its identity. A start never changes a file that was there, touches no file
  but the two, and creates the private key readable by its owner only; and once a start has
  succeeded, every later start finds the same key pair and writes nothing, whatever the
  clock, the random numbers and the host names are then.\<close>

theorem hub_identity_stable:
  assumes "LoadOrCreate lib env certPath keyPath hosts fs = (r, fs')" "certPath \<noteq> keyPath"
  shows "(\<forall>p f. fs p = Some f \<longrightarrow> fs' p = Some f) \<and>
    (\<forall>p. p \<noteq> certPath \<longrightarrow> p \<noteq> keyPath \<longrightarrow> fs' p = fs p) \<and>
    (\<forall>f. fs keyPath = None \<longrightarrow> fs' keyPath = Some f \<longrightarrow> fl_Mode f = 384) \<and>
    (\<forall>cert env' hosts'. r = Inr cert \<longrightarrow>
       LoadOrCreate lib env' certPath keyPath hosts' fs' = (Inr cert, fs'))"
  using LoadOrCreate_frame [OF assms(1)] LoadOrCreate_key_mode [OF assms] LoadOrCreate_again assms
  by blast

theorem hub_identity_stable_witness:
  "LoadOrCreate exampleTLS (exampleStart\<lparr>te_Key := Some ''other''\<rparr>) ''cert.pem'' ''key.pem'' []
     exampleDisk = (Inr examplePair, exampleDisk)"
  using hub_identity_stable [OF example_created] by simp

text \<open>The pin the operator is shown works: the fingerprint of the certificate file is a pin that an
  agent's configuration takes and that accepts the chain of every key pair with this file.\<close>

lemma pin_of_pair:
  assumes "tl_X509KeyPair lib c k = Some cert" "FingerprintFromPEM lib c = Inr pin"
    and pair: "\<And>c k pr der. tl_X509KeyPair lib c k = Some pr \<Longrightarrow>
      tl_Decode lib c = Some (''CERTIFICATE'', der) \<Longrightarrow> \<exists>rest. tc_Certificate pr = der # rest"
    and size: "\<And>x. length (tl_Sum256 lib x) = 32"
  shows "pin \<noteq> [] \<and> (\<exists>conf verify. ClientConfig lib serverName pin = Inr conf \<and>
    cc_VerifyPeerCertificate conf = Some verify \<and> cc_InsecureSkipVerify conf \<and>
    list_all (\<lambda>c. verify (tc_Certificate c) = Inr ()) (cc_Certificates (tlsServerConfig cert)))"
proof -
  obtain der leaf where leaf: "tl_Decode lib c = Some (''CERTIFICATE'', der)"
    "tl_ParseCertificate lib der = Some leaf" "pin = Fingerprint lib leaf"
    using assms(2) by (auto simp: FingerprintFromPEM_Inr)
  from pair [OF assms(1) leaf(1)] obtain rest where chain: "tc_Certificate cert = der # rest" by blast
  have pin: "pin \<noteq> []" using leaf(3) by (simp add: Fingerprint_def pinPrefix_def)
  then have "ClientConfig lib serverName pin = Inr \<lparr>cc_Certificates = [], cc_ServerName = serverName,
      cc_MinVersion = VersionTLS12, cc_InsecureSkipVerify = True,
      cc_VerifyPeerCertificate = Some (verifyPin lib pin)\<rparr>"
    using parsePin_Fingerprint [OF size, of leaf] leaf(3) by (simp add: ClientConfig_pin)
  with pin show ?thesis using leaf(2,3) chain by (simp add: tlsServerConfig_def verifyPin_Inr)
qed

end
