(* ===== verification/Agent.thy ===== *)
theory Agent
  imports Control HubTLS
begin

text \<open>
  \<open>cmd/sshhub-agent/main.go\<close> and the agent's side of \<open>internal/control/client.go\<close>: the checks
  before anything is dialled, one connection to the hub, the bridge to the local SSH server, and
  the loop that keeps the agent connected. The flag package has parsed the command line; a turn
  of a loop gets from the record \<open>turn\<close> what it meets.
\<close>

subsection \<open>Starting\<close>

record agentFlags =
  af_Hub :: string
  af_TokenFile :: string
  af_Backend :: string
  af_Sshd :: string
  af_Pin :: string
  af_Insecure :: bool

record fileInfo =
  fi_Regular :: bool
  fi_Perm :: "32 word"

datatype agentFatal =
    HubAndTokenRequired
  | TokenFileMode
  | TokenRead
  | EmptyToken
  | SshdNotLoopback
  | PinRequired
  | HubPin pinError

record agentStart =
  as_TLS :: tlsConfig
  as_Hub :: string
  as_Backend :: string
  as_Token :: string
  as_Sshd :: string

text \<open>7 is octal 007, access for others; 16 is octal 020, writing by the group.\<close>

definition tokenFileOK :: "fileInfo option \<Rightarrow> bool" where
  "tokenFileOK st =
     (case st of
        None \<Rightarrow> False
      | Some i \<Rightarrow> \<not> (\<not> fi_Regular i \<or> fi_Perm i AND 7 \<noteq> 0 \<or> fi_Perm i AND 16 \<noteq> 0))"

definition insecureConfig :: tlsConfig where
  "insecureConfig = \<lparr>cc_Certificates = [], cc_ServerName = [], cc_MinVersion = 0,
     cc_InsecureSkipVerify = True, cc_VerifyPeerCertificate = None\<rparr>"

text \<open>\<open>st\<close> is what \<open>os.Lstat\<close> says of the token file and \<open>content\<close> what reading it gives.\<close>

definition agentMain ::
  "tlsLib \<Rightarrow> agentFlags \<Rightarrow> fileInfo option \<Rightarrow> string option \<Rightarrow> agentFatal + agentStart" where
  "agentMain lib f st content =
     (if af_Hub f = [] \<or> af_TokenFile f = [] then Inl HubAndTokenRequired
      else if \<not> tokenFileOK st then Inl TokenFileMode
      else case content of
        None \<Rightarrow> Inl TokenRead
      | Some bytes \<Rightarrow>
          let token = trimSpace bytes in
          if token = [] then Inl EmptyToken
          else if \<not> loopbackAddr (af_Sshd f) then Inl SshdNotLoopback
          else if af_Pin f = [] \<and> \<not> af_Insecure f then Inl PinRequired
          else
            let serverName = (case SplitHostPort (af_Hub f) of Some (h, p) \<Rightarrow> h | None \<Rightarrow> af_Hub f) in
            case (if af_Insecure f then Inr insecureConfig
                  else ClientConfig lib serverName (af_Pin f)) of
              Inl err \<Rightarrow> Inl (HubPin err)
            | Inr conf \<Rightarrow> Inr \<lparr>as_TLS = conf, as_Hub = af_Hub f, as_Backend = af_Backend f,
                                as_Token = token, as_Sshd = af_Sshd f\<rparr>)"

subsection \<open>One connection to the hub\<close>

text \<open>
  What the network and the peer do: whether the dial and the session succeed, the certificates
  the peer shows and whether they verify by the ordinary rules, whether a stream opens and the
  request is written, and the answer to it.
\<close>

record peer =
  pe_Dial :: bool
  pe_Session :: bool
  pe_Chain :: "string list"
  pe_ChainVerifies :: bool
  pe_Opened :: bool
  pe_Written :: bool
  pe_Reply :: "RegisterRequest \<Rightarrow> RegisterResponse option"

datatype connectError = DialHub | OpenSession | RegisterFailed clientError

text \<open>The TLS handshake precedes the first byte; an agent without TLS has none.\<close>

definition handshakeOK :: "tlsConfig option \<Rightarrow> peer \<Rightarrow> bool" where
  "handshakeOK conf p =
     (case conf of
        None \<Rightarrow> True
      | Some c \<Rightarrow>
          (cc_InsecureSkipVerify c \<or> pe_ChainVerifies p) \<and>
          (case cc_VerifyPeerCertificate c of None \<Rightarrow> True | Some verify \<Rightarrow> verify (pe_Chain p) = Inr ()))"

text \<open>
  The result, with the requests the peer received. Writing to a connection whose handshake fails
  may look successful; nothing arrives and there is no answer.
\<close>

definition ConnectWithHostKey ::
  "tlsConfig option \<Rightarrow> peer \<Rightarrow> string \<Rightarrow> string \<Rightarrow> string \<Rightarrow> string \<Rightarrow> string \<Rightarrow> string \<Rightarrow>
   (connectError + string) \<times> RegisterRequest list" where
  "ConnectWithHostKey conf p backend token hostKey version goos arch =
     (if \<not> pe_Dial p then (Inl DialHub, [])
      else if \<not> pe_Session p then (Inl OpenSession, [])
      else
        let reply = (if handshakeOK conf p then pe_Reply p else (\<lambda>req. None));
            sent = (if handshakeOK conf p \<and> pe_Opened p \<and> pe_Written p
                    then [WriteRegister (clientRequest backend token hostKey version goos arch)]
                    else []) in
        (case clientRegister reply (pe_Opened p) (pe_Written p) backend token hostKey version goos arch of
           Inl err \<Rightarrow> (Inl (RegisterFailed err), sent)
         | Inr assigned \<Rightarrow> (Inr assigned, sent)))"

subsection \<open>Serving streams\<close>

text \<open>What the session brings: a stream, the end of a bridged one, or the session's end, during
  which \<open>ctx\<close> may be done.\<close>

datatype serveEvent = StreamArrives | BridgeEnds | SessionEnds bool

datatype serveAction = DialSshd string | CloseStream

datatype serveEnd = NotLoopback | ServeNil | AcceptStreamError

definition bridgeSlots :: nat where "bridgeSlots = 64"

fun serveLoop :: "string \<Rightarrow> nat \<Rightarrow> serveEvent list \<Rightarrow> serveAction list \<times> serveEnd option" where
  "serveLoop sshdAddr slots [] = ([], None)"
| "serveLoop sshdAddr slots (StreamArrives # es) =
     (if slots < bridgeSlots then
        (let (as, r) = serveLoop sshdAddr (slots + 1) es in (DialSshd sshdAddr # as, r))
      else (let (as, r) = serveLoop sshdAddr slots es in (CloseStream # as, r)))"
| "serveLoop sshdAddr slots (BridgeEnds # es) = serveLoop sshdAddr (slots - 1) es"
| "serveLoop sshdAddr slots (SessionEnds ctxDone # es) =
     ([], Some (if ctxDone then ServeNil else AcceptStreamError))"

definition agentServe :: "string \<Rightarrow> serveEvent list \<Rightarrow> serveAction list \<times> serveEnd option" where
  "agentServe sshdAddr es =
     (if \<not> loopbackAddr sshdAddr then ([], Some NotLoopback) else serveLoop sshdAddr 0 es)"

subsection \<open>Staying connected\<close>

text \<open>\<open>sleepCtx\<close> waits for the timer or the end of the context, whichever is seen first.\<close>

datatype sleepEnd = TimerFires | ContextEnds

fun sleepCtx :: "sleepEnd \<Rightarrow> bool" where
  "sleepCtx ContextEnds = False"
| "sleepCtx TimerFires = True"

record turn =
  tn_Done :: bool
  tn_Connect :: "connectError + string"
  tn_DoneAfter :: bool
  tn_Serve :: bool
  tn_Sleep :: sleepEnd

text \<open>What the loop shows: its log lines, and how long it sleeps.\<close>

datatype runEvent =
    CannotReach duration
  | RegisteredAs string
  | ConnectionLost
  | ConnectionClosed
  | Sleeps duration

definition minBackoff :: duration where "minBackoff = 2 * second"
definition maxBackoff :: duration where "maxBackoff = 60 * second"

definition nextBackoff :: "duration \<Rightarrow> duration" where
  "nextBackoff b = (let b = b * 2 in if maxBackoff < b then maxBackoff else b)"

text \<open>The events over the turns so far, and whether the loop has returned.\<close>

primrec runLoop :: "duration \<Rightarrow> bool \<Rightarrow> turn list \<Rightarrow> runEvent list \<times> bool" where
  "runLoop backoff loggedDown [] = ([], False)"
| "runLoop backoff loggedDown (t # ts) =
     (if tn_Done t then ([], True)
      else case tn_Connect t of
        Inl err \<Rightarrow>
          if tn_DoneAfter t then ([], True)
          else
            let down = (if loggedDown then [] else [CannotReach backoff]) in
            if \<not> sleepCtx (tn_Sleep t) then (down @ [Sleeps backoff], True)
            else let (es, r) = runLoop (nextBackoff backoff) True ts
                 in (down @ Sleeps backoff # es, r)
      | Inr assigned \<Rightarrow>
          if tn_DoneAfter t then ([RegisteredAs assigned], True)
          else
            let lost = (if tn_Serve t then ConnectionLost else ConnectionClosed) in
            if \<not> sleepCtx (tn_Sleep t) then ([RegisteredAs assigned, lost, Sleeps minBackoff], True)
            else let (es, r) = runLoop minBackoff False ts
                 in (RegisteredAs assigned # lost # Sleeps minBackoff # es, r))"

definition agentRun :: "turn list \<Rightarrow> runEvent list \<times> bool" where
  "agentRun ts = runLoop minBackoff False ts"

subsection \<open>Starting\<close>

lemma agentMain_Inr:
  assumes "agentMain lib f st content = Inr s"
  obtains bytes where "content = Some bytes" "tokenFileOK st" "as_Token s = trimSpace bytes"
    "as_Token s \<noteq> []" "as_Sshd s = af_Sshd f" "loopbackAddr (af_Sshd f)"
    "as_Hub s = af_Hub f" "as_Backend s = af_Backend f"
    "af_Insecure f \<and> as_TLS s = insecureConfig \<or>
     \<not> af_Insecure f \<and> af_Pin f \<noteq> [] \<and>
       ClientConfig lib (case SplitHostPort (af_Hub f) of Some (h, p) \<Rightarrow> h | None \<Rightarrow> af_Hub f) (af_Pin f) =
         Inr (as_TLS s)"
  using assms unfolding agentMain_def
  by (auto simp: Let_def split: if_splits option.splits sum.splits)

lemma tokenFileOK_iff:
  "tokenFileOK st \<longleftrightarrow>
   (\<exists>i. st = Some i \<and> fi_Regular i \<and> \<not> bit (fi_Perm i) 0 \<and> \<not> bit (fi_Perm i) 1 \<and>
      \<not> bit (fi_Perm i) 2 \<and> \<not> bit (fi_Perm i) 4)"
proof -
  have 7: "(w AND 7 = 0) = (\<not> bit w 0 \<and> \<not> bit w 1 \<and> \<not> bit w 2)" for w :: "32 word"
  proof -
    have "w AND 7 = take_bit 3 w" by (simp add: take_bit_eq_mask mask_numeral)
    also have "(\<dots> = 0) = (\<forall>n<3. \<not> bit w n)"
      by (auto simp: bit_eq_iff bit_take_bit_iff dest: bit_imp_possible_bit)
    also have "\<dots> = (\<not> bit w 0 \<and> \<not> bit w 1 \<and> \<not> bit w 2)"
      by (auto simp: numeral_3_eq_3 less_Suc_eq numeral_2_eq_2)
    finally show ?thesis .
  qed
  have 16: "(w AND 16 = 0) = (\<not> bit w 4)" for w :: "32 word"
  proof -
    have "w AND 16 = w AND 2 ^ 4" by simp
    then show ?thesis by (simp only: and_exp_eq_0_iff_not_bit)
  qed
  show ?thesis by (auto simp: tokenFileOK_def 7 16 split: option.splits)
qed

subsection \<open>Connecting\<close>

lemma sent_handshake:
  "req \<in> set (snd (ConnectWithHostKey conf p backend token hostKey version goos arch)) \<Longrightarrow>
   handshakeOK conf p \<and> req = WriteRegister (clientRequest backend token hostKey version goos arch)"
  by (auto simp: ConnectWithHostKey_def Let_def split: if_splits sum.splits)

lemma pinned_handshake:
  assumes "pin \<noteq> []" "ClientConfig lib name pin = Inr conf" "handshakeOK (Some conf) p"
  shows "\<exists>der rest cert. pe_Chain p = der # rest \<and> tl_ParseCertificate lib der = Some cert \<and>
    Fingerprint lib cert = pin"
  using assms(3) ClientConfig_pin [OF assms(1)] assms(2)
  by (auto simp: handshakeOK_def verifyPin_Inr)

subsection \<open>Serving\<close>

definition dials :: "serveAction list \<Rightarrow> nat" where
  "dials as = length (filter (\<lambda>a. a \<noteq> CloseStream) as)"

lemma serveLoop_addr:
  "serveLoop addr n es = (as, r) \<Longrightarrow> DialSshd x \<in> set as \<Longrightarrow> x = addr"
  by (induction addr n es arbitrary: as r rule: serveLoop.induct)
    (auto split: prod.splits if_splits)

lemma serveLoop_bound:
  "n \<le> bridgeSlots \<Longrightarrow> serveLoop addr n es = (as, r) \<Longrightarrow>
   n + dials as \<le> bridgeSlots + count_list es BridgeEnds"
proof (induction addr n es arbitrary: as r rule: serveLoop.induct)
  case (2 addr slots es)
  then show ?case by (fastforce simp: dials_def split: prod.splits if_splits)
next
  case (3 addr slots es)
  then show ?case by (cases slots) fastforce+
qed (auto simp: dials_def)

subsection \<open>Reconnecting\<close>

text \<open>Nothing cancels the context during a turn.\<close>

definition uncancelled :: "turn \<Rightarrow> bool" where
  "uncancelled t \<longleftrightarrow> \<not> tn_Done t \<and> \<not> tn_DoneAfter t \<and> sleepCtx (tn_Sleep t)"

definition registrations :: "runEvent list \<Rightarrow> string list" where
  "registrations es = concat (map (\<lambda>e. case e of RegisteredAs a \<Rightarrow> [a] | _ \<Rightarrow> []) es)"

definition accepted :: "turn list \<Rightarrow> string list" where
  "accepted ts = concat (map (\<lambda>t. case tn_Connect t of Inr a \<Rightarrow> [a] | Inl _ \<Rightarrow> []) ts)"

lemma registrations_simps [simp]:
  "registrations [] = []"
  "registrations (es @ es') = registrations es @ registrations es'"
  "registrations (CannotReach d # es) = registrations es"
  "registrations (RegisteredAs a # es) = a # registrations es"
  "registrations (ConnectionLost # es) = registrations es"
  "registrations (ConnectionClosed # es) = registrations es"
  "registrations (Sleeps d # es) = registrations es"
  by (simp_all add: registrations_def)

lemma runLoop_uncancelled:
  assumes "list_all uncancelled ts"
  shows "\<not> snd (runLoop b l ts) \<and> registrations (fst (runLoop b l ts)) = accepted ts"
  using assms
proof (induction ts arbitrary: b l)
  case Nil
  then show ?case by (simp add: accepted_def)
next
  case (Cons t ts)
  then show ?case
    by (cases "tn_Connect t")
      (simp_all add: uncancelled_def accepted_def Let_def case_prod_beta)
qed

lemma runLoop_returns: "snd (runLoop b l ts) \<Longrightarrow> \<exists>t\<in>set ts. \<not> uncancelled t"
  using runLoop_uncancelled [of ts b l] by (auto simp: list_all_iff)

definition backoffOK :: "duration \<Rightarrow> bool" where
  "backoffOK d \<longleftrightarrow> minBackoff \<le> d \<and> d \<le> maxBackoff"

lemma backoffOK_min [simp]: "backoffOK minBackoff"
  by (simp add: backoffOK_def minBackoff_def maxBackoff_def)

lemma backoffOK_next: "backoffOK d \<Longrightarrow> backoffOK (nextBackoff d)"
  by (auto simp: backoffOK_def nextBackoff_def Let_def minBackoff_def maxBackoff_def)

lemma runLoop_sleeps: "backoffOK b \<Longrightarrow> Sleeps d \<in> set (fst (runLoop b l ts)) \<Longrightarrow> backoffOK d"
proof (induction ts arbitrary: b l)
  case Nil
  then show ?case by simp
next
  case (Cons t ts)
  with Cons.IH [OF backoffOK_min] Cons.IH [OF backoffOK_next [OF Cons.prems(1)]] show ?case
    by (cases "tn_Connect t") (auto simp: Let_def case_prod_beta split: if_splits)
qed

lemma nextBackoff_power:
  "nextBackoff (min maxBackoff (minBackoff * 2 ^ k)) = min maxBackoff (minBackoff * 2 ^ Suc k)"
  by (simp add: nextBackoff_def Let_def minBackoff_def maxBackoff_def min_def)

text \<open>The state of the loop after a turn that reached the hub is the one it starts in.\<close>

lemma runLoop_after:
  assumes "list_all uncancelled ts" "ts \<noteq> [] \<Longrightarrow> \<exists>a. tn_Connect (last ts) = Inr a"
  shows "runLoop minBackoff False (ts @ us) =
    map_prod ((@) (fst (runLoop minBackoff False ts))) id (runLoop minBackoff False us)"
proof -
  have "runLoop b l (ts @ us) = map_prod ((@) (fst (runLoop b l ts))) id (runLoop minBackoff False us)"
    if "ts \<noteq> []" for b l
    using assms that
  proof (induction ts arbitrary: b l)
    case (Cons t ts)
    then show ?case
      by (cases ts; cases "tn_Connect t") (auto simp: uncancelled_def Let_def case_prod_beta prod_eq_iff)
  qed simp
  then show ?thesis by (cases "ts = []") (simp_all add: map_prod_def case_prod_beta)
qed

lemma runLoop_down_append:
  assumes "list_all uncancelled ts" "list_all (\<lambda>t. \<exists>err. tn_Connect t = Inl err) ts"
  shows "runLoop (min maxBackoff (minBackoff * 2 ^ k)) True (ts @ us) =
    map_prod ((@) (map (\<lambda>i. Sleeps (min maxBackoff (minBackoff * 2 ^ i))) [k..<k + length ts])) id
      (runLoop (min maxBackoff (minBackoff * 2 ^ (k + length ts))) True us)"
  using assms
proof (induction ts arbitrary: k)
  case Nil
  then show ?case by (simp add: map_prod_def case_prod_beta)
next
  case (Cons t ts)
  from Cons.IH [of "Suc k"] Cons.prems show ?case
    by (auto simp: uncancelled_def nextBackoff_power upt_conv_Cons Let_def case_prod_beta prod_eq_iff
        simp del: power_Suc upt_Suc)
qed

lemma runLoop_outage:
  assumes "ts \<noteq> []" "list_all uncancelled ts" "list_all (\<lambda>t. \<exists>err. tn_Connect t = Inl err) ts"
  shows "runLoop minBackoff False (ts @ us) = map_prod ((@) (CannotReach minBackoff #
      map (\<lambda>i. Sleeps (min maxBackoff (minBackoff * 2 ^ i))) [0..<length ts])) id
    (runLoop (min maxBackoff (minBackoff * 2 ^ length ts)) True us)"
proof -
  obtain t ts' where ts: "ts = t # ts'" using assms(1) by (cases ts) auto
  have "nextBackoff minBackoff = min maxBackoff (minBackoff * 2 ^ 1)" "minBackoff = min maxBackoff minBackoff"
    by (simp_all add: nextBackoff_def Let_def minBackoff_def maxBackoff_def)
  with runLoop_down_append [of ts' 1 us] assms(2,3) show ?thesis
    by (auto simp: ts uncancelled_def upt_conv_Cons case_prod_beta prod_eq_iff simp del: upt_Suc)
qed

subsection \<open>An agent\<close>

definition exampleFlags :: agentFlags where
  "exampleFlags = \<lparr>af_Hub = ''hub.example:7443'', af_TokenFile = ''token'', af_Backend = [],
     af_Sshd = ''127.0.0.1:22'', af_Pin = examplePin, af_Insecure = False\<rparr>"

definition exampleFile :: fileInfo where
  "exampleFile = \<lparr>fi_Regular = True, fi_Perm = 416\<rparr>"

definition examplePeer :: peer where
  "examplePeer = \<lparr>pe_Dial = True, pe_Session = True, pe_Chain = [''derkey''], pe_ChainVerifies = False,
     pe_Opened = True, pe_Written = True, pe_Reply = (\<lambda>req. None)\<rparr>"

lemma example_agent:
  "\<exists>s. agentMain exampleTLS exampleFlags (Some exampleFile) (Some ''t1'') = Inr s \<and>
     as_Token s = ''t1'' \<and> as_TLS s = \<lparr>cc_Certificates = [], cc_ServerName = ''hub.example'',
       cc_MinVersion = VersionTLS12, cc_InsecureSkipVerify = True,
       cc_VerifyPeerCertificate = Some (verifyPin exampleTLS examplePin)\<rparr>"
proof -
  have "parsePin examplePin = Inr (replicate 32 CHR ''h'')" "trimSpace ''t1'' = ''t1''"
    "loopbackAddr ''127.0.0.1:22''" "SplitHostPort ''hub.example:7443'' = Some (''hub.example'', ''7443'')"
    "tokenFileOK (Some exampleFile)"
    by code_simp+
  then show ?thesis
    by (simp add: agentMain_def exampleFlags_def ClientConfig_def examplePin_def)
qed

definition downTurn :: turn where
  "downTurn = \<lparr>tn_Done = False, tn_Connect = Inl DialHub, tn_DoneAfter = False, tn_Serve = False,
     tn_Sleep = TimerFires\<rparr>"

definition upTurn :: turn where
  "upTurn = downTurn\<lparr>tn_Connect := Inr ''web1''\<rparr>"

subsection \<open>Properties\<close>

text \<open>The agent bridges to a loopback address only, a fixed one: an IPv4 literal starts with
  \<open>127.\<close> as it is written. At most 64 bridges are open at a time.\<close>

theorem agent_dials_loopback:
  assumes "agentServe addr es = (as, r)" "DialSshd x \<in> set as"
  shows "x = addr \<and> dials as \<le> 64 + count_list es BridgeEnds \<and>
    (\<exists>h port ip. SplitHostPort addr = Some (h, port) \<and> ParseIP h = Some ip \<and> IsLoopback ip \<and>
       (CHR '':'' \<in> set h \<or> hasPrefix h ''127.''))"
proof -
  have addr: "loopbackAddr addr" and run: "serveLoop addr 0 es = (as, r)"
    using assms by (auto simp: agentServe_def split: if_splits)
  from addr obtain h port ip where "SplitHostPort addr = Some (h, port)" "ParseIP h = Some ip"
    "IsLoopback ip"
    by (auto simp: loopbackAddr_def split: option.splits)
  then show ?thesis
    using loopback_literal serveLoop_addr [OF run assms(2)] serveLoop_bound [OF _ run]
    by (auto simp: bridgeSlots_def)
qed

theorem agent_dials_loopback_witness:
  "dials [DialSshd ''127.0.0.1:22'', DialSshd ''127.0.0.1:22''] \<le> 64 + count_list
     [StreamArrives, StreamArrives, BridgeEnds] BridgeEnds"
proof -
  have "agentServe ''127.0.0.1:22'' [StreamArrives, StreamArrives, BridgeEnds] =
      ([DialSshd ''127.0.0.1:22'', DialSshd ''127.0.0.1:22''], None)"
    by code_simp
  from agent_dials_loopback [OF this] show ?thesis by simp
qed

text \<open>The agent comes back. While nothing cancels it, the loop does not return, it registers
  with the hub in exactly the turns in which the hub takes it, and every pause is between 2
  and 60 seconds.\<close>

lemma stays_connected:
  assumes "list_all uncancelled ts"
  shows "\<not> snd (agentRun ts) \<and> registrations (fst (agentRun ts)) = accepted ts \<and>
    (\<forall>d. Sleeps d \<in> set (fst (agentRun ts)) \<longrightarrow> 2 * second \<le> d \<and> d \<le> 60 * second)"
  using runLoop_uncancelled [OF assms] runLoop_sleeps [OF backoffOK_min]
  unfolding agentRun_def backoffOK_def minBackoff_def maxBackoff_def by blast

text \<open>C35: how an outage is met. Whatever the turns before it were, as long as the last of them
  reached the hub, or there was none: the outage is logged once, with the delay back at two seconds, and
  its pauses double, 2, 4, 8, 16, 32 seconds and then 60 each; what the loop did before stays as it
  was, and the turn that reaches the hub again pauses two seconds. Nothing cancels these turns.\<close>

theorem outage_backs_off:
  assumes "list_all uncancelled (before @ outage @ [back])"
    and "before \<noteq> [] \<Longrightarrow> \<exists>a. tn_Connect (last before) = Inr a"
    and "outage \<noteq> []" "list_all (\<lambda>t. \<exists>err. tn_Connect t = Inl err) outage"
    and "tn_Connect back = Inr assigned"
  shows "agentRun (before @ outage @ [back]) =
    (fst (agentRun before) @ CannotReach (2 * second) #
     map (\<lambda>i. Sleeps (min (60 * second) (2 * second * 2 ^ i))) [0..<length outage] @
     [RegisteredAs assigned, if tn_Serve back then ConnectionLost else ConnectionClosed, Sleeps (2 * second)],
     False)"
proof -
  have up: "list_all uncancelled before" "list_all uncancelled outage" "uncancelled back"
    using assms(1) by simp_all
  have "agentRun (before @ outage @ [back]) =
      map_prod ((@) (fst (agentRun before))) id (agentRun (outage @ [back]))"
    unfolding agentRun_def by (rule runLoop_after [OF up(1) assms(2)])
  moreover have "runLoop b True [back] = ([RegisteredAs assigned,
      if tn_Serve back then ConnectionLost else ConnectionClosed, Sleeps (2 * second)], False)" for b
    using up(3) assms(5) by (simp add: uncancelled_def minBackoff_def)
  with runLoop_outage [OF assms(3) up(2) assms(4), of "[back]"]
  have "agentRun (outage @ [back]) = (CannotReach (2 * second) #
      map (\<lambda>i. Sleeps (min (60 * second) (2 * second * 2 ^ i))) [0..<length outage] @
      [RegisteredAs assigned, if tn_Serve back then ConnectionLost else ConnectionClosed, Sleeps (2 * second)],
      False)"
    by (simp add: agentRun_def minBackoff_def maxBackoff_def)
  ultimately show ?thesis by simp
qed

theorem outage_backs_off_witness:
  "agentRun ([upTurn] @ replicate 7 downTurn @ [upTurn]) =
   ([RegisteredAs ''web1'', ConnectionClosed, Sleeps (2 * second)] @ CannotReach (2 * second) # map Sleeps
     [2 * second, 4 * second, 8 * second, 16 * second, 32 * second, 60 * second, 60 * second] @
     [RegisteredAs ''web1'', ConnectionClosed, Sleeps (2 * second)], False)"
proof -
  have "fst (agentRun [upTurn]) = [RegisteredAs ''web1'', ConnectionClosed, Sleeps (2 * second)]"
    by (simp add: agentRun_def upTurn_def downTurn_def minBackoff_def)
  with outage_backs_off [of "[upTurn]" "replicate 7 downTurn" upTurn "''web1''"] show ?thesis
    by (simp add: uncancelled_def upTurn_def downTurn_def upt_rec numeral_eq_Suc)
qed

end
