(* ===== verification/Hub_Main.thy ===== *)
theory Hub_Main
  imports Proxy Agent Updater
begin

text \<open>
  \<open>cmd/sshhub/main.go\<close> and \<open>internal/admin/admin.go\<close>: how the hub starts, from its configuration
  file to the parts it runs, and the local status socket. What the file system, the clock and
  the libraries give is a parameter; the goroutines it starts are the theories \<open>Control\<close>,
  \<open>Proxy\<close> and \<open>Updater\<close>.
\<close>

subsection \<open>The TLS identity\<close>

definition DefaultTLSCertPath :: string where
  "DefaultTLSCertPath = ''/etc/sshhub/control-cert.pem''"

definition DefaultTLSKeyPath :: string where
  "DefaultTLSKeyPath = ''/etc/sshhub/control-key.pem''"

definition tlsPaths :: "Config \<Rightarrow> string \<times> string" where
  "tlsPaths cfg =
     (if cfg_TLSCert cfg = [] \<or> cfg_TLSKey cfg = [] then (DefaultTLSCertPath, DefaultTLSKeyPath)
      else (cfg_TLSCert cfg, cfg_TLSKey cfg))"

text \<open>\<open>hostname\<close> is what \<open>os.Hostname\<close> returns, \<open>None\<close> its error.\<close>

definition tlsHosts :: "Config \<Rightarrow> string option \<Rightarrow> string list" where
  "tlsHosts cfg hostname =
     (if cfg_PublicHost cfg \<noteq> [] then
        [case SplitHostPort (cfg_PublicHost cfg) of Some (h, p) \<Rightarrow> h | None \<Rightarrow> cfg_PublicHost cfg]
      else []) @
     (case hostname of None \<Rightarrow> [] | Some h \<Rightarrow> if h \<noteq> [] then [h] else [])"

definition controlTLS ::
  "tlsLib \<Rightarrow> tlsEnv \<Rightarrow> string option \<Rightarrow> Config \<Rightarrow> tlsFiles \<Rightarrow> (tlsError + tlsConfig) \<times> tlsFiles" where
  "controlTLS lib env hostname cfg fs =
     (let (certPath, keyPath) = tlsPaths cfg in
      case LoadOrCreate lib env certPath keyPath (tlsHosts cfg hostname) fs of
        (Inl err, fs) \<Rightarrow> (Inl err, fs)
      | (Inr cert, fs) \<Rightarrow> (Inr (tlsServerConfig cert), fs))"

subsection \<open>Starting\<close>

datatype hubFatal = ConfigFatal loadError | TLSFatal tlsError | ProxyFatal newError

datatype updateMode = UpdatesDisabled | UpdatesAtOnce | UpdatesAfter duration

definition updateModeOf :: "duration \<Rightarrow> updateMode" where
  "updateModeOf wait =
     (if wait = AutoUpdateDisabled then UpdatesDisabled
      else if wait = 0 then UpdatesAtOnce else UpdatesAfter wait)"

record hubParts =
  hp_Config :: Config
  hp_TLS :: tlsConfig
  hp_Proxy :: ServerConfig
  hp_Mode :: updateMode
  hp_Interval :: duration
  hp_Wait :: duration

text \<open>
  The arguments are the parser of authorized keys, the decoder and the content of the
  configuration, and the reader and the parser of the SSH host key.
\<close>

definition hubMain ::
  "tlsLib \<Rightarrow> tlsEnv \<Rightarrow> string option \<Rightarrow> authorizedKeyParser \<Rightarrow> (string \<Rightarrow> Config option) \<Rightarrow>
   string option \<Rightarrow> (string \<Rightarrow> string option) \<Rightarrow> (string \<Rightarrow> bool) \<Rightarrow> tlsFiles \<Rightarrow>
   (hubFatal + hubParts) \<times> tlsFiles" where
  "hubMain lib env hostname parse decode file readFile privateKeyOk fs =
     (case Load (validationParser parse) decode file of
        Inl err \<Rightarrow> (Inl (ConfigFatal err), fs)
      | Inr cfg \<Rightarrow>
          (case controlTLS lib env hostname cfg fs of
             (Inl err, fs) \<Rightarrow> (Inl (TLSFatal err), fs)
           | (Inr tls, fs) \<Rightarrow>
               (case NewProxy parse cfg readFile privateKeyOk of
                  Inl err \<Rightarrow> (Inl (ProxyFatal err), fs)
                | Inr conf \<Rightarrow>
                    let wait = ResolvedAutoUpdateWait cfg in
                    (Inr \<lparr>hp_Config = cfg, hp_TLS = tls, hp_Proxy = conf, hp_Mode = updateModeOf wait,
                          hp_Interval = 6 * hour, hp_Wait = wait\<rparr>, fs))))"

subsection \<open>The status socket\<close>

definition DefaultSocketPath :: string where
  "DefaultSocketPath = ''/run/sshhub/admin.sock''"

record adminStatus =
  st_HubVersion :: string
  st_StartedAt :: time
  st_Backends :: "BackendStatus list"

datatype adminError = AdminMkdir | AdminRemove | AdminListen | AdminChmod | AdminAccept

record adminFaults =
  ad_Mkdir :: bool
  ad_Remove :: bool
  ad_Listen :: bool
  ad_Chmod :: bool
  ad_Accept :: bool

text \<open>
  The socket in the file system is its mode, \<open>None\<close> when there is none; \<open>created\<close> is the mode
  that the umask leaves it. The result with the states of the socket, in order; accepting ends
  with an error or with the context, upon which the socket is removed.
\<close>

definition adminListen ::
  "adminFaults \<Rightarrow> nat \<Rightarrow> nat option \<Rightarrow> (adminError + unit) \<times> nat option list" where
  "adminListen flt created sock =
     (if ad_Mkdir flt then (Inl AdminMkdir, [sock])
      else if ad_Remove flt then (Inl AdminRemove, [sock])
      else if ad_Listen flt then (Inl AdminListen, [sock, None])
      else if ad_Chmod flt then (Inl AdminChmod, [sock, None, Some created, None])
      else if ad_Accept flt then (Inl AdminAccept, [sock, None, Some created, Some 384])
      else (Inr (), [sock, None, Some created, Some 384, None]))"

definition adminHandle :: "string \<Rightarrow> time \<Rightarrow> (string \<times> connection) list \<Rightarrow> adminStatus" where
  "adminHandle hubVersion startedAt entries =
     \<lparr>st_HubVersion = hubVersion, st_StartedAt = startedAt, st_Backends = Status entries\<rparr>"

datatype queryError = QueryDial | QueryDecode

text \<open>\<open>answer\<close> is what dialling the socket and reading it brings, \<open>None\<close> when nobody listens.\<close>

definition Query :: "(string \<Rightarrow> adminStatus option) \<Rightarrow> string option \<Rightarrow> queryError + adminStatus" where
  "Query decodeStatus answer =
     (case answer of
        None \<Rightarrow> Inl QueryDial
      | Some bytes \<Rightarrow> (case decodeStatus bytes of None \<Rightarrow> Inl QueryDecode | Some st \<Rightarrow> Inr st))"

subsection \<open>What a hub that runs is\<close>

lemma Load_Inr:
  "Load parseKey decode file = Inr cfg \<longleftrightarrow>
   (\<exists>bytes c. file = Some bytes \<and> decode bytes = Some c \<and> Validate parseKey c = Inr cfg)"
  by (auto simp: Load_def split: option.splits sum.splits)

lemma controlTLS_Inr:
  assumes "controlTLS lib env hostname cfg fs = (Inr tls, fs')"
  shows "\<exists>cert. LoadOrCreate lib env (fst (tlsPaths cfg)) (snd (tlsPaths cfg)) (tlsHosts cfg hostname) fs =
      (Inr cert, fs') \<and> tls = tlsServerConfig cert"
  using assms
  by (cases "tlsPaths cfg") (auto simp: controlTLS_def split: prod.splits sum.splits)

lemma hubMain_Inr:
  assumes "hubMain lib env hostname parse decode file readFile privateKeyOk fs = (Inr parts, fs')"
  obtains bytes c where "file = Some bytes" "decode bytes = Some c"
    "Validate (validationParser parse) c = Inr (hp_Config parts)"
    "controlTLS lib env hostname (hp_Config parts) fs = (Inr (hp_TLS parts), fs')"
    "NewProxy parse (hp_Config parts) readFile privateKeyOk = Inr (hp_Proxy parts)"
    "hp_Wait parts = ResolvedAutoUpdateWait (hp_Config parts)"
    "hp_Mode parts = updateModeOf (hp_Wait parts)" "hp_Interval parts = 6 * hour"
  using assms unfolding hubMain_def Let_def
  by (auto simp: Load_Inr split: sum.splits prod.splits)
subsection \<open>A hub that has started\<close>

definition exampleParts :: hubParts where
  "exampleParts = \<lparr>hp_Config = exampleValid, hp_TLS = tlsServerConfig examplePair,
     hp_Proxy = exampleServer, hp_Mode = UpdatesAfter (48 * hour), hp_Interval = 6 * hour,
     hp_Wait = 48 * hour\<rparr>"

definition exampleFiles :: tlsFiles where
  "exampleFiles = [DefaultTLSKeyPath \<mapsto> \<lparr>fl_Content = ''Ekey'', fl_Mode = 384\<rparr>,
     DefaultTLSCertPath \<mapsto> \<lparr>fl_Content = ''Cderkey'', fl_Mode = 420\<rparr>]"

lemma example_controlTLS:
  "controlTLS exampleTLS exampleStart None exampleValid Map.empty =
   (Inr (tlsServerConfig examplePair), exampleFiles)"
  by (simp add: controlTLS_def tlsPaths_def tlsHosts_def exampleConfig_def DefaultTLSCertPath_def
      DefaultTLSKeyPath_def LoadOrCreate_def exampleTLS_def exampleStart_def generateSelfSigned_def
      Let_def subjectAltNames_def WriteFile_def examplePair_def exampleFiles_def split: prod.splits)

lemma example_hubMain:
  "hubMain exampleTLS exampleStart None exampleKeys (\<lambda>_. Some exampleConfig) (Some []) (\<lambda>_. Some ''pem'')
     (\<lambda>_. True) Map.empty = (Inr exampleParts, exampleFiles)"
proof -
  have "ResolvedAutoUpdateWait exampleValid = 48 * hour" by code_simp
  then show ?thesis
    using exampleConfig_valid exampleServer_New example_controlTLS
    by (simp add: hubMain_def Load_def exampleKeys_parser Let_def exampleParts_def updateModeOf_def
        AutoUpdateDisabled_def)
qed

end
