(* ===== verification/Manage.thy ===== *)
theory Manage
  imports Config_Validate Go_Encoding
begin

text \<open>
  \<open>internal/config/manage.go\<close>: the edits \<open>sshhub-ctl\<close> makes to the configuration file. The
  YAML encoder and decoder are the parameters \<open>encode\<close> and \<open>decode\<close>. A file system maps
  paths to contents; what the operating system lets fail is a record of faults, and an
  operation returns its result with every state of the file system it passes through, in
  order, so that a crash in the middle leaves one of them.
\<close>

subsection \<open>Files and faults\<close>

type_synonym files = "string \<rightharpoonup> string"

text \<open>\<open>fault_Write\<close> is the number of bytes written before the error.\<close>

record faults =
  fault_CreateTemp :: bool
  fault_Write :: "nat option"
  fault_Sync :: bool
  fault_Close :: bool
  fault_Rename :: bool

definition noFaults :: faults where
  "noFaults = \<lparr>fault_CreateTemp = False, fault_Write = None, fault_Sync = False,
     fault_Close = False, fault_Rename = False\<rparr>"

datatype manageError =
    EndUserRemoved
  | EmptyBackendID
  | InvalidEndUser string
  | ManageRead
  | ManageParse
  | BackendExists string
  | BackendNotFound string
  | RandomFailed
  | SaveMarshal
  | SaveCreateTemp
  | SaveWrite
  | SaveSync
  | SaveClose
  | SaveRename

subsection \<open>Operations\<close>

text \<open>The 32 bytes of \<open>crypto/rand\<close>, or its error.\<close>

definition GenerateToken :: "string option \<Rightarrow> manageError + string" where
  "GenerateToken random =
     (case random of None \<Rightarrow> Inl RandomFailed | Some b \<Rightarrow> Inr (RawURLEncode b))"

text \<open>\<open>tmp\<close> is the name \<open>os.CreateTemp\<close> picks. The deferred \<open>Remove\<close> runs on every return.\<close>

definition Save ::
  "(Config \<Rightarrow> string option) \<Rightarrow> faults \<Rightarrow> string \<Rightarrow> string \<Rightarrow> Config \<Rightarrow> files \<Rightarrow>
   (manageError + unit) \<times> files list" where
  "Save encode flt tmp path cfg fs =
     (case encode cfg of
        None \<Rightarrow> (Inl SaveMarshal, [])
      | Some out \<Rightarrow>
          if fault_CreateTemp flt then (Inl SaveCreateTemp, [])
          else let fs1 = fs(tmp \<mapsto> []) in
          case fault_Write flt of
            Some n \<Rightarrow>
              let fs2 = fs1(tmp \<mapsto> take n out) in (Inl SaveWrite, [fs1, fs2, fs2(tmp := None)])
          | None \<Rightarrow>
              let fs2 = fs1(tmp \<mapsto> out) in
              if fault_Sync flt then (Inl SaveSync, [fs1, fs2, fs2(tmp := None)])
              else if fault_Close flt then (Inl SaveClose, [fs1, fs2, fs2(tmp := None)])
              else if fault_Rename flt then (Inl SaveRename, [fs1, fs2, fs2(tmp := None)])
              else let fs3 = fs2(path \<mapsto> out, tmp := None)
                   in (Inr (), [fs1, fs2, fs3, fs3(tmp := None)]))"

text \<open>The part the two commands share: read the file and decode it.\<close>

definition readConfig :: "(string \<Rightarrow> Config option) \<Rightarrow> string \<Rightarrow> files \<Rightarrow> manageError + Config" where
  "readConfig decode path fs =
     (case fs path of
        None \<Rightarrow> Inl ManageRead
      | Some bytes \<Rightarrow> (case decode bytes of None \<Rightarrow> Inl ManageParse | Some c \<Rightarrow> Inr c))"

definition newBackend :: "string \<Rightarrow> string \<Rightarrow> Backend" where
  "newBackend i token = \<lparr>be_Aliases = [], be_ID = i, be_Mode = ''reverse'', be_Token = token,
     be_Username = [], be_HostKey = [], be_HostKeyFile = []\<rparr>"

definition addBackend :: "string \<Rightarrow> string \<Rightarrow> Config \<Rightarrow> Config" where
  "addBackend i token c = c\<lparr>cfg_Backends := cfg_Backends c @ [newBackend i token]\<rparr>"

definition AddBackend ::
  "(string \<Rightarrow> Config option) \<Rightarrow> (Config \<Rightarrow> string option) \<Rightarrow> string option \<Rightarrow> faults \<Rightarrow> string \<Rightarrow>
   string \<Rightarrow> string \<Rightarrow> string \<Rightarrow> string \<Rightarrow> files \<Rightarrow> (manageError + string) \<times> files list" where
  "AddBackend decode encode random flt tmp path i token endUser fs =
     (if endUser \<noteq> [] then (Inl EndUserRemoved, [])
      else if i = [] then (Inl EmptyBackendID, [])
      else if containsAny endUser endUserSeparators \<or> hasPrefix endUser ''-''
      then (Inl (InvalidEndUser endUser), [])
      else case readConfig decode path fs of
        Inl err \<Rightarrow> (Inl err, [])
      | Inr c \<Rightarrow>
          if BackendByID c i \<noteq> None then (Inl (BackendExists i), [])
          else case (if token = [] then GenerateToken random else Inr token) of
            Inl err \<Rightarrow> (Inl err, [])
          | Inr token \<Rightarrow>
              (case Save encode flt tmp path (addBackend i token c) fs of
                 (Inl err, trace) \<Rightarrow> (Inl err, trace)
               | (Inr _, trace) \<Rightarrow> (Inr token, trace)))"

definition removeBackend :: "string \<Rightarrow> Config \<Rightarrow> Config" where
  "removeBackend i c =
     c\<lparr>cfg_Backends := filter (\<lambda>b. be_ID b \<noteq> i) (cfg_Backends c),
       cfg_JumpUsers := map (\<lambda>u. u\<lparr>ju_Backends := filter (\<lambda>b. b \<noteq> i) (ju_Backends u)\<rparr>)
                          (cfg_JumpUsers c)\<rparr>"

definition RemoveBackend ::
  "(string \<Rightarrow> Config option) \<Rightarrow> (Config \<Rightarrow> string option) \<Rightarrow> faults \<Rightarrow> string \<Rightarrow> string \<Rightarrow>
   string \<Rightarrow> files \<Rightarrow> (manageError + unit) \<times> files list" where
  "RemoveBackend decode encode flt tmp path i fs =
     (case readConfig decode path fs of
        Inl err \<Rightarrow> (Inl err, [])
      | Inr c \<Rightarrow>
          if \<not> list_ex (\<lambda>b. be_ID b = i) (cfg_Backends c) then (Inl (BackendNotFound i), [])
          else Save encode flt tmp path (removeBackend i c) fs)"

subsection \<open>Saving is atomic\<close>

lemma Save_trace:
  assumes "Save encode flt tmp path cfg fs = (r, trace)" "tmp \<noteq> path" "fs tmp = None"
  shows "list_all (\<lambda>fs'. fs' path = fs path \<or> (encode cfg \<noteq> None \<and> fs' path = encode cfg)) trace"
    and "list_all (\<lambda>fs'. \<forall>p. p = path \<or> p = tmp \<or> fs' p = fs p) trace"
    and "last (fs # trace) = (case r of Inl err \<Rightarrow> fs | Inr _ \<Rightarrow> fs(path := encode cfg))"
    and "r = Inr u \<Longrightarrow> encode cfg \<noteq> None"
  using assms
  by (auto simp: Save_def Let_def fun_eq_iff split: option.splits if_splits)

subsection \<open>Adding and removing keep a configuration valid, under conditions\<close>

abbreviation aliasesIn :: "Config \<Rightarrow> string set" where
  "aliasesIn c \<equiv> set (concat (map aliasesOf (cfg_Backends c)))"

lemma aliasesOf_new [simp]: "aliasesOf (newBackend i t) = []"
  by (simp add: aliasesOf_def newBackend_def)

lemma validBackend_new: "validBackend (newBackend i t) \<longleftrightarrow> i \<noteq> []"
  by (simp add: validBackend_def) (simp add: newBackend_def)

lemma newBackend_simps [simp]:
  "be_ID (newBackend i t) = i" "be_Token (newBackend i t) = t" "be_Mode (newBackend i t) = ''reverse''"
  by (simp_all add: newBackend_def)

lemma tokensOf_append: "tokensOf (xs @ ys) = tokensOf xs @ tokensOf ys"
  by (simp add: tokensOf_def)

lemma tokensOf_mem: "t \<in> set (tokensOf bs) \<longleftrightarrow> t \<noteq> [] \<and> t \<in> be_Token ` set bs"
  by (auto simp: tokensOf_def)

lemma validBackends_add:
  "validBackends (bs @ [newBackend i t]) \<longleftrightarrow>
   validBackends bs \<and> i \<noteq> [] \<and> i \<notin> be_ID ` set bs \<and> i \<notin> set (concat (map aliasesOf bs)) \<and>
   (t = [] \<or> t \<notin> be_Token ` set bs)"
  by (auto simp: validBackends_def validBackend_new tokensOf_append tokensOf_mem
      tokensOf_simps)

lemma validConfig_add:
  assumes valid: "validConfig parseKey c"
  shows "validConfig parseKey (addBackend i t c) \<longleftrightarrow>
    i \<noteq> [] \<and> BackendByID c i = None \<and> i \<notin> aliasesIn c \<and>
    (t = [] \<or> t \<notin> be_Token ` set (cfg_Backends c))"
proof -
  have mono: "list_all (validJumpUser parseKey (insert i ids)) us"
    "list_all (validRoute (insert i ids)) rs"
    if "list_all (validJumpUser parseKey ids) us" "list_all (validRoute ids) rs" for ids us rs
    using that by (auto simp: list_all_iff validJumpUser_def validRoute_def)
  show ?thesis
    using valid mono
    by (auto simp: validConfig_def Let_def addBackend_def validBackends_add BackendByID_None)
qed

text \<open>What removal leaves valid: no route and no user may depend on the backend alone.\<close>

definition removable :: "string \<Rightarrow> Config \<Rightarrow> bool" where
  "removable i c \<longleftrightarrow>
     list_all (\<lambda>r. route_Backend r \<noteq> i) (cfg_Routes c) \<and>
     list_all (\<lambda>u. list_ex (\<lambda>b. b \<noteq> i) (ju_Backends u)) (cfg_JumpUsers c)"

lemma distinct_concat_filter: "distinct (concat (map f xs)) \<Longrightarrow> distinct (concat (map f (filter P xs)))"
  by (induction xs) auto

lemma validBackends_filter: "validBackends bs \<Longrightarrow> validBackends (filter P bs)"
  by (auto simp: validBackends_def list_all_iff distinct_map_filter distinct_concat_filter
      tokensOf_def filter_map distinct_map o_def intro: inj_on_subset)

lemma validConfig_remove:
  assumes valid: "validConfig parseKey c"
  shows "validConfig parseKey (removeBackend i c) \<longleftrightarrow> removable i c"
proof -
  let ?ids = "be_ID ` set (cfg_Backends c)"
  have ids: "be_ID ` set (filter (\<lambda>b. be_ID b \<noteq> i) (cfg_Backends c)) = ?ids - {i}" by auto
  have users: "list_all (validJumpUser parseKey (?ids - {i}))
      (map (\<lambda>u. u\<lparr>ju_Backends := filter (\<lambda>b. b \<noteq> i) (ju_Backends u)\<rparr>) us) \<longleftrightarrow>
      list_all (\<lambda>u. list_ex (\<lambda>b. b \<noteq> i) (ju_Backends u)) us"
    if "list_all (validJumpUser parseKey ?ids) us" for us
    using that by (induction us) (auto simp: validJumpUser_def list_ex_iff filter_empty_conv)
  have routes: "list_all (validRoute (?ids - {i})) rs \<longleftrightarrow> list_all (\<lambda>r. route_Backend r \<noteq> i) rs"
    if "list_all (validRoute ?ids) rs" for rs
    using that by (induction rs) (auto simp: validRoute_def)
  have names: "ju_Name \<circ> (\<lambda>u. u\<lparr>ju_Backends := filter (\<lambda>b. b \<noteq> i) (ju_Backends u)\<rparr>) = ju_Name"
    by (rule ext) simp
  show ?thesis
    using valid users routes validBackends_filter [of "cfg_Backends c"]
    unfolding validConfig_def Let_def removeBackend_def removable_def
    by (simp add: ids names del: set_filter) blast
qed

lemma AddBackend_InrD:
  assumes "AddBackend decode encode random flt tmp path i token endUser fs = (Inr tok, trace)"
    and "fs path = Some bytes" "decode bytes = Some c"
  shows "i \<noteq> []" and "BackendByID c i = None"
    and "Save encode flt tmp path (addBackend i tok c) fs = (Inr (), trace)"
  using assms
  by (auto simp: AddBackend_def readConfig_def split: if_splits option.splits sum.splits prod.splits)

lemma AddBackend_token_set:
  "AddBackend decode encode random flt tmp path i token endUser fs = (Inr tok, trace) \<Longrightarrow>
   random \<noteq> Some [] \<Longrightarrow> tok \<noteq> []"
  using RawURLEncode_not_Nil
  by (auto simp: AddBackend_def GenerateToken_def split: if_splits option.splits sum.splits prod.splits)

lemma RemoveBackend_InrD:
  assumes "RemoveBackend decode encode flt tmp path i fs = (Inr u, trace)"
    and "fs path = Some bytes" "decode bytes = Some c"
  shows "Save encode flt tmp path (removeBackend i c) fs = (Inr (), trace)"
  using assms by (auto simp: RemoveBackend_def readConfig_def split: if_splits)

lemma Save_Inr_last:
  assumes "Save encode flt tmp path cfg fs = (Inr u, trace)" "tmp \<noteq> path" "fs tmp = None"
  shows "last (fs # trace) path = encode cfg" "encode cfg \<noteq> None"
  using Save_trace(3,4) [OF assms] by (simp_all del: last.simps)

lemma Validate_ok_iff: "(\<exists>c'. Validate parseKey c = Inr c') \<longleftrightarrow> validConfig parseKey c"
  by (simp add: Validate_iff)

lemma find_filter_other: "(\<And>x. P x \<Longrightarrow> Q x) \<Longrightarrow> find P (filter Q xs) = find P xs"
  by (induction xs) auto

lemma find_append_None: "\<not> P y \<Longrightarrow> find P (xs @ [y]) = find P xs"
  by (induction xs) auto

lemma BackendByID_remove:
  "BackendByID (removeBackend i c) j = (if j = i then None else BackendByID c j)"
  by (auto simp: BackendByID_def removeBackend_def find_None_iff intro!: find_filter_other)

lemma BackendByToken_add:
  assumes "t \<noteq> tok"
  shows "BackendByToken (addBackend i tok c) t = BackendByToken c t"
  using assms by (simp add: BackendByToken_def addBackend_def find_append_None)

subsection \<open>Properties\<close>

text \<open>C28: writing the configuration is atomic. Whatever the operating system lets fail, and in
  every state the file system passes through, the file holds its old content or the complete
  new one and no other file but the temporary one is touched; in the end either the new
  content stands and the write succeeded, or nothing has changed.\<close>

theorem Save_atomic:
  assumes "Save encode flt tmp path cfg fs = (r, trace)" "tmp \<noteq> path" "fs tmp = None"
  shows "list_all (\<lambda>fs'. fs' path \<in> {fs path, encode cfg} \<and>
             (\<forall>p. p = path \<or> p = tmp \<or> fs' p = fs p)) trace \<and>
    last (fs # trace) = (case r of Inl err \<Rightarrow> fs | Inr _ \<Rightarrow> fs(path := encode cfg))"
  using Save_trace(1-3) [OF assms] by (auto simp: list_all_iff simp del: last.simps)

theorem Save_atomic_witness:
  "last ([''hub.yaml'' \<mapsto> ''old''] #
      snd (Save (\<lambda>_. Some ''new'') (noFaults\<lparr>fault_Write := Some 2\<rparr>) ''tmp'' ''hub.yaml''
        exampleConfig [''hub.yaml'' \<mapsto> ''old''])) = [''hub.yaml'' \<mapsto> ''old'']"
  using Save_atomic [of "\<lambda>_. Some ''new''" "noFaults\<lparr>fault_Write := Some 2\<rparr>" "''tmp''" "''hub.yaml''"
      exampleConfig "[''hub.yaml'' \<mapsto> ''old'']" "Inl SaveWrite"]
  by (simp add: Save_def Let_def noFaults_def)

text \<open>Adding a backend to a configuration the hub accepts, under an id that is nobody's alias
  and a token that is nobody's, leaves a file with that backend appended; the hub accepts it,
  the returned token logs that backend in, and every other token means what it meant.\<close>

theorem AddBackend_correct:
  assumes "AddBackend decode encode random flt tmp path i token endUser fs = (Inr tok, trace)"
    and "fs path = Some bytes" "decode bytes = Some c" "Validate parseKey c = Inr c1"
    and "i \<notin> aliasesIn c" "tok \<notin> be_Token ` set (cfg_Backends c)" "tok \<noteq> []"
    and "tmp \<noteq> path" "fs tmp = None"
  shows "last (fs # trace) path = encode (addBackend i tok c) \<and>
    (\<exists>c'. Validate parseKey (addBackend i tok c) = Inr c') \<and>
    BackendByToken (addBackend i tok c) t =
      (if t = tok then Some (newBackend i tok) else BackendByToken c t)"
proof -
  note add = AddBackend_InrD [OF assms(1-3)]
  have valid: "validConfig parseKey (addBackend i tok c)"
    using assms(4-7) add by (simp add: Validate_iff validConfig_add)
  then have "validNames (addBackend i tok c)" by (simp add: validConfig_def Let_def)
  from by_token.lookup_iff [OF this, of tok "newBackend i tok"] assms(7)
  have "BackendByToken (addBackend i tok c) tok = Some (newBackend i tok)"
    by (simp add: hasToken_def addBackend_def)
  moreover have "last (fs # trace) path = encode (addBackend i tok c)"
    using Save_Inr_last(1) [OF add(3) assms(8,9)] .
  ultimately show ?thesis using valid BackendByToken_add [of t tok i c]
    by (simp add: Validate_iff del: last.simps)
qed

theorem AddBackend_correct_witness:
  "BackendByToken (addBackend ''new1'' ''t9'' exampleConfig) ''t9'' = Some (newBackend ''new1'' ''t9'')"
proof -
  let ?fs = "[''hub.yaml'' \<mapsto> ''old'']"
  have run: "AddBackend (\<lambda>_. Some exampleConfig) (\<lambda>_. Some ''new'') None noFaults ''tmp'' ''hub.yaml''
      ''new1'' ''t9'' [] ?fs =
      (Inr ''t9'', snd (Save (\<lambda>_. Some ''new'') noFaults ''tmp'' ''hub.yaml''
        (addBackend ''new1'' ''t9'' exampleConfig) ?fs))"
    by (simp add: AddBackend_def readConfig_def Save_def noFaults_def Let_def exampleConfig_def
        BackendByID_def containsAny_def hasPrefix_def)
  have "''new1'' \<notin> aliasesIn exampleConfig" by code_simp
  moreover have "''t9'' \<notin> be_Token ` set (cfg_Backends exampleConfig)" by code_simp
  ultimately show ?thesis
    using AddBackend_correct [OF run _ _ exampleConfig_valid, of _ "''t9''"] by simp
qed

text \<open>C37: removing a backend takes its entry and every grant of it out of the file and leaves
  every other backend as it was. The hub accepts the result exactly when no route targets
  the backend and no jump user had it as its only grant: the command does not remove the
  routes, so it can leave a file the hub refuses to load.\<close>

theorem RemoveBackend_effect:
  assumes "RemoveBackend decode encode flt tmp path i fs = (Inr u, trace)"
    and "fs path = Some bytes" "decode bytes = Some c" "Validate parseKey c = Inr c1"
    and "tmp \<noteq> path" "fs tmp = None"
  shows "last (fs # trace) path = encode (removeBackend i c) \<and>
    BackendByID (removeBackend i c) j = (if j = i then None else BackendByID c j) \<and>
    list_all (\<lambda>u. i \<notin> set (ju_Backends u)) (cfg_JumpUsers (removeBackend i c)) \<and>
    ((\<exists>c'. Validate parseKey (removeBackend i c) = Inr c') \<longleftrightarrow> removable i c)"
proof -
  have "last (fs # trace) path = encode (removeBackend i c)"
    using Save_Inr_last(1) [OF RemoveBackend_InrD [OF assms(1-3)] assms(5,6)] .
  moreover have "list_all (\<lambda>u. i \<notin> set (ju_Backends u)) (cfg_JumpUsers (removeBackend i c))"
    by (simp add: removeBackend_def list_all_iff)
  ultimately show ?thesis
    using assms(4) BackendByID_remove [of i c j]
    by (simp add: Validate_ok_iff Validate_iff validConfig_remove del: last.simps)
qed

theorem RemoveBackend_effect_witness:
  "\<not> (\<exists>c'. Validate exampleParser (removeBackend ''db1'' exampleConfig) = Inr c')"
proof -
  let ?fs = "[''hub.yaml'' \<mapsto> ''old'']"
  have run: "RemoveBackend (\<lambda>_. Some exampleConfig) (\<lambda>_. Some ''new'') noFaults ''tmp'' ''hub.yaml''
      ''db1'' ?fs = (Inr (), snd (Save (\<lambda>_. Some ''new'') noFaults ''tmp'' ''hub.yaml''
        (removeBackend ''db1'' exampleConfig) ?fs))"
    by (simp add: RemoveBackend_def readConfig_def Save_def noFaults_def Let_def exampleConfig_def)
  have "\<not> removable ''db1'' exampleConfig" by code_simp
  then show ?thesis using RemoveBackend_effect [OF run _ _ exampleConfig_valid] by simp
qed

end
