(* ===== verification/Go_Format.thy ===== *)
theory Go_Format
  imports Go_Encoding
begin

text \<open>
  What Go's \<open>fmt\<close> does with the verbs the tools use: \<open>%q\<close> (\<open>strconv.Quote\<close>), \<open>%-14s\<close> and \<open>%d\<close>, over
  the runes of a byte string (\<open>unicode/utf8\<close>). Which runes beyond ASCII are printable is a table of
  Go's library and a parameter.
\<close>

subsection \<open>Runes\<close>

text \<open>
  What the first byte says: the width, the range of the second byte, and the bits of the rune; none
  for a byte that starts no rune of several bytes.
\<close>

definition leadByte :: "nat \<Rightarrow> (nat \<times> nat \<times> nat \<times> nat) option" where
  "leadByte b =
     (if 194 \<le> b \<and> b \<le> 223 then Some (2, 128, 191, b - 192)
      else if 224 \<le> b \<and> b \<le> 239
      then Some (3, if b = 224 then 160 else 128, if b = 237 then 159 else 191, b - 224)
      else if 240 \<le> b \<and> b \<le> 244
      then Some (4, if b = 240 then 144 else 128, if b = 244 then 143 else 191, b - 240)
      else None)"

definition inRange :: "nat \<Rightarrow> nat \<Rightarrow> char \<Rightarrow> bool" where
  "inRange lo hi c \<longleftrightarrow> lo \<le> byteVal c \<and> byteVal c \<le> hi"

definition runeError :: nat where "runeError = 65533"

text \<open>\<open>utf8.DecodeRuneInString\<close> of \<open>c # s\<close>: the rune and its width.\<close>

definition decodeRune :: "char \<Rightarrow> string \<Rightarrow> nat \<times> nat" where
  "decodeRune c s =
     (if byteVal c < 128 then (byteVal c, 1)
      else case leadByte (byteVal c) of
        None \<Rightarrow> (runeError, 1)
      | Some (width, lo, hi, bits) \<Rightarrow>
          let cs = take (width - 1) s in
          if length cs = width - 1 \<and> inRange lo hi (hd cs) \<and> list_all (inRange 128 191) (tl cs)
          then (foldl (\<lambda>v c. v * 64 + (byteVal c - 128)) bits cs, width)
          else (runeError, 1))"

text \<open>The runes of a string, each with its bytes.\<close>

function runesOf :: "string \<Rightarrow> (nat \<times> string) list" where
  "runesOf [] = []"
| "runesOf (c # s) =
     (let (r, width) = decodeRune c s
      in (r, c # take (width - 1) s) # runesOf (drop (width - 1) s))"
  by pat_completeness auto
termination by (relation "measure length") (auto simp: less_Suc_eq_le)

definition runeCount :: "string \<Rightarrow> nat" where
  "runeCount s = length (runesOf s)"

subsection \<open>Verbs\<close>

fun itoa :: "nat \<Rightarrow> string" where
  "itoa n = (if n < 10 then [char_of (48 + n)] else itoa (n div 10) @ [char_of (48 + n mod 10)])"

declare itoa.simps [simp del]

text \<open>\<open>strings.Join\<close>.\<close>

fun joinWith :: "string \<Rightarrow> string list \<Rightarrow> string" where
  "joinWith sep [] = []"
| "joinWith sep [s] = s"
| "joinWith sep (s # t # ss) = s @ sep @ joinWith sep (t # ss)"

text \<open>\<open>%-14s\<close>: blanks up to the width, counted in runes.\<close>

definition padRight :: "nat \<Rightarrow> string \<Rightarrow> string" where
  "padRight n s = s @ replicate (n - runeCount s) CHR '' ''"

text \<open>A rune in a quoted string; \<open>isPrint\<close> is \<open>unicode.IsPrint\<close> beyond ASCII.\<close>

definition hexRune :: "nat \<Rightarrow> nat \<Rightarrow> string" where
  "hexRune n r = map (\<lambda>i. hexDigits ! (r div 16 ^ i mod 16)) (rev [0..<n])"

definition namedEscapes :: "(nat \<times> char) list" where
  "namedEscapes = [(7, CHR ''a''), (8, CHR ''b''), (12, CHR ''f''), (10, CHR ''n''), (13, CHR ''r''),
     (9, CHR ''t''), (11, CHR ''v'')]"

definition escapeRune :: "(nat \<Rightarrow> bool) \<Rightarrow> nat \<times> string \<Rightarrow> string" where
  "escapeRune isPrint rb =
     (case rb of (r, bytes) \<Rightarrow>
        if r = runeError \<and> length bytes = 1 then CHR 0x5C # CHR ''x'' # hexRune 2 (byteVal (hd bytes))
        else if r = 34 \<or> r = 92 then CHR 0x5C # bytes
        else if (if r < 128 then 32 \<le> r \<and> r < 127 else isPrint r) then bytes
        else case map_of namedEscapes r of
          Some c \<Rightarrow> [CHR 0x5C, c]
        | None \<Rightarrow>
            if r < 32 \<or> r = 127 then CHR 0x5C # CHR ''x'' # hexRune 2 r
            else if r < 65536 then CHR 0x5C # CHR ''u'' # hexRune 4 r
            else CHR 0x5C # CHR ''U'' # hexRune 8 r)"

definition quote :: "(nat \<Rightarrow> bool) \<Rightarrow> string \<Rightarrow> string" where
  "quote isPrint s = CHR 0x22 # concat (map (escapeRune isPrint) (runesOf s)) @ [CHR 0x22]"

subsection \<open>ASCII text\<close>

definition isASCII :: "char \<Rightarrow> bool" where
  "isASCII c \<longleftrightarrow> byteVal c < 128"

lemma runesOf_ASCII: "list_all isASCII s \<Longrightarrow> runesOf s = map (\<lambda>c. (byteVal c, [c])) s"
  by (induction s) (simp_all add: isASCII_def decodeRune_def)

lemma runeCount_ASCII: "list_all isASCII s \<Longrightarrow> runeCount s = length s"
  by (simp add: runeCount_def runesOf_ASCII)

text \<open>The bytes of the runes are the string: none is lost or read twice.\<close>

lemma runesOf_bytes: "concat (map snd (runesOf s)) = s"
proof (induction s rule: runesOf.induct)
  case (2 c s)
  obtain r width where "decodeRune c s = (r, width)" by force
  with 2 show ?case by simp
qed simp

lemma padRight_length: "list_all isASCII s \<Longrightarrow> length (padRight n s) = max n (length s)"
  by (simp add: padRight_def runeCount_ASCII)

text \<open>Plain text is quoted as it is.\<close>

lemma quote_plain:
  assumes "list_all (\<lambda>c. 32 \<le> byteVal c \<and> byteVal c < 127 \<and> byteVal c \<noteq> 34 \<and> byteVal c \<noteq> 92) s"
  shows "quote isPrint s = CHR 0x22 # s @ [CHR 0x22]"
proof -
  have "list_all isASCII s" using assms by (auto simp: list_all_iff isASCII_def)
  moreover have "escapeRune isPrint (byteVal c, [c]) = [c]" if "c \<in> set s" for c
    using assms that by (auto simp: list_all_iff escapeRune_def runeError_def)
  ultimately have "map (escapeRune isPrint) (runesOf s) = map (\<lambda>c. [c]) s"
    by (simp add: runesOf_ASCII)
  then show ?thesis by (simp add: quote_def)
qed

lemma quote_examples:
  "quote (\<lambda>_. True) (map char_of [97, 34, 10, 195, 169, 255 :: nat]) =
     map char_of [34, 97, 92, 34, 92, 110, 195, 169, 92, 120, 102, 102, 34 :: nat]"
  "quote (\<lambda>_. False) (map char_of [226, 156, 147 :: nat]) =
     [CHR 0x22, CHR 0x5C] @ ''u2713'' @ [CHR 0x22]"
  by code_simp+

end
