(* ===== verification/Ctl.thy ===== *)
theory Ctl
  imports Hub_Main Manage Go_Format
begin

text \<open>
  \<open>cmd/sshhub-ctl/main.go\<close>: the operator's commands. Each command is its argument loop and what
  it does with the arguments; what it prints is a value here, and text in \<open>Ctl_Main\<close>.
\<close>

subsection \<open>Arguments\<close>

text \<open>
  The loop over \<open>os.Args[2:]\<close> the commands share. The body gets the argument and the next one,
  if there is one, and says whether it took that one too.
\<close>

fun flagLoop :: "('s \<Rightarrow> string \<Rightarrow> string option \<Rightarrow> 's \<times> bool) \<Rightarrow> 's \<Rightarrow> string list \<Rightarrow> 's" where
  "flagLoop body s [] = s"
| "flagLoop body s [arg] = fst (body s arg None)"
| "flagLoop body s (arg # next # rest) =
     (case body s arg (Some next) of
        (s, True) \<Rightarrow> flagLoop body s rest
      | (s, False) \<Rightarrow> flagLoop body s (next # rest))"

record addArgs =
  aa_CfgPath :: string
  aa_HubAddr :: string
  aa_CustomToken :: string
  aa_EndUser :: string
  aa_NoRestart :: bool
  aa_ID :: string

definition addBody :: "addArgs \<Rightarrow> string \<Rightarrow> string option \<Rightarrow> addArgs \<times> bool" where
  "addBody a arg next =
     (if arg = ''--hub'' \<and> next \<noteq> None then (a\<lparr>aa_HubAddr := the next\<rparr>, True)
      else if hasPrefix arg ''--hub='' then (a\<lparr>aa_HubAddr := trimPrefix arg ''--hub=''\<rparr>, False)
      else if arg = ''--token'' \<and> next \<noteq> None then (a\<lparr>aa_CustomToken := the next\<rparr>, True)
      else if hasPrefix arg ''--token='' then (a\<lparr>aa_CustomToken := trimPrefix arg ''--token=''\<rparr>, False)
      else if arg = ''--end-user'' \<and> next \<noteq> None then (a\<lparr>aa_EndUser := the next\<rparr>, True)
      else if hasPrefix arg ''--end-user='' then (a\<lparr>aa_EndUser := trimPrefix arg ''--end-user=''\<rparr>, False)
      else if arg = ''--config'' \<and> next \<noteq> None then (a\<lparr>aa_CfgPath := the next\<rparr>, True)
      else if hasPrefix arg ''--config='' then (a\<lparr>aa_CfgPath := trimPrefix arg ''--config=''\<rparr>, False)
      else if arg = ''--no-restart'' then (a\<lparr>aa_NoRestart := True\<rparr>, False)
      else if \<not> hasPrefix arg ''-'' \<and> aa_ID a = [] then (a\<lparr>aa_ID := arg\<rparr>, False)
      else (a, False))"

definition parseAdd :: "string \<Rightarrow> string list \<Rightarrow> addArgs" where
  "parseAdd defaultPath args =
     flagLoop addBody \<lparr>aa_CfgPath = defaultPath, aa_HubAddr = [], aa_CustomToken = [], aa_EndUser = [],
       aa_NoRestart = False, aa_ID = []\<rparr> args"

record removeArgs =
  ra_CfgPath :: string
  ra_NoRestart :: bool
  ra_ID :: string

definition removeBody :: "removeArgs \<Rightarrow> string \<Rightarrow> string option \<Rightarrow> removeArgs \<times> bool" where
  "removeBody a arg next =
     (if arg = ''--config'' \<and> next \<noteq> None then (a\<lparr>ra_CfgPath := the next\<rparr>, True)
      else if hasPrefix arg ''--config='' then (a\<lparr>ra_CfgPath := trimPrefix arg ''--config=''\<rparr>, False)
      else if arg = ''--no-restart'' then (a\<lparr>ra_NoRestart := True\<rparr>, False)
      else if \<not> hasPrefix arg ''-'' \<and> ra_ID a = [] then (a\<lparr>ra_ID := arg\<rparr>, False)
      else (a, False))"

definition parseRemove :: "string \<Rightarrow> string list \<Rightarrow> removeArgs" where
  "parseRemove defaultPath args =
     flagLoop removeBody \<lparr>ra_CfgPath = defaultPath, ra_NoRestart = False, ra_ID = []\<rparr> args"

record listArgs =
  la_CfgPath :: string
  la_JSON :: bool

definition listBody :: "listArgs \<Rightarrow> string \<Rightarrow> string option \<Rightarrow> listArgs \<times> bool" where
  "listBody a arg next =
     (if arg = ''--json'' then (a\<lparr>la_JSON := True\<rparr>, False)
      else if arg = ''--config'' \<and> next \<noteq> None then (a\<lparr>la_CfgPath := the next\<rparr>, True)
      else if hasPrefix arg ''--config='' then (a\<lparr>la_CfgPath := trimPrefix arg ''--config=''\<rparr>, False)
      else (a, False))"

definition parseList :: "string \<Rightarrow> string list \<Rightarrow> listArgs" where
  "parseList defaultPath args = flagLoop listBody \<lparr>la_CfgPath = defaultPath, la_JSON = False\<rparr> args"

record updateArgs =
  ua_Target :: string
  ua_CheckOnly :: bool

definition updateBody :: "updateArgs \<Rightarrow> string \<Rightarrow> string option \<Rightarrow> updateArgs \<times> bool" where
  "updateBody a arg next =
     (if arg = ''--check'' then (a\<lparr>ua_CheckOnly := True\<rparr>, False)
      else if arg = ''--version'' \<and> next \<noteq> None then (a\<lparr>ua_Target := the next\<rparr>, True)
      else if hasPrefix arg ''--version='' then (a\<lparr>ua_Target := trimPrefix arg ''--version=''\<rparr>, False)
      else (a, False))"

definition parseUpdate :: "string list \<Rightarrow> updateArgs" where
  "parseUpdate args = flagLoop updateBody \<lparr>ua_Target = [], ua_CheckOnly = False\<rparr> args"

definition pinBody :: "string \<Rightarrow> string \<Rightarrow> string option \<Rightarrow> string \<times> bool" where
  "pinBody path arg next =
     (if arg = ''--config'' \<and> next \<noteq> None then (the next, True)
      else if hasPrefix arg ''--config='' then (trimPrefix arg ''--config='', False)
      else (path, False))"

definition parsePinArgs :: "string \<Rightarrow> string list \<Rightarrow> string" where
  "parsePinArgs defaultPath args = flagLoop pinBody defaultPath args"

definition standardConfigPath :: string where
  "standardConfigPath = ''/etc/sshhub/sshhub.yaml''"

text \<open>\<open>exists\<close> says whether \<open>os.Stat\<close> succeeds.\<close>

definition defaultConfigPath :: "(string \<Rightarrow> bool) \<Rightarrow> string" where
  "defaultConfigPath exists =
     (if exists standardConfigPath then standardConfigPath
      else if exists ''sshhub.yaml'' then ''sshhub.yaml'' else standardConfigPath)"

subsection \<open>add\<close>

definition unknownHub :: string where "unknownHub = ''<hub-host>:7000''"

definition getFQDN :: "string option \<Rightarrow> string \<Rightarrow> string" where
  "getFQDN hostnameF hostname =
     (case hostnameF of
        Some out \<Rightarrow> if trimSpace out \<noteq> [] then trimSpace out else hostname
      | None \<Rightarrow> hostname)"

text \<open>The hub's address as a fresh configuration gives it.\<close>

definition hubOfConfig :: "Config \<Rightarrow> string \<Rightarrow> string" where
  "hubOfConfig cfg fqdn =
     (let control = listen_Control (cfg_Listen cfg) in
      if cfg_PublicHost cfg \<noteq> [] then
        if containsAny (cfg_PublicHost cfg) '':'' then cfg_PublicHost cfg
        else
          let port = (if control \<noteq> [] then
                        (case SplitHostPort control of
                           Some (h, p) \<Rightarrow> p
                         | None \<Rightarrow> if hasPrefix control '':'' then trimPrefix control '':'' else ''7000'')
                      else ''7000'')
          in JoinHostPort (cfg_PublicHost cfg) port
      else if control \<noteq> [] then (if hasPrefix control '':'' then fqdn @ control else control)
      else [])"

definition hubAddress :: "string \<Rightarrow> loadError + Config \<Rightarrow> string \<Rightarrow> string" where
  "hubAddress hubAddr loaded fqdn =
     (let hub = (if hubAddr = [] then (case loaded of Inl _ \<Rightarrow> [] | Inr cfg \<Rightarrow> hubOfConfig cfg fqdn)
                 else hubAddr)
      in if hub = [] then unknownHub else hub)"

definition hubDomain :: "string \<Rightarrow> string" where
  "hubDomain hub =
     (if hub \<noteq> [] \<and> hub \<noteq> unknownHub
      then (case SplitHostPort hub of Some (h, p) \<Rightarrow> h | None \<Rightarrow> hub) else ''<hub-domain>'')"

text \<open>The pin the operator is shown: of a certificate, or one of two notices.\<close>

datatype shownPin = Pin string | NotStarted | UnreadableCertificate pemError

definition controlPlanePin :: "tlsLib \<Rightarrow> loadError + Config \<Rightarrow> tlsFiles \<Rightarrow> shownPin" where
  "controlPlanePin lib loaded fs =
     (let certPath = (case loaded of
             Inl _ \<Rightarrow> DefaultTLSCertPath
           | Inr cfg \<Rightarrow> if cfg_TLSCert cfg \<noteq> [] then cfg_TLSCert cfg else DefaultTLSCertPath) in
      case fs certPath of
        None \<Rightarrow> NotStarted
      | Some f \<Rightarrow>
          (case FingerprintFromPEM lib (fl_Content f) of
             Inl err \<Rightarrow> UnreadableCertificate err
           | Inr pin \<Rightarrow> Pin pin))"

datatype ctlFatal = Usage string | ManageFatal manageError | LoadFatal loadError

record addOutput =
  ao_Token :: string
  ao_Pin :: shownPin
  ao_Domain :: string
  ao_Restarted :: bool

text \<open>
  \<open>load\<close> loads a configuration from the files as they are; \<open>tls\<close> holds the certificates.
\<close>

definition ctlAdd ::
  "(string \<Rightarrow> Config option) \<Rightarrow> (Config \<Rightarrow> string option) \<Rightarrow> string option \<Rightarrow> faults \<Rightarrow> string \<Rightarrow>
   (files \<Rightarrow> string \<Rightarrow> loadError + Config) \<Rightarrow> string \<Rightarrow> tlsLib \<Rightarrow> tlsFiles \<Rightarrow> string \<Rightarrow> string list \<Rightarrow> files \<Rightarrow>
   (ctlFatal + addOutput) \<times> files" where
  "ctlAdd decode encode random flt tmp load fqdn lib tls defaultPath args fs =
     (let a = parseAdd defaultPath args in
      if aa_ID a = [] then (Inl (Usage ''add''), fs)
      else case AddBackend decode encode random flt tmp (aa_CfgPath a) (aa_ID a) (aa_CustomToken a)
             (aa_EndUser a) fs of
        (Inl err, trace) \<Rightarrow> (Inl (ManageFatal err), last (fs # trace))
      | (Inr token, trace) \<Rightarrow>
          let fs = last (fs # trace);
              loaded = load fs (aa_CfgPath a) in
          (Inr \<lparr>ao_Token = token, ao_Pin = controlPlanePin lib loaded tls,
                ao_Domain = hubDomain (hubAddress (aa_HubAddr a) loaded fqdn),
                ao_Restarted = (\<not> aa_NoRestart a)\<rparr>, fs))"

lemma ctlAdd_Inr:
  assumes "ctlAdd decode encode random flt tmp load fqdn lib tls defaultPath args fs = (Inr out, fs')"
  shows "\<exists>trace. AddBackend decode encode random flt tmp (aa_CfgPath (parseAdd defaultPath args))
      (aa_ID (parseAdd defaultPath args)) (aa_CustomToken (parseAdd defaultPath args))
      (aa_EndUser (parseAdd defaultPath args)) fs = (Inr (ao_Token out), trace) \<and> fs' = last (fs # trace)"
proof -
  let ?a = "parseAdd defaultPath args"
  let ?r = "AddBackend decode encode random flt tmp (aa_CfgPath ?a) (aa_ID ?a) (aa_CustomToken ?a)
    (aa_EndUser ?a) fs"
  have id: "aa_ID ?a \<noteq> []" using assms by (auto simp: ctlAdd_def Let_def)
  show ?thesis
  proof (cases "fst ?r")
    case (Inl err)
    with assms id show ?thesis
      by (cases ?r) (simp add: ctlAdd_def Let_def del: last.simps)
  next
    case (Inr tok)
    then obtain trace where r: "?r = (Inr tok, trace)" by (cases ?r) simp
    with assms id show ?thesis
      by (auto simp: ctlAdd_def Let_def simp del: last.simps)
  qed
qed

subsection \<open>remove\<close>

text \<open>The result says whether the service is restarted.\<close>

definition ctlRemove ::
  "(string \<Rightarrow> Config option) \<Rightarrow> (Config \<Rightarrow> string option) \<Rightarrow> faults \<Rightarrow> string \<Rightarrow> string \<Rightarrow> string list \<Rightarrow>
   files \<Rightarrow> (ctlFatal + bool) \<times> files" where
  "ctlRemove decode encode flt tmp defaultPath args fs =
     (let a = parseRemove defaultPath args in
      if ra_ID a = [] then (Inl (Usage ''remove''), fs)
      else case RemoveBackend decode encode flt tmp (ra_CfgPath a) (ra_ID a) fs of
        (Inl err, trace) \<Rightarrow> (Inl (ManageFatal err), last (fs # trace))
      | (Inr _, trace) \<Rightarrow> (Inr (\<not> ra_NoRestart a), last (fs # trace)))"

subsection \<open>list\<close>

text \<open>
  \<open>Duration.Minutes\<close> and \<open>Duration.Hours\<close> of a duration that is not negative, as float64, and the
  conversion of one to \<open>int\<close>.
\<close>

definition durationIn :: "duration \<Rightarrow> duration \<Rightarrow> rat" where
  "durationIn unit d = f64 (of_int (d div unit) + f64 (of_int (d mod unit) / of_int unit))"

definition truncInt :: "rat \<Rightarrow> nat" where
  "truncInt x = nat \<lfloor>x\<rfloor>"

definition shortDuration :: "duration \<Rightarrow> string" where
  "shortDuration d =
     (if d < 0 then ''-''
      else if d < minute then itoa (truncInt (durationSeconds d)) @ ''s''
      else if d < hour then itoa (truncInt (durationIn minute d)) @ ''m''
      else if d < 24 * hour then
        itoa (truncInt (durationIn hour d)) @ ''h'' @ itoa (truncInt (durationIn minute d) mod 60) @ ''m''
      else
        itoa (truncInt (durationIn hour d) div 24) @ ''d'' @ itoa (truncInt (durationIn hour d) mod 24) @ ''h'')"

text \<open>The loop that collects, for each backend, the end users of its routes.\<close>

definition noteEndUser :: "(string \<Rightarrow> string list) \<Rightarrow> Route \<Rightarrow> string \<Rightarrow> string list" where
  "noteEndUser m r =
     (let u = ResolvedEndUser r;
          u = (if list_ex (\<lambda>existing. existing = u) (m (route_Backend r)) then [] else u)
      in if u \<noteq> [] then m(route_Backend r := m (route_Backend r) @ [u]) else m)"

definition endUsers :: "Route list \<Rightarrow> string \<Rightarrow> string list" where
  "endUsers routes = foldl noteEndUser (\<lambda>_. []) routes"

definition liveMap :: "adminStatus option \<Rightarrow> string \<Rightarrow> BackendStatus option" where
  "liveMap status =
     (case status of
        None \<Rightarrow> Map.empty
      | Some st \<Rightarrow> foldl (\<lambda>m b. m(bs_Backend b \<mapsto> b)) Map.empty (st_Backends st))"

record row =
  row_ID :: string
  row_EndUsers :: "string list"
  row_Online :: bool
  row_Version :: string
  row_Platform :: string
  row_Uptime :: string
  row_Remote :: string

definition platformOf :: "BackendStatus \<Rightarrow> string" where
  "platformOf l = bs_OS l @ ''/'' @ bs_Arch l"

definition jsonRow ::
  "(string \<Rightarrow> string list) \<Rightarrow> (string \<Rightarrow> BackendStatus option) \<Rightarrow> time \<Rightarrow> Backend \<Rightarrow> row" where
  "jsonRow users live now b =
     (let r = \<lparr>row_ID = be_ID b, row_EndUsers = users (be_ID b), row_Online = False, row_Version = [],
              row_Platform = [], row_Uptime = [], row_Remote = []\<rparr> in
      case live (be_ID b) of
        None \<Rightarrow> r
      | Some l \<Rightarrow>
          r\<lparr>row_Online := True, row_Version := bs_Version l, row_Remote := bs_RemoteAddr l,
            row_Platform := (if bs_OS l \<noteq> [] then platformOf l else []),
            row_Uptime := shortDuration (timeSub now (bs_ConnectedAt l))\<rparr>)"

text \<open>The six cells of a line of the table.\<close>

definition tableRow ::
  "(string \<Rightarrow> string list) \<Rightarrow> adminStatus option \<Rightarrow> (string \<Rightarrow> BackendStatus option) \<Rightarrow> time \<Rightarrow> Backend \<Rightarrow>
   string list" where
  "tableRow users status live now b =
     (let us = users (be_ID b);
          cell = (if us \<noteq> [] then joinWith '','' us else ''-'') in
      case live (be_ID b) of
        Some l \<Rightarrow>
          [be_ID b, ''online'', if bs_Version l \<noteq> [] then bs_Version l else ''-'',
           if bs_OS l \<noteq> [] then platformOf l else ''-'',
           shortDuration (timeSub now (bs_ConnectedAt l)), cell]
      | None \<Rightarrow>
          [be_ID b, if status = None then ''unknown'' else ''offline'', ''-'', ''-'', ''-'', cell])"

text \<open>The line below the table: how many are online, and the agents of another version.\<close>

definition onlineCount :: "Config \<Rightarrow> (string \<Rightarrow> BackendStatus option) \<Rightarrow> nat" where
  "onlineCount cfg live = length (filter (\<lambda>b. live (be_ID b) \<noteq> None) (cfg_Backends cfg))"

definition staleAgents :: "Config \<Rightarrow> adminStatus \<Rightarrow> (string \<Rightarrow> BackendStatus option) \<Rightarrow> (string \<times> string) list"
where
  "staleAgents cfg status live =
     concat (map (\<lambda>b. case live (be_ID b) of
         None \<Rightarrow> []
       | Some l \<Rightarrow> if bs_Version l \<noteq> [] \<and> bs_Version l \<noteq> st_HubVersion status
                   then [(be_ID b, bs_Version l)] else []) (cfg_Backends cfg))"

datatype listing =
    Rows "row list"
  | Table "string list list" "(nat \<times> nat \<times> string \<times> string \<times> (string \<times> string) list) option"

definition ctlList ::
  "(string \<Rightarrow> loadError + Config) \<Rightarrow> queryError + adminStatus \<Rightarrow> time \<Rightarrow> string \<Rightarrow> string list \<Rightarrow>
   ctlFatal + listing" where
  "ctlList load query now defaultPath args =
     (let a = parseList defaultPath args in
      case load (la_CfgPath a) of
        Inl err \<Rightarrow> Inl (LoadFatal err)
      | Inr cfg \<Rightarrow>
          let users = endUsers (cfg_Routes cfg);
              status = (case query of Inl _ \<Rightarrow> None | Inr st \<Rightarrow> Some st);
              live = liveMap status in
          if la_JSON a then Inr (Rows (map (jsonRow users live now) (cfg_Backends cfg)))
          else Inr (Table (map (tableRow users status live now) (cfg_Backends cfg))
            (map_option (\<lambda>st. (onlineCount cfg live, length (cfg_Backends cfg), st_HubVersion st,
               shortDuration (timeSub now (st_StartedAt st)), staleAgents cfg st live)) status)))"

subsection \<open>update\<close>

datatype updateOutcome =
    CheckFailed
  | UpToDate
  | UpdateAvailable string
  | UpdateFailed updateError
  | Updated string

text \<open>\<open>install\<close> is \<open>DownloadAndApplyHubUpdate\<close> in its environment.\<close>

definition ctlUpdate ::
  "string option \<Rightarrow> string \<Rightarrow> (string \<Rightarrow> updateError + unit) \<Rightarrow> string list \<Rightarrow> updateOutcome" where
  "ctlUpdate latest running install args =
     (let a = parseUpdate args in
      case latest of
        None \<Rightarrow> CheckFailed
      | Some latest \<Rightarrow>
          if \<not> IsNewer latest running \<and> ua_Target a = [] then UpToDate
          else if ua_CheckOnly a then UpdateAvailable latest
          else
            let verToInstall = (if ua_Target a \<noteq> [] then ua_Target a else latest) in
            (case install verToInstall of Inl err \<Rightarrow> UpdateFailed err | Inr _ \<Rightarrow> Updated verToInstall))"

subsection \<open>Choosing the command\<close>

datatype command = CmdUsage | CmdAdd | CmdRemove | CmdList | CmdUpdate | CmdPin | CmdVersion

definition commandOf :: "string list \<Rightarrow> command" where
  "commandOf osArgs =
     (if length osArgs < 2 then CmdUsage
      else let cmd = osArgs ! 1 in
        if cmd = ''add'' then CmdAdd
        else if cmd = ''remove'' \<or> cmd = ''rm'' then CmdRemove
        else if cmd = ''list'' \<or> cmd = ''ls'' then CmdList
        else if cmd = ''update'' \<or> cmd = ''upgrade'' then CmdUpdate
        else if cmd = ''pin'' then CmdPin
        else if cmd = ''version'' \<or> cmd = ''-v'' \<or> cmd = ''--version'' then CmdVersion
        else CmdUsage)"

subsection \<open>Arguments are read as they are meant\<close>

lemma flagLoop_one:
  "(\<And>next. body s arg next = (s', False)) \<Longrightarrow> flagLoop body s (arg # rest) = flagLoop body s' rest"
  by (cases rest) simp_all

lemma flagLoop_two:
  "body s arg (Some v) = (s', True) \<Longrightarrow> flagLoop body s (arg # v # rest) = flagLoop body s' rest"
  by simp

text \<open>A command line of \<open>add\<close> as it is meant: flags with a value, \<open>--no-restart\<close>, and words.\<close>

datatype addFlag = FHub | FToken | FEndUser | FConfig

datatype addWord = Spaced addFlag string | Joined addFlag string | NoRestart | Positional string

fun flagName :: "addFlag \<Rightarrow> string" where
  "flagName FHub = ''--hub''"
| "flagName FToken = ''--token''"
| "flagName FEndUser = ''--end-user''"
| "flagName FConfig = ''--config''"

fun setFlag :: "addFlag \<Rightarrow> string \<Rightarrow> addArgs \<Rightarrow> addArgs" where
  "setFlag FHub v a = a\<lparr>aa_HubAddr := v\<rparr>"
| "setFlag FToken v a = a\<lparr>aa_CustomToken := v\<rparr>"
| "setFlag FEndUser v a = a\<lparr>aa_EndUser := v\<rparr>"
| "setFlag FConfig v a = a\<lparr>aa_CfgPath := v\<rparr>"

fun spellWord :: "addWord \<Rightarrow> string list" where
  "spellWord (Spaced f v) = [flagName f, v]"
| "spellWord (Joined f v) = [flagName f @ ''='' @ v]"
| "spellWord NoRestart = [''--no-restart'']"
| "spellWord (Positional w) = [w]"

fun meanWord :: "addWord \<Rightarrow> addArgs \<Rightarrow> addArgs" where
  "meanWord (Spaced f v) a = setFlag f v a"
| "meanWord (Joined f v) a = setFlag f v a"
| "meanWord NoRestart a = a\<lparr>aa_NoRestart := True\<rparr>"
| "meanWord (Positional w) a = (if aa_ID a = [] then a\<lparr>aa_ID := w\<rparr> else a)"

fun plainWord :: "addWord \<Rightarrow> bool" where
  "plainWord (Positional w) \<longleftrightarrow> \<not> hasPrefix w ''-''"
| "plainWord w \<longleftrightarrow> True"

lemma addBody_spaced: "addBody a (flagName f) (Some v) = (setFlag f v a, True)"
  by (cases f) (simp_all add: addBody_def hasPrefix_def)

lemma addBody_joined: "addBody a (flagName f @ ''='' @ v) next = (setFlag f v a, False)"
  by (cases f) (simp_all add: addBody_def hasPrefix_def trimPrefix_def)

lemma addBody_positional:
  assumes "\<not> hasPrefix w ''-''"
  shows "addBody a w next = (meanWord (Positional w) a, False)"
proof -
  have "\<not> hasPrefix w (CHR ''-'' # p)" for p using assms by (cases w) (simp_all add: hasPrefix_def)
  moreover from this have "w \<noteq> CHR ''-'' # p" for p by (metis append_Nil2 hasPrefix_append)
  ultimately show ?thesis by (simp add: addBody_def)
qed

lemma flagLoop_word:
  "plainWord w \<Longrightarrow> flagLoop addBody a (spellWord w @ rest) = flagLoop addBody (meanWord w a) rest"
proof (cases w)
  case (Spaced f v)
  then show ?thesis by (simp add: addBody_spaced)
next
  case (Joined f v)
  then show ?thesis by (simp add: flagLoop_one [of addBody, OF addBody_joined, simplified])
next
  case NoRestart
  have "addBody a ''--no-restart'' next = (meanWord NoRestart a, False)" for "next"
    by (simp add: addBody_def hasPrefix_def)
  with NoRestart show ?thesis by (simp add: flagLoop_one)
next
  case (Positional p)
  assume "plainWord w"
  with Positional show ?thesis using flagLoop_one [of addBody, OF addBody_positional] by simp
qed

lemma flagLoop_words:
  "list_all plainWord ws \<Longrightarrow> flagLoop addBody a (concat (map spellWord ws)) = fold meanWord ws a"
  by (induction ws arbitrary: a) (simp_all add: flagLoop_word)

subsection \<open>The listing\<close>

lemma ResolvedEndUser_not_Nil [simp]: "ResolvedEndUser r \<noteq> []"
  by (simp add: ResolvedEndUser_def DefaultEndUser_def)

lemma noteEndUser_eq:
  "noteEndUser m r i =
   (if route_Backend r = i \<and> ResolvedEndUser r \<notin> set (m i) then m i @ [ResolvedEndUser r] else m i)"
  by (auto simp: noteEndUser_def Let_def list_ex_iff)

lemma endUsers_distinct: "distinct (m i) \<Longrightarrow> distinct (foldl noteEndUser m routes i)"
  by (induction routes arbitrary: m) (simp_all add: noteEndUser_eq)

lemma endUsers_set:
  "u \<in> set (foldl noteEndUser m routes i) \<longleftrightarrow>
   u \<in> set (m i) \<or> (\<exists>r\<in>set routes. route_Backend r = i \<and> ResolvedEndUser r = u)"
proof (induction routes arbitrary: m)
  case Nil
  then show ?case by simp
next
  case (Cons r routes)
  have "u \<in> set (noteEndUser m r i) \<longleftrightarrow> u \<in> set (m i) \<or> route_Backend r = i \<and> ResolvedEndUser r = u"
    by (auto simp: noteEndUser_eq)
  with Cons.IH [of "noteEndUser m r"] show ?case by simp
qed

lemma endUsers_spec:
  "distinct (endUsers routes i) \<and>
   set (endUsers routes i) = ResolvedEndUser ` {r \<in> set routes. route_Backend r = i}"
  using endUsers_distinct [of "\<lambda>_. []"] endUsers_set [of _ "\<lambda>_. []"] by (auto simp: endUsers_def)

lemma liveMap_Status:
  assumes "distinct (map fst entries)"
  shows "liveMap (Some (adminHandle v t entries)) = (\<lambda>i. map_option (statusOf i) (map_of entries i))"
proof -
  let ?upd = "foldl (\<lambda>m b. m(bs_Backend b \<mapsto> b))"
  have fold: "?upd m bs i = (case find (\<lambda>b. bs_Backend b = i) (rev bs) of Some b \<Rightarrow> Some b | None \<Rightarrow> m i)"
    for m bs i
    by (induction bs rule: rev_induct) auto
  let ?bs = "Status entries"
  have keys: "set (map bs_Backend ?bs) = fst ` set entries" "distinct (map bs_Backend ?bs)"
    using Status_sorted [OF assms] by blast+
  have elems: "set ?bs = (\<lambda>(i, c). statusOf i c) ` set entries"
    by (simp add: Status_def)
  have "?upd Map.empty ?bs i = map_option (statusOf i) (map_of entries i)" for i
  proof (cases "map_of entries i")
    case None
    then have "find (\<lambda>b. bs_Backend b = i) (rev ?bs) = None"
      using keys(1) by (auto simp: map_of_eq_None_iff find_None_iff)
    with None show ?thesis by (simp add: fold)
  next
    case (Some c)
    then have "statusOf i c \<in> set ?bs" using elems by (force dest: map_of_SomeD)
    then have "find (\<lambda>b. bs_Backend b = i) (rev ?bs) = Some (statusOf i c)"
      using keys(2) by (intro find_distinct_key [where f = bs_Backend]) (simp_all add: rev_map [symmetric] statusOf_def)
    with Some show ?thesis by (simp add: fold)
  qed
  then show ?thesis by (simp add: liveMap_def adminHandle_def fun_eq_iff)
qed

lemma liveMap_None [simp]: "liveMap None = Map.empty"
  by (simp add: liveMap_def)

lemma joinWith_Nil: "[] \<notin> set ss \<Longrightarrow> joinWith sep ss = [] \<longleftrightarrow> ss = []"
  by (cases ss rule: remdups_adj.cases) auto

definition orDash :: "string \<Rightarrow> string" where
  "orDash s = (if s = [] then ''-'' else s)"

subsection \<open>Durations\<close>

text \<open>
  Up to 2048 units the float64 sum never reaches the next whole number: the largest fraction of
  an hour is below \<open>1 - 1 / 2 ^ 42\<close>, which a float64 still tells from 1 there.
\<close>

lemma durationIn_exact:
  assumes unit: "0 < unit" "unit \<le> hour" and d: "0 \<le> d" "d < 2048 * unit"
  shows "truncInt (durationIn unit d) = nat (d div unit)"
proof -
  let ?i = "d div unit" and ?r = "d mod unit"
  let ?top = "1 - 1 / 2 ^ 42 :: rat"
  have r: "0 \<le> ?r" "?r \<le> unit - 1" using unit by (simp_all add: pos_mod_bound [of unit d])
  have i: "0 \<le> ?i" "?i < 2048"
  proof -
    show "0 \<le> ?i" using unit d by (simp add: pos_imp_zdiv_nonneg_iff)
    show "?i < 2048"
    proof (rule ccontr)
      assume "\<not> ?i < 2048"
      then have "2048 * unit \<le> ?i * unit" using unit by (intro mult_right_mono) simp_all
      with d(2) r(1) div_mult_mod_eq [of d unit] show False by linarith
    qed
  qed
  have exact: "f64 (of_int (n * 2 ^ 42 - 1) * pow2 (- 42)) = of_int (n * 2 ^ 42 - 1) * pow2 (- 42)"
    if "0 \<le> n" "n \<le> 2048" for n :: int
    using that by (intro f64_exact) auto
  have top: "of_int (n * 2 ^ 42 - 1) * pow2 (- 42) = of_int n - 1 / 2 ^ 42" for n :: int
    by (simp add: pow2_def field_simps)
  have repr: "f64 (of_int n - 1 / 2 ^ 42) = of_int n - 1 / 2 ^ 42" if "0 \<le> n" "n \<le> 2048" for n :: int
    using exact [OF that] by (simp only: top)
  have "of_int ?r / of_int unit \<le> ?top"
  proof -
    have "(of_int ?r :: rat) \<le> of_int (unit - 1)" using r by (simp only: of_int_le_iff)
    moreover have "(of_int unit :: rat) \<le> of_int hour" "(0::rat) < of_int unit"
      using unit by (simp_all only: of_int_le_iff of_int_0_less_iff)
    ultimately show ?thesis by (simp add: field_simps)
  qed
  moreover have "0 \<le> (of_int ?r / of_int unit :: rat)" using r unit by simp
  moreover have "f64 ?top = ?top" using repr [of 1] by simp
  ultimately have frac: "0 \<le> f64 (of_int ?r / of_int unit)" "f64 (of_int ?r / of_int unit) \<le> ?top"
    using f64r.fl_nonneg f64r.fl_le_repr by blast+
  let ?x = "of_int ?i + f64 (of_int ?r / of_int unit)"
  have "?x \<le> of_int (?i + 1) - 1 / 2 ^ 42" using frac(2) by simp
  moreover have "f64 (of_int (?i + 1) - 1 / 2 ^ 42) = of_int (?i + 1) - 1 / 2 ^ 42"
    using repr [of "?i + 1"] i by simp
  moreover have "0 \<le> ?x" using frac(1) i by simp
  ultimately have "f64 ?x \<le> of_int (?i + 1) - 1 / 2 ^ 42" by (metis f64r.fl_le_repr)
  moreover have "of_int ?i \<le> f64 ?x"
    using f64_mono [of "of_int ?i" ?x] f64_of_int [of ?i] frac(1) i by simp
  ultimately have "\<lfloor>f64 ?x\<rfloor> = ?i" by (simp add: floor_eq_iff)
  then show ?thesis by (simp add: truncInt_def durationIn_def)
qed

lemma durationSeconds_In: "0 \<le> d \<Longrightarrow> durationSeconds d = durationIn second d"
  by (cases "d = 0") (simp_all add: durationSeconds_def durationIn_def Let_def)

lemma shortDuration_whole:
  assumes "0 \<le> d" "d < 2048 * hour"
  shows "shortDuration d =
    (let s = nat (d div second); m = nat (d div minute); h = nat (d div hour) in
     if d < minute then itoa s @ ''s''
     else if d < hour then itoa m @ ''m''
     else if d < 24 * hour then itoa h @ ''h'' @ itoa (m mod 60) @ ''m''
     else itoa (h div 24) @ ''d'' @ itoa (h mod 24) @ ''h'')"
proof -
  have s: "truncInt (durationSeconds d) = nat (d div second)" if "d < minute"
    using that assms durationSeconds_In durationIn_exact [of second d] by simp
  have m: "truncInt (durationIn minute d) = nat (d div minute)" if "d < 24 * hour"
    using that assms by (intro durationIn_exact) simp_all
  have h: "truncInt (durationIn hour d) = nat (d div hour)"
    using assms by (intro durationIn_exact) simp_all
  have "d < 24 * hour" if "d < minute \<or> d < hour" using that by auto
  with s m h assms show ?thesis by (auto simp: shortDuration_def Let_def)
qed

subsection \<open>The shown pin\<close>

text \<open>
  With certificate and key both configured, or neither, the certificate whose pin is shown is
  the one the hub serves; with the certificate alone the hub falls back to the default pair and
  the pin shown is that of the configured certificate.
\<close>

lemma shown_path:
  assumes "cfg_TLSCert cfg = [] \<longleftrightarrow> cfg_TLSKey cfg = []"
  shows "(if cfg_TLSCert cfg \<noteq> [] then cfg_TLSCert cfg else DefaultTLSCertPath) = fst (tlsPaths cfg)"
  using assms by (simp add: tlsPaths_def)

lemma controlPlanePin_Pin:
  "controlPlanePin lib (Inr cfg) fs = Pin pin \<longleftrightarrow>
   (\<exists>f. fs (if cfg_TLSCert cfg \<noteq> [] then cfg_TLSCert cfg else DefaultTLSCertPath) = Some f \<and>
      FingerprintFromPEM lib (fl_Content f) = Inr pin)"
  by (auto simp: controlPlanePin_def Let_def split: option.splits sum.splits)

lemma shown_pin_of_other_certificate:
  assumes "cfg_TLSCert cfg \<noteq> []" "cfg_TLSKey cfg = []" "fs (cfg_TLSCert cfg) = Some f"
  shows "tlsPaths cfg = (DefaultTLSCertPath, DefaultTLSKeyPath) \<and>
    (FingerprintFromPEM lib (fl_Content f) = Inr pin \<longrightarrow> controlPlanePin lib (Inr cfg) fs = Pin pin)"
  using assms by (auto simp: tlsPaths_def controlPlanePin_Pin)

subsection \<open>Examples\<close>

definition exampleWords :: "addWord list" where
  "exampleWords = [Spaced FToken ''-x'', Positional ''web2'', Joined FHub ''hub:1'', NoRestart,
     Positional ''ignored'']"

definition exampleEntry :: "(string \<times> connection) list" where
  "exampleEntry = [(''web1'', exampleConnection)]"

subsection \<open>Properties\<close>

text \<open>C39: the arguments of \<open>add\<close> mean what they say. Whatever the values are, even ones that look
  like flags or like an id, and in whatever order, a flag's value is never taken for the id nor
  the other way round: the result is that of setting one after the other, the id being the
  first plain word.\<close>

theorem add_reads_arguments:
  assumes "list_all plainWord ws"
  shows "parseAdd path (concat (map spellWord ws)) =
    fold meanWord ws \<lparr>aa_CfgPath = path, aa_HubAddr = [], aa_CustomToken = [], aa_EndUser = [],
      aa_NoRestart = False, aa_ID = []\<rparr>"
  using flagLoop_words [OF assms] by (simp add: parseAdd_def)

theorem add_reads_arguments_witness:
  "aa_ID (parseAdd ''c'' [''--token'', ''-x'', ''web2'', ''--hub=hub:1'', ''--no-restart'', ''ignored'']) =
     ''web2'' \<and>
   aa_CustomToken (parseAdd ''c'' [''--token'', ''-x'', ''web2'', ''--hub=hub:1'', ''--no-restart'',
     ''ignored'']) = ''-x''"
proof -
  have "list_all plainWord exampleWords" by (simp add: exampleWords_def hasPrefix_def)
  from add_reads_arguments [OF this, of "''c''"] show ?thesis by (simp add: exampleWords_def)
qed

text \<open>C38: the list shows what there is. When the hub answers with the state of its registry, and the
  configuration loads, the command lists every configured backend, in order, as JSON or as a table:
  online exactly when the registry has its agent, then with that agent's version, platform,
  time since it connected and, in JSON, address; and with the end users of its routes, each once. The
  table ends with the number of backends online, the hub's version and uptime, and the agents of
  another version.\<close>

theorem list_shows_registry:
  assumes "decodeStatus bytes = Some (adminHandle hubVersion startedAt entries)"
    and "distinct (map fst entries)" and "load (la_CfgPath (parseList path args)) = Inr cfg"
  shows "\<exists>users. \<forall>i. distinct (users i) \<and>
    set (users i) = ResolvedEndUser ` {rt \<in> set (cfg_Routes cfg). route_Backend rt = i} \<and>
    ctlList load (Query decodeStatus (Some bytes)) now path args = Inr (
      if la_JSON (parseList path args) then Rows (map (\<lambda>b. case map_of entries (be_ID b) of
          None \<Rightarrow> \<lparr>row_ID = be_ID b, row_EndUsers = users (be_ID b), row_Online = False, row_Version = [],
            row_Platform = [], row_Uptime = [], row_Remote = []\<rparr>
        | Some c \<Rightarrow> \<lparr>row_ID = be_ID b, row_EndUsers = users (be_ID b), row_Online = True,
            row_Version = cn_version c,
            row_Platform = (if cn_os c = [] then [] else cn_os c @ ''/'' @ cn_arch c),
            row_Uptime = shortDuration (timeSub now (cn_connectedAt c)), row_Remote = cn_remoteAddr c\<rparr>)
        (cfg_Backends cfg))
      else Table (map (\<lambda>b. case map_of entries (be_ID b) of
          None \<Rightarrow> [be_ID b, ''offline'', ''-'', ''-'', ''-'', orDash (joinWith '','' (users (be_ID b)))]
        | Some c \<Rightarrow> [be_ID b, ''online'', orDash (cn_version c),
            if cn_os c = [] then ''-'' else cn_os c @ ''/'' @ cn_arch c,
            shortDuration (timeSub now (cn_connectedAt c)), orDash (joinWith '','' (users (be_ID b)))])
        (cfg_Backends cfg))
        (Some (length (filter (\<lambda>b. be_ID b \<in> fst ` set entries) (cfg_Backends cfg)),
          length (cfg_Backends cfg), hubVersion, shortDuration (timeSub now startedAt),
          concat (map (\<lambda>b. case map_of entries (be_ID b) of
              None \<Rightarrow> []
            | Some c \<Rightarrow> if cn_version c \<in> {[], hubVersion} then [] else [(be_ID b, cn_version c)])
            (cfg_Backends cfg)))))"
proof -
  let ?st = "adminHandle hubVersion startedAt entries"
  let ?live = "\<lambda>i. map_option (statusOf i) (map_of entries i)"
  let ?users = "endUsers (cfg_Routes cfg)"
  note users = endUsers_spec [of "cfg_Routes cfg"]
  have joined: "joinWith '','' (?users i) = [] \<longleftrightarrow> ?users i = []" for i
  proof (rule joinWith_Nil)
    have "set (?users i) = ResolvedEndUser ` {r \<in> set (cfg_Routes cfg). route_Backend r = i}"
      using users by blast
    then show "[] \<notin> set (?users i)" by (auto simp: ResolvedEndUser_not_Nil [symmetric])
  qed
  have known: "?live i \<noteq> None \<longleftrightarrow> i \<in> fst ` set entries" for i by (simp add: map_of_eq_None_iff)
  have online: "onlineCount cfg ?live = length (filter (\<lambda>b. be_ID b \<in> fst ` set entries) (cfg_Backends cfg))"
    by (simp only: onlineCount_def known)
  have stale: "staleAgents cfg ?st ?live = concat (map (\<lambda>b. case map_of entries (be_ID b) of
      None \<Rightarrow> []
    | Some c \<Rightarrow> if cn_version c \<in> {[], hubVersion} then [] else [(be_ID b, cn_version c)]) (cfg_Backends cfg))"
    by (auto simp: staleAgents_def statusOf_def adminHandle_def split: option.splits
        intro!: arg_cong [where f = concat] map_cong)
  have row: "jsonRow ?users ?live now b = (case map_of entries (be_ID b) of
      None \<Rightarrow> \<lparr>row_ID = be_ID b, row_EndUsers = ?users (be_ID b), row_Online = False, row_Version = [],
        row_Platform = [], row_Uptime = [], row_Remote = []\<rparr>
    | Some c \<Rightarrow> \<lparr>row_ID = be_ID b, row_EndUsers = ?users (be_ID b), row_Online = True,
        row_Version = cn_version c,
        row_Platform = (if cn_os c = [] then [] else cn_os c @ ''/'' @ cn_arch c),
        row_Uptime = shortDuration (timeSub now (cn_connectedAt c)), row_Remote = cn_remoteAddr c\<rparr>)" for b
    by (auto simp: jsonRow_def statusOf_def platformOf_def split: option.splits)
  have cells: "tableRow ?users (Some ?st) ?live now b = (case map_of entries (be_ID b) of
      None \<Rightarrow> [be_ID b, ''offline'', ''-'', ''-'', ''-'', orDash (joinWith '','' (?users (be_ID b)))]
    | Some c \<Rightarrow> [be_ID b, ''online'', orDash (cn_version c),
        if cn_os c = [] then ''-'' else cn_os c @ ''/'' @ cn_arch c,
        shortDuration (timeSub now (cn_connectedAt c)), orDash (joinWith '','' (?users (be_ID b)))])" for b
    by (auto simp: tableRow_def statusOf_def platformOf_def orDash_def joined split: option.splits)
  show ?thesis
    by (rule exI [of _ ?users])
      (use users assms in \<open>simp add: ctlList_def Query_def liveMap_Status row cells online stale\<close>,
       simp add: adminHandle_def)
qed

theorem list_shows_registry_witness:
  "\<exists>cells. ctlList (\<lambda>_. Inr exampleValid) (Query (\<lambda>_. Some (adminHandle ''0.9.0'' 0 exampleEntry)) (Some []))
      7 ''c'' [] = Inr (Table cells (Some (1, 2, ''0.9.0'', ''0s'', [(''web1'', ''0.8.0'')]))) \<and>
     map (take 4) cells =
       [[''web1'', ''online'', ''0.8.0'', ''linux/amd64''], [''db1'', ''offline'', ''-'', ''-'']]"
proof -
  have entries: "distinct (map fst exampleEntry)" by (simp add: exampleEntry_def)
  have "itoa 0 = ''0''" by code_simp
  then have up: "shortDuration (timeSub 7 0) = ''0s''"
    using shortDuration_whole [of "timeSub 7 0"] by (simp add: timeSub_def min_duration_def max_duration_def)
  from list_shows_registry [of "\<lambda>_. Some (adminHandle ''0.9.0'' 0 exampleEntry)" "[]" "''0.9.0''" 0
      exampleEntry "\<lambda>_. Inr exampleValid" "''c''" "[]" exampleValid 7, OF refl entries refl]
  show ?thesis
    by - (elim exE, drule spec [of _ "[]"], elim conjE,
      simp add: up orDash_def exampleEntry_def exampleConfig_def exampleConnection_def parseList_def)
qed

text \<open>C25: the time shown is exact. The code divides in float64 and cuts off; for any duration of up to
  2048 hours this shows the whole seconds, minutes, hours and minutes, or days and hours that have
  passed, each rounded down and none off by one.\<close>

theorem uptime_shown_exact:
  assumes "0 \<le> d" "d < 2048 * hour"
  shows "shortDuration d =
    (let s = nat (d div second); m = nat (d div minute); h = nat (d div hour) in
     if d < minute then itoa s @ ''s''
     else if d < hour then itoa m @ ''m''
     else if d < 24 * hour then itoa h @ ''h'' @ itoa (m mod 60) @ ''m''
     else itoa (h div 24) @ ''d'' @ itoa (h mod 24) @ ''h'')"
  using assms by (rule shortDuration_whole)

theorem uptime_shown_exact_witness: "shortDuration (3 * hour - 1) = ''2h59m''"
proof -
  have "itoa 2 = ''2''" "itoa 59 = ''59''" by code_simp+
  with uptime_shown_exact [of "3 * hour - 1"] show ?thesis by (simp add: Let_def)
qed

end
