(* ===== verification/Agent_Life.thy ===== *)
theory Agent_Life
  imports Agent
begin

text \<open>
  The whole life of an agent: \<open>run\<close> of \<open>cmd/sshhub-agent/main.go\<close> with \<open>ConnectWithHostKey\<close> and
  \<open>Serve\<close> of \<open>internal/control/client.go\<close> in it, and the stubs of \<open>internal/control/agent_update.go\<close>
  that it calls. What it shows the world is a sequence of acts; the loop of \<open>Agent\<close> is what remains
  of it in the log.
\<close>

subsection \<open>What is left of the agent's own updates\<close>

definition DownloadAndApplyGitHubUpdate :: "string \<Rightarrow> string + unit" where
  "DownloadAndApplyGitHubUpdate tag =
     Inl ''agent self-update removed: install a verified release locally''"

definition AgentUpdateCheckInterval :: duration where
  "AgentUpdateCheckInterval = 30 * minute"

subsection \<open>Turns with a peer\<close>

text \<open>
  What a turn of \<open>run\<close> meets: whether the context is done at its head, the peer that the hub's
  address leads to, whether the context is done when \<open>ctx.Err\<close> is asked again, what the session
  brings, and the end of the pause.
\<close>

record agentTurn =
  at_Done :: bool
  at_Peer :: peer
  at_DoneAfter :: bool
  at_Session :: "serveEvent list"
  at_Sleep :: sleepEnd

text \<open>A request that reached a peer, what was done with the streams a peer opened, a log line or pause.\<close>

datatype agentAct =
    SendsTo peer RegisterRequest
  | ServesTo peer serveAction
  | Shows runEvent

text \<open>The acts that the agent's updater adds to those of its loop.\<close>

definition StartAgentAutoUpdater :: "agentAct list" where
  "StartAgentAutoUpdater = []"

text \<open>
  \<open>Serve\<close> returns nil only when the context is done, which it then stays. While the session lasts
  the loop waits in \<open>Serve\<close>, whatever turns are listed after it.
\<close>

primrec lifeLoop ::
  "agentStart \<Rightarrow> string \<Rightarrow> string \<Rightarrow> string \<Rightarrow> duration \<Rightarrow> bool \<Rightarrow> agentTurn list \<Rightarrow> agentAct list \<times> bool" where
  "lifeLoop s version goos arch backoff loggedDown [] = ([], False)"
| "lifeLoop s version goos arch backoff loggedDown (t # ts) =
     (if at_Done t then ([], True)
      else
        let (connected, sent) = ConnectWithHostKey (Some (as_TLS s)) (at_Peer t) (as_Backend s)
              (as_Token s) [] version goos arch;
            sends = map (SendsTo (at_Peer t)) sent in
        case connected of
          Inl err \<Rightarrow>
            if at_DoneAfter t then (sends, True)
            else
              let down = (if loggedDown then [] else [Shows (CannotReach backoff)]);
                  acts = sends @ down @ [Shows (Sleeps backoff)] in
              if \<not> sleepCtx (at_Sleep t) then (acts, True)
              else let (as, r) = lifeLoop s version goos arch (nextBackoff backoff) True ts
                   in (acts @ as, r)
        | Inr assigned \<Rightarrow>
            let (served, end) = agentServe (as_Sshd s) (at_Session t);
                acts = sends @ Shows (RegisteredAs assigned) # map (ServesTo (at_Peer t)) served in
            case end of
              None \<Rightarrow> (acts, False)
            | Some e \<Rightarrow>
                if at_DoneAfter t \<or> e = ServeNil then (acts, True)
                else
                  let lost = (if e \<noteq> ServeNil then ConnectionLost else ConnectionClosed);
                      acts = acts @ [Shows lost, Shows (Sleeps minBackoff)] in
                  if \<not> sleepCtx (at_Sleep t) then (acts, True)
                  else let (as, r) = lifeLoop s version goos arch minBackoff False ts
                       in (acts @ as, r))"

text \<open>
  \<open>main\<close> after the checks: the updater that does nothing is started, then the loop; a signal is
  what makes the context done at some point of it.
\<close>

definition agentLife ::
  "agentStart \<Rightarrow> string \<Rightarrow> string \<Rightarrow> string \<Rightarrow> agentTurn list \<Rightarrow> agentAct list \<times> bool" where
  "agentLife s version goos arch ts =
     (let (as, r) = lifeLoop s version goos arch minBackoff False ts in (StartAgentAutoUpdater @ as, r))"

subsection \<open>What the acts of a life are\<close>

lemma agentLife_loop: "agentLife s version goos arch ts = lifeLoop s version goos arch minBackoff False ts"
  by (simp add: agentLife_def StartAgentAutoUpdater_def)

lemma connected_peer:
  assumes "fst (ConnectWithHostKey conf p backend token hostKey version goos arch) = Inr assigned"
  shows "handshakeOK conf p \<and>
    (\<exists>resp. pe_Reply p (WriteRegister (clientRequest backend token hostKey version goos arch)) = Some resp \<and> rp_OK resp)"
  using assms
  by (auto simp: ConnectWithHostKey_def clientRegister_def Let_def split: if_splits option.splits sum.splits)

text \<open>What a turn contributes, if the loop gets to it.\<close>

definition turnActs :: "agentStart \<Rightarrow> string \<Rightarrow> string \<Rightarrow> string \<Rightarrow> agentTurn \<Rightarrow> agentAct list" where
  "turnActs s version goos arch t =
     (let (connected, sent) = ConnectWithHostKey (Some (as_TLS s)) (at_Peer t) (as_Backend s)
            (as_Token s) [] version goos arch in
      map (SendsTo (at_Peer t)) sent @
      (case connected of Inl err \<Rightarrow> []
       | Inr assigned \<Rightarrow> map (ServesTo (at_Peer t)) (fst (agentServe (as_Sshd s) (at_Session t)))))"

lemma life_acts:
  "act \<in> set (fst (lifeLoop s version goos arch b l ts)) \<Longrightarrow>
   (\<exists>t\<in>set ts. act \<in> set (turnActs s version goos arch t)) \<or>
   (\<exists>e. act = Shows e \<and> e \<noteq> ConnectionClosed)"
proof (induction ts arbitrary: b l)
  case (Cons t ts)
  obtain connected sent where c: "ConnectWithHostKey (Some (as_TLS s)) (at_Peer t) (as_Backend s)
      (as_Token s) [] version goos arch = (connected, sent)" by force
  obtain served e where e: "agentServe (as_Sshd s) (at_Session t) = (served, e)" by force
  note IH = Cons.IH [of "nextBackoff b" True] Cons.IH [of minBackoff False]
  show ?case
  proof (cases connected)
    case (Inl err)
    with Cons.prems IH(1) show ?thesis
      by (auto simp: c turnActs_def Let_def split: prod.splits if_splits)
  next
    case (Inr assigned)
    with Cons.prems IH(2) show ?thesis
      by (auto simp: c e turnActs_def Let_def split: prod.splits if_splits option.splits)
  qed
qed simp

lemma turnActs_SendsTo:
  "SendsTo p req \<in> set (turnActs s version goos arch t) \<longleftrightarrow> p = at_Peer t \<and>
   req \<in> set (snd (ConnectWithHostKey (Some (as_TLS s)) p (as_Backend s) (as_Token s) [] version goos arch))"
  by (auto simp: turnActs_def case_prod_beta split: sum.splits)

lemma turnActs_ServesTo:
  "ServesTo p a \<in> set (turnActs s version goos arch t) \<longleftrightarrow> p = at_Peer t \<and>
   (\<exists>assigned. fst (ConnectWithHostKey (Some (as_TLS s)) p (as_Backend s) (as_Token s) [] version goos arch) =
      Inr assigned) \<and>
   a \<in> set (fst (agentServe (as_Sshd s) (at_Session t)))"
  by (auto simp: turnActs_def case_prod_beta split: sum.splits) (metis sum.exhaust)

lemma turnActs_Shows [simp]: "Shows e \<notin> set (turnActs s version goos arch t)"
  by (auto simp: turnActs_def split: prod.splits sum.splits)

subsection \<open>The loop behind the log\<close>

definition turnOf :: "agentStart \<Rightarrow> string \<Rightarrow> string \<Rightarrow> string \<Rightarrow> agentTurn \<Rightarrow> turn" where
  "turnOf s version goos arch t =
     (let connected = fst (ConnectWithHostKey (Some (as_TLS s)) (at_Peer t) (as_Backend s) (as_Token s)
            [] version goos arch);
          nil = (snd (agentServe (as_Sshd s) (at_Session t)) = Some ServeNil) in
      \<lparr>tn_Done = at_Done t, tn_Connect = connected,
       tn_DoneAfter = (at_DoneAfter t \<or> (\<exists>assigned. connected = Inr assigned) \<and> nil),
       tn_Serve = (\<not> nil), tn_Sleep = at_Sleep t\<rparr>)"

definition shown :: "agentAct list \<Rightarrow> runEvent list" where
  "shown acts = concat (map (\<lambda>a. case a of Shows e \<Rightarrow> [e] | _ \<Rightarrow> []) acts)"

lemma shown_simps [simp]:
  "shown [] = []"
  "shown (as @ bs) = shown as @ shown bs"
  "shown (Shows e # as) = e # shown as"
  "shown (SendsTo p req # as) = shown as"
  "shown (ServesTo p a # as) = shown as"
  by (simp_all add: shown_def)

lemma shown_map [simp]: "shown (map (SendsTo p) reqs) = []" "shown (map (ServesTo p) as) = []"
  by (induction reqs) (simp_all, induction as, simp_all)

definition sessionEnds :: "agentStart \<Rightarrow> agentTurn \<Rightarrow> bool" where
  "sessionEnds s t \<longleftrightarrow> snd (agentServe (as_Sshd s) (at_Session t)) \<noteq> None"

text \<open>When every session comes to its end, the log and the pauses are those of the loop over turns.\<close>

lemma life_refines_loop:
  assumes "list_all (sessionEnds s) ts"
  shows "map_prod shown id (lifeLoop s version goos arch b l ts) =
    runLoop b l (map (turnOf s version goos arch) ts)"
  using assms
proof (induction ts arbitrary: b l)
  case (Cons t ts)
  obtain connected sent where c: "ConnectWithHostKey (Some (as_TLS s)) (at_Peer t) (as_Backend s)
      (as_Token s) [] version goos arch = (connected, sent)" by force
  from Cons.prems obtain served e where e: "agentServe (as_Sshd s) (at_Session t) = (served, Some e)"
    by (cases "agentServe (as_Sshd s) (at_Session t)") (auto simp: sessionEnds_def)
  note IH = Cons.IH [of "nextBackoff b" True] Cons.IH [of minBackoff False]
  from Cons.prems IH show ?case
    by (cases connected)
      (auto simp: c e turnOf_def Let_def case_prod_beta prod_eq_iff)
qed simp

lemma uncancelled_turnOf:
  assumes "\<not> at_Done t" "\<not> at_DoneAfter t" "sleepCtx (at_Sleep t)"
    and "snd (agentServe (as_Sshd s) (at_Session t)) \<noteq> Some ServeNil"
  shows "uncancelled (turnOf s version goos arch t)"
  using assms by (simp add: uncancelled_def turnOf_def Let_def)

subsection \<open>Who an agent deals with\<close>

text \<open>The peer has shown a certificate whose public key has the digest that the pin spells.\<close>

definition holdsPin :: "tlsLib \<Rightarrow> string \<Rightarrow> peer \<Rightarrow> bool" where
  "holdsPin lib pin p \<longleftrightarrow>
     (\<exists>der rest cert. pe_Chain p = der # rest \<and> tl_ParseCertificate lib der = Some cert \<and>
        Fingerprint lib cert = pin)"

text \<open>An address of the machine itself; an IPv4 literal starts with \<open>127.\<close> as it is written.\<close>

definition literalLoopback :: "string \<Rightarrow> bool" where
  "literalLoopback x \<longleftrightarrow>
     (\<exists>h port ip. SplitHostPort x = Some (h, port) \<and> ParseIP h = Some ip \<and> IsLoopback ip \<and>
        (CHR '':'' \<in> set h \<or> hasPrefix h ''127.''))"

lemma loopbackAddr_literal: "loopbackAddr x \<Longrightarrow> literalLoopback x"
  unfolding literalLoopback_def loopbackAddr_def using loopback_literal
  by (fastforce split: option.splits)

lemma agentMain_pinned:
  assumes "agentMain lib f st content = Inr s" "\<not> af_Insecure f" "handshakeOK (Some (as_TLS s)) p"
  shows "holdsPin lib (af_Pin f) p"
  using assms(1)
proof (cases rule: agentMain_Inr)
  case (1 bytes)
  with assms(2,3) pinned_handshake show ?thesis unfolding holdsPin_def by blast
qed

lemma served_address:
  assumes "DialSshd x \<in> set (fst (agentServe addr es))"
  shows "x = addr \<and> loopbackAddr addr"
proof (cases "loopbackAddr addr")
  case True
  with assms show ?thesis
    using serveLoop_addr [of addr 0 es] by (auto simp: agentServe_def prod_eq_iff)
qed (use assms in \<open>simp add: agentServe_def\<close>)

lemma sent_token:
  assumes "req \<in> set (snd (ConnectWithHostKey conf p backend token hostKey version goos arch))"
  shows "rq_Token req = token"
  using sent_handshake [OF assms] by (simp add: WriteRegister_def clientRequest_def)

lemma accepted_token:
  assumes "fst (ConnectWithHostKey conf p backend token hostKey version goos arch) = Inr assigned"
  shows "\<exists>req resp. pe_Reply p req = Some resp \<and> rp_OK resp \<and> rq_Token req = token"
proof -
  let ?req = "WriteRegister (clientRequest backend token hostKey version goos arch)"
  from connected_peer [OF assms] obtain resp where "pe_Reply p ?req = Some resp" "rp_OK resp" by blast
  moreover have "rq_Token ?req = token" by (simp add: WriteRegister_def clientRequest_def)
  ultimately show ?thesis by blast
qed

lemma served_acts:
  assumes "a \<in> set (fst (agentServe addr es))"
  shows "a = CloseStream \<or> a = DialSshd addr \<and> literalLoopback addr"
proof (cases a)
  case (DialSshd x)
  with assms served_address [of x addr es] loopbackAddr_literal show ?thesis by simp
qed simp

subsection \<open>Staying registered\<close>

lemma life_registrations:
  assumes "list_all (\<lambda>t. \<not> at_Done t \<and> \<not> at_DoneAfter t \<and> sleepCtx (at_Sleep t) \<and>
      snd (agentServe (as_Sshd s) (at_Session t)) = Some AcceptStreamError) ts"
  shows "\<not> snd (agentLife s version goos arch ts) \<and>
    registrations (shown (fst (agentLife s version goos arch ts))) =
      concat (map (\<lambda>t. case fst (ConnectWithHostKey (Some (as_TLS s)) (at_Peer t) (as_Backend s)
         (as_Token s) [] version goos arch) of Inr assigned \<Rightarrow> [assigned] | Inl _ \<Rightarrow> []) ts) \<and>
    (\<forall>d. Shows (Sleeps d) \<in> set (fst (agentLife s version goos arch ts)) \<longrightarrow>
       2 * second \<le> d \<and> d \<le> 60 * second)"
proof -
  let ?ts = "map (turnOf s version goos arch) ts"
  have "list_all (sessionEnds s) ts" "list_all uncancelled ?ts"
    using assms by (auto simp: list_all_iff sessionEnds_def intro!: uncancelled_turnOf)
  from life_refines_loop [OF this(1), of version goos arch minBackoff False] this(2)
  have run: "map_prod shown id (agentLife s version goos arch ts) = agentRun ?ts"
    and free: "list_all uncancelled ?ts"
    by (simp_all add: agentLife_loop agentRun_def)
  moreover have "Sleeps d \<in> set (shown (fst (agentLife s version goos arch ts)))"
    if "Shows (Sleeps d) \<in> set (fst (agentLife s version goos arch ts))" for d
    using that by (auto simp: shown_def intro!: bexI [where x = "Shows (Sleeps d)"])
  moreover have "accepted ?ts = concat (map (\<lambda>t. case fst (ConnectWithHostKey (Some (as_TLS s)) (at_Peer t)
      (as_Backend s) (as_Token s) [] version goos arch) of Inr assigned \<Rightarrow> [assigned] | Inl _ \<Rightarrow> []) ts)"
    by (simp add: accepted_def turnOf_def Let_def comp_def)
  ultimately show ?thesis
    using stays_connected [OF free] by (simp add: prod_eq_iff)
qed

subsection \<open>Safety of a life\<close>

lemma life_safe:
  assumes "agentMain lib f st content = Inr s" "\<not> af_Insecure f"
    and "act \<in> set (fst (agentLife s version goos arch ts))"
  shows "case act of
      SendsTo p req \<Rightarrow> holdsPin lib (af_Pin f) p \<and>
        (\<exists>bytes. content = Some bytes \<and> rq_Token req = trimSpace bytes \<and> rq_Token req \<noteq> []) \<and>
        (\<exists>i. st = Some i \<and> fi_Regular i \<and> \<not> bit (fi_Perm i) 0 \<and> \<not> bit (fi_Perm i) 1 \<and>
          \<not> bit (fi_Perm i) 2 \<and> \<not> bit (fi_Perm i) 4)
    | ServesTo p a \<Rightarrow> holdsPin lib (af_Pin f) p \<and>
        (\<exists>req resp. pe_Reply p req = Some resp \<and> rp_OK resp \<and> rq_Token req = as_Token s) \<and>
        (a = CloseStream \<or> a = DialSshd (af_Sshd f) \<and> literalLoopback (af_Sshd f))
    | Shows e \<Rightarrow> e \<noteq> ConnectionClosed"
proof -
  note pinned = agentMain_pinned [OF assms(1,2)]
  from assms(1) obtain bytes where start: "content = Some bytes" "as_Token s = trimSpace bytes"
    "as_Token s \<noteq> []" "as_Sshd s = af_Sshd f" "tokenFileOK st"
    by (cases rule: agentMain_Inr)
  from life_acts [OF assms(3) [unfolded agentLife_loop]] show ?thesis
  proof (elim disjE bexE exE conjE)
    fix t assume act: "act \<in> set (turnActs s version goos arch t)"
    show ?thesis
    proof (cases act)
      case (SendsTo p req)
      with act have "req \<in> set (snd (ConnectWithHostKey (Some (as_TLS s)) p (as_Backend s)
          (as_Token s) [] version goos arch))" by (auto simp: turnActs_SendsTo)
      with sent_handshake sent_token pinned start show ?thesis
        by (simp add: SendsTo tokenFileOK_iff)
    next
      case (ServesTo p a)
      with act obtain assigned where "fst (ConnectWithHostKey (Some (as_TLS s)) p (as_Backend s)
          (as_Token s) [] version goos arch) = Inr assigned" "a \<in> set (fst (agentServe (as_Sshd s) (at_Session t)))"
        by (auto simp: turnActs_ServesTo)
      with accepted_token connected_peer served_acts pinned start(4) show ?thesis
        by (simp add: ServesTo)
    qed (use act in simp)
  qed simp
qed

subsection \<open>An agent with a hub\<close>

text \<open>The pinned hub, which takes the agent, and a session that ends after a stream.\<close>

definition livePeer :: peer where
  "livePeer = examplePeer\<lparr>pe_Reply := (\<lambda>req. Some \<lparr>rp_OK = True, rp_Backend = ''web1'', rp_Error = [],
     rp_UpdateAvailable = False, rp_LatestVersion = Version\<rparr>)\<rparr>"

definition upAndDown :: agentTurn where
  "upAndDown = \<lparr>at_Done = False, at_Peer = livePeer, at_DoneAfter = False,
     at_Session = [StreamArrives, SessionEnds False], at_Sleep = TimerFires\<rparr>"

lemma example_live:
  "\<exists>s :: agentStart. agentMain exampleTLS exampleFlags (Some exampleFile) (Some ''t1'') = Inr s \<and>
     as_Token s = ''t1'' \<and> handshakeOK (Some (as_TLS s)) livePeer \<and> as_Sshd s = ''127.0.0.1:22''"
proof -
  obtain s :: agentStart where s: "agentMain exampleTLS exampleFlags (Some exampleFile) (Some ''t1'') = Inr s"
    "as_Token s = ''t1''" "handshakeOK (Some (as_TLS s)) livePeer"
    using example_agent
    by (auto simp: handshakeOK_def verifyPin_Inr livePeer_def examplePeer_def exampleTLS_def
        Fingerprint_def pinPrefix_def examplePin_def)
  from s(1) have "as_Sshd s = ''127.0.0.1:22''"
    by (cases rule: agentMain_Inr) (simp add: exampleFlags_def)
  with s show ?thesis by blast
qed

lemma live_connects:
  "handshakeOK conf livePeer \<Longrightarrow> ConnectWithHostKey conf livePeer backend token hostKey version goos arch =
   (Inr ''web1'', [WriteRegister (clientRequest backend token hostKey version goos arch)])"
  by (simp add: ConnectWithHostKey_def livePeer_def examplePeer_def clientRegister_def)

lemma refusing_connects:
  "fst (ConnectWithHostKey conf examplePeer backend token hostKey version goos arch) =
   Inl (RegisterFailed ReadResponseFailed)"
  by (simp add: ConnectWithHostKey_def examplePeer_def clientRegister_def)

lemma live_sends:
  assumes "handshakeOK (Some (as_TLS s)) livePeer" "as_Sshd s = ''127.0.0.1:22''"
  shows "SendsTo livePeer (WriteRegister (clientRequest (as_Backend s) (as_Token s) [] version goos arch))
    \<in> set (fst (agentLife s version goos arch [upAndDown]))"
proof -
  have "agentServe ''127.0.0.1:22'' [StreamArrives, SessionEnds False] =
      ([DialSshd ''127.0.0.1:22''], Some AcceptStreamError)"
    by code_simp
  with assms live_connects [OF assms(1)] show ?thesis
    by (simp add: agentLife_loop upAndDown_def)
qed

subsection \<open>Properties\<close>

text \<open>C15: in its whole life an agent deals with nobody but the hub it was told of. Unless the
  operator opts out of the pin, over any number of connections and whatever the network does,
  only a peer that has shown the pinned key receives a request, which carries the token of the
  file; only for a peer that has shown it and has accepted the registration are streams bridged;
  and nothing is dialled for them but the loopback address of the flags. The log never says that
  the hub closed the connection: the code's line for it cannot be reached.\<close>

theorem agent_life_safe:
  assumes "agentMain lib f st content = Inr s" "\<not> af_Insecure f"
    and "act \<in> set (fst (agentLife s version goos arch ts))"
  shows "case act of
      SendsTo p req \<Rightarrow> holdsPin lib (af_Pin f) p \<and>
        (\<exists>bytes. content = Some bytes \<and> rq_Token req = trimSpace bytes \<and> rq_Token req \<noteq> []) \<and>
        (\<exists>i. st = Some i \<and> fi_Regular i \<and> \<not> bit (fi_Perm i) 0 \<and> \<not> bit (fi_Perm i) 1 \<and>
          \<not> bit (fi_Perm i) 2 \<and> \<not> bit (fi_Perm i) 4)
    | ServesTo p a \<Rightarrow> holdsPin lib (af_Pin f) p \<and>
        (\<exists>req resp. pe_Reply p req = Some resp \<and> rp_OK resp \<and> rq_Token req = as_Token s) \<and>
        (a = CloseStream \<or> a = DialSshd (af_Sshd f) \<and> literalLoopback (af_Sshd f))
    | Shows e \<Rightarrow> e \<noteq> ConnectionClosed"
  using assms by (rule life_safe)

theorem agent_life_safe_witness:
  "\<exists>(s :: agentStart) req. SendsTo livePeer req \<in> set (fst (agentLife s Version ''linux'' ''amd64'' [upAndDown])) \<and>
     holdsPin exampleTLS examplePin livePeer \<and> rq_Token req = ''t1''"
proof -
  obtain s :: agentStart where s: "agentMain exampleTLS exampleFlags (Some exampleFile) (Some ''t1'') = Inr s"
    "as_Token s = ''t1''" "handshakeOK (Some (as_TLS s)) livePeer" "as_Sshd s = ''127.0.0.1:22''"
    using example_live by blast
  note sent = live_sends [OF s(3,4), of Version "''linux''" "''amd64''"]
  have "trimSpace ''t1'' = ''t1''" by code_simp
  with agent_life_safe [OF s(1) _ sent]
  have "holdsPin exampleTLS examplePin livePeer \<and>
      rq_Token (WriteRegister (clientRequest (as_Backend s) (as_Token s) [] Version ''linux'' ''amd64'')) = ''t1''"
    by (auto simp: exampleFlags_def)
  with sent show ?thesis by blast
qed

text \<open>C34: an agent keeps coming back. While nothing cancels it and every session it gets ends, the agent
  does not return, it registers in exactly the turns in which its peer verifies and takes it, and
  every pause is between 2 and 60 seconds.\<close>

theorem agent_keeps_registering:
  assumes "list_all (\<lambda>t. \<not> at_Done t \<and> \<not> at_DoneAfter t \<and> sleepCtx (at_Sleep t) \<and>
      snd (agentServe (as_Sshd s) (at_Session t)) = Some AcceptStreamError) ts"
  shows "\<not> snd (agentLife s version goos arch ts) \<and>
    registrations (shown (fst (agentLife s version goos arch ts))) =
      concat (map (\<lambda>t. case fst (ConnectWithHostKey (Some (as_TLS s)) (at_Peer t) (as_Backend s)
         (as_Token s) [] version goos arch) of Inr assigned \<Rightarrow> [assigned] | Inl _ \<Rightarrow> []) ts) \<and>
    (\<forall>d. Shows (Sleeps d) \<in> set (fst (agentLife s version goos arch ts)) \<longrightarrow>
       2 * second \<le> d \<and> d \<le> 60 * second)"
  using assms by (rule life_registrations)

theorem agent_keeps_registering_witness:
  "\<exists>(s :: agentStart). agentMain exampleTLS exampleFlags (Some exampleFile) (Some ''t1'') = Inr s \<and>
     registrations (shown (fst (agentLife s Version ''linux'' ''amd64''
       [upAndDown, upAndDown\<lparr>at_Peer := examplePeer\<rparr>, upAndDown]))) = [''web1'', ''web1'']"
proof -
  obtain s :: agentStart where s: "agentMain exampleTLS exampleFlags (Some exampleFile) (Some ''t1'') = Inr s"
    "handshakeOK (Some (as_TLS s)) livePeer" "as_Sshd s = ''127.0.0.1:22''"
    using example_live by blast
  have "snd (agentServe ''127.0.0.1:22'' [StreamArrives, SessionEnds False]) = Some AcceptStreamError"
    by code_simp
  with agent_keeps_registering [of s "[upAndDown, upAndDown\<lparr>at_Peer := examplePeer\<rparr>, upAndDown]"
      Version "''linux''" "''amd64''"] s live_connects [OF s(2)] refusing_connects
  show ?thesis by (simp add: upAndDown_def)
qed

end
