(* ===== verification/Restart.thy ===== *)
theory Restart
  imports Ctl Agent_Life
begin

text \<open>
  One machine's hub over its restarts (\<open>cmd/sshhub/main.go\<close>), the operator's tool beside it
  (\<open>cmd/sshhub-ctl/main.go\<close>), and an agent that lives through them (\<open>cmd/sshhub-agent/main.go\<close>).
  Every start of the hub finds the certificate files the starts before it left, and its own
  configuration, host name, random numbers and failures.
\<close>

subsection \<open>Starts of a hub\<close>

record hubStart =
  hs_Env :: tlsEnv
  hs_Hostname :: "string option"
  hs_Config :: "string option"
  hs_ReadFile :: "string \<Rightarrow> string option"

primrec hubStarts ::
  "tlsLib \<Rightarrow> authorizedKeyParser \<Rightarrow> (string \<Rightarrow> Config option) \<Rightarrow> (string \<Rightarrow> bool) \<Rightarrow> hubStart list \<Rightarrow>
   tlsFiles \<Rightarrow> (hubFatal + hubParts) list \<times> tlsFiles" where
  "hubStarts lib parse decode privateKeyOk [] fs = ([], fs)"
| "hubStarts lib parse decode privateKeyOk (st # sts) fs =
     (let (r, fs) = hubMain lib (hs_Env st) (hs_Hostname st) parse decode (hs_Config st) (hs_ReadFile st)
            privateKeyOk fs;
          (rs, fs) = hubStarts lib parse decode privateKeyOk sts fs
      in (r # rs, fs))"

lemma controlTLS_keeps: "controlTLS lib env hostname cfg fs = (r, fs') \<Longrightarrow> fs p = Some f \<Longrightarrow> fs' p = Some f"
  by (auto simp: controlTLS_def split: prod.splits sum.splits dest: LoadOrCreate_frame(1))

lemma hubMain_keeps:
  assumes "hubMain lib env hostname parse decode cfg readFile privateKeyOk fs = (r, fs')" "fs p = Some f"
  shows "fs' p = Some f"
  using assms
  by (auto simp: hubMain_def Let_def split: sum.splits prod.splits dest: controlTLS_keeps)

lemma hubStarts_keep:
  "hubStarts lib parse decode privateKeyOk sts fs = (rs, fs') \<Longrightarrow> fs p = Some f \<Longrightarrow> fs' p = Some f"
proof (induction sts arbitrary: fs rs)
  case (Cons st sts)
  then show ?case by (auto simp: case_prod_beta prod_eq_iff dest: hubMain_keeps [OF prod.collapse [symmetric]])
qed simp

text \<open>The key pair that a hub serves is the one in its two files, at its start and ever after.\<close>

definition servesFiles :: "tlsLib \<Rightarrow> tlsFiles \<Rightarrow> hubParts \<Rightarrow> bool" where
  "servesFiles lib fs parts \<longleftrightarrow>
     (\<exists>c k cert. fs (fst (tlsPaths (hp_Config parts))) = Some c \<and> fs (snd (tlsPaths (hp_Config parts))) = Some k \<and>
        tl_X509KeyPair lib (fl_Content c) (fl_Content k) = Some cert \<and> hp_TLS parts = tlsServerConfig cert)"

lemma hubMain_serves:
  assumes "hubMain lib env hostname parse decode cfg readFile privateKeyOk fs = (Inr parts, fs')"
    and "fst (tlsPaths (hp_Config parts)) \<noteq> snd (tlsPaths (hp_Config parts))"
  shows "servesFiles lib fs' parts"
proof -
  from assms(1) have "controlTLS lib env hostname (hp_Config parts) fs = (Inr (hp_TLS parts), fs')"
    by (cases rule: hubMain_Inr)
  from controlTLS_Inr [OF this] obtain cert where
    "LoadOrCreate lib env (fst (tlsPaths (hp_Config parts))) (snd (tlsPaths (hp_Config parts)))
       (tlsHosts (hp_Config parts) hostname) fs = (Inr cert, fs')" "hp_TLS parts = tlsServerConfig cert" by blast
  with LoadOrCreate_Inr [OF this(1) assms(2)] show ?thesis by (auto simp: servesFiles_def)
qed

lemma servesFiles_mono:
  "servesFiles lib fs parts \<Longrightarrow> (\<And>p f. fs p = Some f \<Longrightarrow> fs' p = Some f) \<Longrightarrow> servesFiles lib fs' parts"
  unfolding servesFiles_def by blast

text \<open>Every hub that came up is one start, whose files are there at the end.\<close>

lemma hubStarts_each:
  assumes "hubStarts lib parse decode privateKeyOk sts fs = (rs, fs')" "r \<in> set rs"
  shows "\<exists>st\<in>set sts. \<exists>fs0 fs1. hubMain lib (hs_Env st) (hs_Hostname st) parse decode (hs_Config st)
      (hs_ReadFile st) privateKeyOk fs0 = (r, fs1) \<and> (\<forall>p f. fs1 p = Some f \<longrightarrow> fs' p = Some f)"
  using assms
proof (induction sts arbitrary: fs rs)
  case (Cons st sts)
  obtain r0 fs1 where first: "hubMain lib (hs_Env st) (hs_Hostname st) parse decode (hs_Config st)
      (hs_ReadFile st) privateKeyOk fs = (r0, fs1)" by force
  obtain rs1 where rest: "hubStarts lib parse decode privateKeyOk sts fs1 = (rs1, fs')" "rs = r0 # rs1"
    using Cons.prems(1) first by (auto split: prod.splits)
  from Cons.IH [OF rest(1)] Cons.prems(2) rest(2) first hubStarts_keep [OF rest(1)] show ?case by auto
qed simp

lemma hubStarts_serve:
  assumes "hubStarts lib parse decode privateKeyOk sts fs = (rs, fs')" "Inr parts \<in> set rs"
    and "fst (tlsPaths (hp_Config parts)) \<noteq> snd (tlsPaths (hp_Config parts))"
  shows "servesFiles lib fs' parts"
  using hubStarts_each [OF assms(1,2)] hubMain_serves [OF _ assms(3)] servesFiles_mono by blast

lemma hubStarts_valid:
  assumes "hubStarts lib parse decode privateKeyOk sts fs = (rs, fs')" "Inr parts \<in> set rs"
  shows "\<exists>c. Validate (validationParser parse) c = Inr (hp_Config parts)"
  using hubStarts_each [OF assms] by (auto elim: hubMain_Inr)

subsection \<open>A hub as an agent's peer\<close>

definition hubReply :: "Config \<Rightarrow> string \<Rightarrow> RegisterRequest \<Rightarrow> RegisterResponse option" where
  "hubReply cfg hubVersion r =
     (case snd (serverRegister (resolveToken cfg) hubVersion True (Some r) True) of
        [] \<Rightarrow> None | a # _ \<Rightarrow> Some a)"

text \<open>The network works, and the peer has a certificate of the hub and answers as the hub does.\<close>

definition hubPeer :: "string \<Rightarrow> hubParts \<Rightarrow> peer \<Rightarrow> bool" where
  "hubPeer hubVersion parts p \<longleftrightarrow>
     pe_Dial p \<and> pe_Session p \<and> pe_Opened p \<and> pe_Written p \<and>
     (\<exists>cert\<in>set (cc_Certificates (hp_TLS parts)). pe_Chain p = tc_Certificate cert) \<and>
     pe_Reply p = hubReply (hp_Config parts) hubVersion"

lemma hub_registers:
  assumes "Validate parseKey c = Inr (hp_Config parts)" "hubPeer hubVersion parts p" "handshakeOK conf p"
    and "bk \<in> set (cfg_Backends (hp_Config parts))" "be_Token bk = token" "token \<noteq> []"
  shows "fst (ConnectWithHostKey conf p backend token hostKey version goos arch) = Inr (be_ID bk)"
proof -
  let ?cfg = "hp_Config parts"
  have bk: "BackendByToken ?cfg token = Some bk" "be_ID bk \<noteq> []"
    using assms(4-6) ValidateD(2) [OF assms(1)] by_token.lookup_iff
    by (auto simp: hasToken_def validBackends_def validBackend_def list_all_iff)
  with assms(2,3,6) registration_agrees [of "resolveToken ?cfg" hubVersion backend token] show ?thesis
    by (simp add: ConnectWithHostKey_def hubPeer_def hubReply_def [abs_def] resolveToken_def Let_def)
qed

text \<open>The pin of the certificate file on the disk is one that every hub over this disk satisfies.\<close>

lemma pin_on_disk:
  assumes "controlPlanePin lib (Inr cfg) fs1 = Pin pin" "cfg_TLSCert cfg = [] \<longleftrightarrow> cfg_TLSKey cfg = []"
    and "\<And>p f. fs1 p = Some f \<Longrightarrow> fs2 p = Some f"
    and "servesFiles lib fs2 parts" "tlsPaths (hp_Config parts) = tlsPaths cfg"
    and pair: "\<And>c k pr der. tl_X509KeyPair lib c k = Some pr \<Longrightarrow>
      tl_Decode lib c = Some (''CERTIFICATE'', der) \<Longrightarrow> \<exists>rest. tc_Certificate pr = der # rest"
    and size: "\<And>x. length (tl_Sum256 lib x) = 32"
  shows "\<exists>conf verify. ClientConfig lib serverName pin = Inr conf \<and>
    cc_VerifyPeerCertificate conf = Some verify \<and> cc_InsecureSkipVerify conf \<and>
    list_all (\<lambda>c. verify (tc_Certificate c) = Inr ()) (cc_Certificates (hp_TLS parts))"
proof -
  from assms(1) obtain c where c: "fs1 (fst (tlsPaths cfg)) = Some c"
    "FingerprintFromPEM lib (fl_Content c) = Inr pin"
    unfolding controlPlanePin_Pin shown_path [OF assms(2)] by blast
  from assms(4) obtain c' key cert where served: "fs2 (fst (tlsPaths cfg)) = Some c'"
    "tl_X509KeyPair lib (fl_Content c') key = Some cert" "hp_TLS parts = tlsServerConfig cert"
    unfolding servesFiles_def assms(5) by blast
  with assms(3) [OF c(1)] have "tl_X509KeyPair lib (fl_Content c) key = Some cert" by simp
  from pin_of_pair [OF this c(2) pair size] served(3) show ?thesis by simp
qed

lemma agentMain_config:
  assumes "agentMain lib f st content = Inr s" "\<not> af_Insecure f"
  shows "\<exists>serverName. ClientConfig lib serverName (af_Pin f) = Inr (as_TLS s)"
  using assms(1)
proof (cases rule: agentMain_Inr)
  case (1 bytes)
  with assms(2) show ?thesis by blast
qed

subsection \<open>A second start\<close>

definition exampleStarts :: "hubStart list" where
  "exampleStarts = [\<lparr>hs_Env = exampleStart, hs_Hostname = None, hs_Config = Some [],
     hs_ReadFile = (\<lambda>_. Some ''pem'')\<rparr>]"

definition exampleRestarts :: "hubStart list" where
  "exampleRestarts = map (\<lambda>h. h\<lparr>hs_Env := exampleStart\<lparr>te_Key := Some ''other''\<rparr>\<rparr>) exampleStarts"

lemma example_starts:
  "hubStarts exampleTLS exampleKeys (\<lambda>_. Some exampleConfig) (\<lambda>_. True) exampleStarts Map.empty =
   ([Inr exampleParts], exampleFiles)"
  by (simp add: exampleStarts_def example_hubMain)

lemma example_restarts:
  "hubStarts exampleTLS exampleKeys (\<lambda>_. Some exampleConfig) (\<lambda>_. True) exampleRestarts exampleFiles =
   ([Inr exampleParts], exampleFiles)"
proof -
  have "LoadOrCreate exampleTLS exampleStart DefaultTLSCertPath DefaultTLSKeyPath [] Map.empty =
      (Inr examplePair, exampleFiles)"
    by (simp add: DefaultTLSCertPath_def
      DefaultTLSKeyPath_def LoadOrCreate_def exampleTLS_def exampleStart_def generateSelfSigned_def
      Let_def subjectAltNames_def WriteFile_def examplePair_def exampleFiles_def split: prod.splits)
  from LoadOrCreate_again [OF this] have "controlTLS exampleTLS (exampleStart\<lparr>te_Key := Some ''other''\<rparr>) None
      exampleValid exampleFiles = (Inr (tlsServerConfig examplePair), exampleFiles)"
    by (simp add: controlTLS_def tlsPaths_def tlsHosts_def exampleConfig_def DefaultTLSCertPath_def
        DefaultTLSKeyPath_def)
  moreover have "ResolvedAutoUpdateWait exampleValid = 48 * hour" by code_simp
  ultimately have "hubMain exampleTLS (exampleStart\<lparr>te_Key := Some ''other''\<rparr>) None exampleKeys
      (\<lambda>_. Some exampleConfig) (Some []) (\<lambda>_. Some ''pem'') (\<lambda>_. True) exampleFiles = (Inr exampleParts, exampleFiles)"
    using exampleConfig_valid exampleServer_New
    by (simp add: hubMain_def Load_def exampleKeys_parser Let_def exampleParts_def updateModeOf_def
        AutoUpdateDisabled_def)
  then show ?thesis by (simp add: exampleRestarts_def exampleStarts_def)
qed

subsection \<open>Properties\<close>

text \<open>C4: nobody has to touch an agent when its hub restarts. Take an agent set up with the pin that
  \<open>sshhub-ctl\<close> showed after some starts of a hub, where certificate and key are both configured or
  both left to the default, in two files. However often the hub is started afterwards, with whatever
  success, clock, random numbers and configuration of this key pair: in every turn in which an
  agent that nothing cancels meets a hub of any of these starts, it verifies the hub and registers as the
  backend that has its token there, between what it registers in the turns before and after.\<close>

theorem agent_survives_restarts:
  assumes before: "hubStarts lib parse decode privateKeyOk sts fs = (rs, fs1)"
    and shown: "controlPlanePin lib (Inr cfg) fs1 = Pin (af_Pin f)"
      "cfg_TLSCert cfg = [] \<longleftrightarrow> cfg_TLSKey cfg = []" "fst (tlsPaths cfg) \<noteq> snd (tlsPaths cfg)"
    and after: "hubStarts lib parse decode privateKeyOk sts' fs1 = (rs', fs2)"
    and hub: "Inr parts \<in> set (rs @ rs')" "tlsPaths (hp_Config parts) = tlsPaths cfg"
    and pair: "\<And>c k pr der. tl_X509KeyPair lib c k = Some pr \<Longrightarrow>
      tl_Decode lib c = Some (''CERTIFICATE'', der) \<Longrightarrow> \<exists>rest. tc_Certificate pr = der # rest"
    and size: "\<And>x. length (tl_Sum256 lib x) = 32"
    and agent: "agentMain lib f st content = Inr s" "\<not> af_Insecure f"
    and token: "bk \<in> set (cfg_Backends (hp_Config parts))" "be_Token bk = as_Token s"
    and life: "list_all (\<lambda>t. \<not> at_Done t \<and> \<not> at_DoneAfter t \<and> sleepCtx (at_Sleep t) \<and>
      snd (agentServe (as_Sshd s) (at_Session t)) = Some AcceptStreamError) (ts1 @ t # ts2)"
    and turn: "hubPeer hubVersion parts (at_Peer t)"
  shows "handshakeOK (Some (as_TLS s)) (at_Peer t) \<and>
    registrations (shown (fst (agentLife s version goos arch (ts1 @ t # ts2)))) =
      registrations (shown (fst (agentLife s version goos arch ts1))) @
      be_ID bk # registrations (shown (fst (agentLife s version goos arch ts2)))"
proof -
  have keep: "fs2 p = Some x" if "fs1 p = Some x" for p x using hubStarts_keep [OF after that] .
  have "servesFiles lib fs2 parts"
    using hub hubStarts_serve [OF before] hubStarts_serve [OF after] shown(3) keep
      servesFiles_mono [of lib fs1 parts fs2] by auto
  from pin_on_disk [OF shown(1,2) _ this hub(2)] keep pair size
  have "\<exists>conf verify. ClientConfig lib serverName (af_Pin f) = Inr conf \<and>
      cc_VerifyPeerCertificate conf = Some verify \<and> cc_InsecureSkipVerify conf \<and>
      list_all (\<lambda>c. verify (tc_Certificate c) = Inr ()) (cc_Certificates (hp_TLS parts))" for serverName
    by blast
  moreover obtain serverName where "ClientConfig lib serverName (af_Pin f) = Inr (as_TLS s)"
    using agentMain_config [OF agent] by blast
  ultimately obtain verify where verify: "cc_VerifyPeerCertificate (as_TLS s) = Some verify"
    "cc_InsecureSkipVerify (as_TLS s)"
    "list_all (\<lambda>c. verify (tc_Certificate c) = Inr ()) (cc_Certificates (hp_TLS parts))"
    by (metis sum.inject(2))
  with turn have handshake: "handshakeOK (Some (as_TLS s)) (at_Peer t)"
    by (auto simp: handshakeOK_def hubPeer_def list_all_iff)
  moreover obtain c where "Validate (validationParser parse) c = Inr (hp_Config parts)"
    using hub(1) hubStarts_valid [OF before] hubStarts_valid [OF after] by auto
  moreover have "as_Token s \<noteq> []" using agent(1) by (cases rule: agentMain_Inr)
  ultimately have "fst (ConnectWithHostKey (Some (as_TLS s)) (at_Peer t) (as_Backend s) (as_Token s)
      [] version goos arch) = Inr (be_ID bk)"
    using hub_registers turn token by metis
  with handshake life life_registrations [of s, where version = version and goos = goos and arch = arch]
  show ?thesis by simp
qed

theorem agent_survives_restarts_witness:
  "\<exists>s :: agentStart. agentMain exampleTLS exampleFlags (Some exampleFile) (Some ''t1'') = Inr s \<and>
     registrations (shown (fst (agentLife s Version ''linux'' ''amd64''
       [upAndDown\<lparr>at_Peer := examplePeer\<rparr>, upAndDown\<lparr>at_Peer :=
          examplePeer\<lparr>pe_Reply := hubReply exampleValid Version\<rparr>\<rparr>]))) = [''web1'']"
proof -
  obtain s :: agentStart where s: "agentMain exampleTLS exampleFlags (Some exampleFile) (Some ''t1'') = Inr s"
    "as_Token s = ''t1''" "as_Sshd s = ''127.0.0.1:22''"
    using example_live by blast
  let ?down = "upAndDown\<lparr>at_Peer := examplePeer\<rparr>"
  let ?up = "upAndDown\<lparr>at_Peer := examplePeer\<lparr>pe_Reply := hubReply exampleValid Version\<rparr>\<rparr>"
  have served: "snd (agentServe ''127.0.0.1:22'' [StreamArrives, SessionEnds False]) = Some AcceptStreamError"
    by code_simp
  have "handshakeOK (Some (as_TLS s)) (at_Peer ?up) \<and>
      registrations (shown (fst (agentLife s Version ''linux'' ''amd64'' ([?down] @ ?up # [])))) =
      registrations (shown (fst (agentLife s Version ''linux'' ''amd64'' [?down]))) @
      be_ID (hd (cfg_Backends exampleConfig)) # registrations (shown (fst (agentLife s Version ''linux'' ''amd64'' [])))"
  proof (rule agent_survives_restarts [OF example_starts _ _ _ example_restarts _ _ _ _ s(1),
        where cfg = exampleValid and parts = exampleParts and hubVersion = Version])
    show "controlPlanePin exampleTLS (Inr exampleValid) exampleFiles = Pin (af_Pin exampleFlags)"
      by (simp add: controlPlanePin_Pin exampleConfig_def exampleFiles_def
          FingerprintFromPEM_def exampleTLS_def Fingerprint_def pinPrefix_def examplePin_def exampleFlags_def)
  qed (auto simp: exampleParts_def exampleConfig_def exampleFlags_def examplePeer_def s(2,3) tlsPaths_def
      DefaultTLSCertPath_def DefaultTLSKeyPath_def exampleTLS_def tlsServerConfig_def examplePair_def
      upAndDown_def served hubPeer_def split: list.splits if_splits)
  moreover have "registrations (shown (fst (agentLife s Version ''linux'' ''amd64'' [?down]))) = []"
    using life_registrations [of s "[?down]" Version "''linux''" "''amd64''"] refusing_connects s(3) served
    by (simp add: upAndDown_def)
  moreover have "registrations (shown (fst (agentLife s Version ''linux'' ''amd64'' []))) = []"
    using life_registrations [of s "[]" Version "''linux''" "''amd64''"] by simp
  ultimately show ?thesis using s(1) by (auto simp: exampleConfig_def)
qed

end
