(* ===== verification/Network.thy ===== *)
theory Network
  imports Restart
begin

text \<open>
  Agents, the hub and everybody else on one network: the control listener of
  \<open>internal/control/server.go\<close> with the agents of \<open>cmd/sshhub-agent/main.go\<close>, whose addresses may
  lead them to anybody, and with strangers who send the hub whatever they can make up. A stranger
  knows some tokens from the start, and those that agents hand it.
\<close>

subsection \<open>The network\<close>

text \<open>\<open>nw_From\<close>: the agent that made the registration of a session, if one did.\<close>

record network =
  nw_Hub :: Hub
  nw_Known :: "string set"
  nw_From :: "session \<Rightarrow> agentStart option"

definition startNetwork :: "string set \<Rightarrow> network" where
  "startNetwork leaked = \<lparr>nw_Hub = startHub, nw_Known = leaked, nw_From = (\<lambda>s. None)\<rparr>"

definition resolved :: "network \<Rightarrow> session \<Rightarrow> string \<Rightarrow> RegisterRequest \<Rightarrow> agentStart option \<Rightarrow> network" where
  "resolved w s b req from =
     w\<lparr>nw_Hub := (nw_Hub w)\<lparr>hub_handlers := (hub_handlers (nw_Hub w))(s \<mapsto> Resolved b req)\<rparr>,
       nw_From := (nw_From w)(s := from)\<rparr>"

text \<open>
  \<open>isHub\<close> says which peers are this hub. A registration that the hub accepts was sent by an agent
  in some turn of its life, or by a stranger with a token it knows; an agent that deals with a peer
  which is not the hub gives that peer its token; and all the rest is the hub's own.
\<close>

inductive netStep ::
  "Config \<Rightarrow> string \<Rightarrow> (peer \<Rightarrow> bool) \<Rightarrow> agentStart set \<Rightarrow> network \<Rightarrow> network \<Rightarrow> bool"
  for cfg hubVersion isHub agents where
  HubMoves:
    "hubStep cfg hubVersion (nw_Hub w) h \<Longrightarrow>
     (\<And>s b req. hub_handlers h s = Some (Resolved b req) \<Longrightarrow>
        hub_handlers (nw_Hub w) s = Some (Resolved b req)) \<Longrightarrow>
     netStep cfg hubVersion isHub agents w (w\<lparr>nw_Hub := h\<rparr>)"
| AgentRegisters:
    "a \<in> agents \<Longrightarrow> SendsTo p req \<in> set (fst (agentLife a version goos arch ts)) \<Longrightarrow> isHub p \<Longrightarrow>
     hub_handlers (nw_Hub w) s = Some Registering \<Longrightarrow>
     serverRegister (resolveToken cfg) hubVersion True (Some req) written = (Inr (b, req'), answers) \<Longrightarrow>
     netStep cfg hubVersion isHub agents w (resolved w s b req' (Some a))"
| StrangerRegisters:
    "rq_Token req \<in> nw_Known w \<Longrightarrow> hub_handlers (nw_Hub w) s = Some Registering \<Longrightarrow>
     serverRegister (resolveToken cfg) hubVersion True (Some req) written = (Inr (b, req'), answers) \<Longrightarrow>
     netStep cfg hubVersion isHub agents w (resolved w s b req' None)"
| AgentMisled:
    "a \<in> agents \<Longrightarrow> SendsTo p req \<in> set (fst (agentLife a version goos arch ts)) \<Longrightarrow> \<not> isHub p \<Longrightarrow>
     netStep cfg hubVersion isHub agents w (w\<lparr>nw_Known := insert (rq_Token req) (nw_Known w)\<rparr>)"

inductive netReach ::
  "Config \<Rightarrow> string \<Rightarrow> (peer \<Rightarrow> bool) \<Rightarrow> agentStart set \<Rightarrow> string set \<Rightarrow> network \<Rightarrow> bool"
  for cfg hubVersion isHub agents leaked where
  NetStart: "netReach cfg hubVersion isHub agents leaked (startNetwork leaked)"
| NetStep: "netReach cfg hubVersion isHub agents leaked w \<Longrightarrow> netStep cfg hubVersion isHub agents w w' \<Longrightarrow>
    netReach cfg hubVersion isHub agents leaked w'"

text \<open>The hub in it is a hub.\<close>

lemma netStep_hub:
  "netStep cfg hubVersion isHub agents w w' \<Longrightarrow>
   nw_Hub w' = nw_Hub w \<or> hubStep cfg hubVersion (nw_Hub w) (nw_Hub w')"
proof (induction rule: netStep.induct)
  case (AgentRegisters a p req version goos arch ts w s written b req' answers)
  then show ?case using RegisterSucceeds by (simp add: resolved_def)
next
  case (StrangerRegisters req w s written b req' answers)
  then show ?case using RegisterSucceeds by (simp add: resolved_def)
qed simp_all

lemma netReach_hub: "netReach cfg hubVersion isHub agents leaked w \<Longrightarrow> hubReach cfg hubVersion (nw_Hub w)"
proof (induction rule: netReach.induct)
  case NetStart
  show ?case by (simp add: startNetwork_def hubReach.Start)
next
  case (NetStep w w')
  from netStep_hub [OF NetStep(2)] NetStep(3) show ?case by (auto intro: hubReach.Step)
qed

subsection \<open>What an agent gives away\<close>

text \<open>
  An agent set up with a pin that only the hub's certificate has: by TLS, a peer that completes the
  handshake with a certificate holds its key.
\<close>

definition pinnedTo :: "tlsLib \<Rightarrow> (peer \<Rightarrow> bool) \<Rightarrow> agentStart \<Rightarrow> bool" where
  "pinnedTo lib isHub a \<longleftrightarrow>
     (\<exists>f st content. agentMain lib f st content = Inr a \<and> \<not> af_Insecure f \<and>
        (\<forall>p. holdsPin lib (af_Pin f) p \<longrightarrow> isHub p))"

lemma pinnedTo_acts:
  assumes "pinnedTo lib isHub a" "act \<in> set (fst (agentLife a version goos arch ts))"
  shows "case act of SendsTo p req \<Rightarrow> isHub p
    | ServesTo p b \<Rightarrow> isHub p \<and> (b = CloseStream \<or> b = DialSshd (as_Sshd a) \<and> literalLoopback (as_Sshd a))
    | Shows e \<Rightarrow> True"
proof -
  from assms(1) obtain f st content where f: "agentMain lib f st content = Inr a" "\<not> af_Insecure f"
    "\<And>p. holdsPin lib (af_Pin f) p \<Longrightarrow> isHub p" unfolding pinnedTo_def by blast
  from f(1) have "as_Sshd a = af_Sshd f" by (cases rule: agentMain_Inr)
  with life_safe [OF f(1,2) assms(2)] f(3) show ?thesis by (cases act) auto
qed

lemma life_sends_token:
  assumes "SendsTo p req \<in> set (fst (agentLife a version goos arch ts))"
  shows "rq_Token req = as_Token a"
  using life_acts [OF assms [unfolded agentLife_loop]] sent_token by (auto simp: turnActs_SendsTo)

subsection \<open>Tokens that stay secret\<close>

text \<open>A token is safe if no stranger has it at first and every agent that has it is pinned to the hub.\<close>

definition safeToken :: "tlsLib \<Rightarrow> (peer \<Rightarrow> bool) \<Rightarrow> agentStart set \<Rightarrow> string set \<Rightarrow> string \<Rightarrow> bool" where
  "safeToken lib isHub agents leaked t \<longleftrightarrow>
     t \<notin> leaked \<and> (\<forall>a\<in>agents. as_Token a = t \<longrightarrow> pinnedTo lib isHub a)"

definition netInv ::
  "tlsLib \<Rightarrow> (peer \<Rightarrow> bool) \<Rightarrow> agentStart set \<Rightarrow> string set \<Rightarrow> network \<Rightarrow> bool" where
  "netInv lib isHub agents leaked w \<longleftrightarrow>
     (\<forall>t. safeToken lib isHub agents leaked t \<longrightarrow> t \<notin> nw_Known w) \<and>
     (\<forall>s b req. hub_handlers (nw_Hub w) s \<in> {Some (Resolved b req), Some (Connected b req)} \<longrightarrow>
        safeToken lib isHub agents leaked (rq_Token req) \<longrightarrow>
        (\<exists>a\<in>agents. nw_From w s = Some a \<and> as_Token a = rq_Token req))"

text \<open>A handler is connected with what it was resolved to.\<close>

lemma hubStep_Connected:
  assumes "hubStep cfg hubVersion h h'" "hub_handlers h' s = Some (Connected b req)"
  shows "hub_handlers h s \<in> {Some (Resolved b req), Some (Connected b req)}"
  using assms by (cases rule: hubStep.cases) (auto simp: endHandler_def split: if_splits)

lemma netInv_step:
  assumes "netStep cfg hubVersion isHub agents w w'" "netInv lib isHub agents leaked w"
  shows "netInv lib isHub agents leaked w'"
  using assms
proof (induction rule: netStep.induct)
  case (HubMoves w h)
  have "hub_handlers (nw_Hub w) s \<in> {Some (Resolved b req), Some (Connected b req)}"
    if "hub_handlers h s \<in> {Some (Resolved b req), Some (Connected b req)}" for s b req
    using that HubMoves(2) hubStep_Connected [OF HubMoves(1)] by blast
  with HubMoves(3) show ?case by (simp add: netInv_def) blast
next
  case (AgentRegisters a p req version goos arch ts w s written b req' answers)
  then have "as_Token a = rq_Token req'"
    using life_sends_token serverRegister_Inr by (metis option.inject)
  with AgentRegisters show ?case by (auto simp: netInv_def resolved_def)
next
  case (StrangerRegisters req w s written b req' answers)
  then have "rq_Token req' \<in> nw_Known w"
    using serverRegister_Inr by (metis option.inject)
  with StrangerRegisters show ?case by (auto simp: netInv_def resolved_def)
next
  case (AgentMisled a p req version goos arch ts w)
  have "\<not> safeToken lib isHub agents leaked (rq_Token req)"
    using AgentMisled(1,3) pinnedTo_acts [OF _ AgentMisled(2)] life_sends_token [OF AgentMisled(2)]
    by (auto simp: safeToken_def)
  with AgentMisled(4) show ?case by (auto simp: netInv_def)
qed

lemma netInv_reach: "netReach cfg hubVersion isHub agents leaked w \<Longrightarrow> netInv lib isHub agents leaked w"
proof (induction rule: netReach.induct)
  case NetStart
  show ?case by (simp add: netInv_def startNetwork_def startHub_def safeToken_def)
qed (rule netInv_step)

lemma registry_agent:
  assumes "Validate parseKey c0 = Inr cfg" "netReach cfg hubVersion isHub agents leaked w"
    and "bk \<in> set (cfg_Backends cfg)" "safeToken lib isHub agents leaked (be_Token bk)"
    and "hub_registry (nw_Hub w) (be_ID bk) = Some c"
  shows "\<exists>a\<in>agents. nw_From w (cn_session c) = Some a \<and> as_Token a = be_Token bk"
proof -
  from hubInv_registered [OF hubInv_reach [OF netReach_hub [OF assms(2)]] assms(5)] obtain req where
    req: "hub_handlers (nw_Hub w) (cn_session c) = Some (Connected (be_ID bk) req)"
      "authenticated cfg (be_ID bk) req" by blast
  with resolveToken_valid [OF assms(1)] obtain bk' where bk': "bk' \<in> set (cfg_Backends cfg)"
    "be_ID bk' = be_ID bk" "be_Token bk' = rq_Token req" unfolding authenticated_def by metis
  then have "bk' = bk"
    using assms(3) by_id.lookup_iff ValidateD(2) [OF assms(1)] by (metis option.inject)
  with bk'(3) assms(4) req(1) netInv_reach [OF assms(2), of lib] show ?thesis
    by (auto simp: netInv_def)
qed

subsection \<open>A network with one agent\<close>

definition exampleIsHub :: "peer \<Rightarrow> bool" where
  "exampleIsHub p = holdsPin exampleTLS examplePin p"

lemma example_pinned:
  "\<exists>a :: agentStart. pinnedTo exampleTLS exampleIsHub a \<and> as_Token a = ''t1'' \<and>
     SendsTo livePeer (WriteRegister (clientRequest (as_Backend a) (as_Token a) [] Version ''linux'' ''amd64'')) \<in>
       set (fst (agentLife a Version ''linux'' ''amd64'' [upAndDown])) \<and> exampleIsHub livePeer"
proof -
  obtain s :: agentStart where s: "agentMain exampleTLS exampleFlags (Some exampleFile) (Some ''t1'') = Inr s"
    "as_Token s = ''t1''" "handshakeOK (Some (as_TLS s)) livePeer" "as_Sshd s = ''127.0.0.1:22''"
    using example_live by blast
  have "pinnedTo exampleTLS exampleIsHub s"
    unfolding pinnedTo_def
    by (intro exI conjI, rule s(1)) (simp_all add: exampleFlags_def exampleIsHub_def)
  moreover have "exampleIsHub livePeer"
    using agentMain_pinned [OF s(1) _ s(3)] by (simp add: exampleFlags_def exampleIsHub_def)
  ultimately show ?thesis using s live_sends [OF s(3,4)] by blast
qed

text \<open>The agent registers with the hub, while a stranger has found another token.\<close>

lemma example_network:
  assumes "a \<in> agents" "as_Token a = ''t1''" "exampleIsHub livePeer"
    and sends: "SendsTo livePeer (WriteRegister (clientRequest (as_Backend a) (as_Token a) [] Version ''linux'' ''amd64'')) \<in>
       set (fst (agentLife a Version ''linux'' ''amd64'' [upAndDown]))"
  shows "\<exists>w c. netReach exampleValid Version exampleIsHub agents {''lost''} w \<and>
    hub_registry (nw_Hub w) ''web1'' = Some c"
proof -
  let ?req = "WriteRegister (clientRequest (as_Backend a) (as_Token a) [] Version ''linux'' ''amd64'')"
  define h0 :: Hub where "h0 = startHub\<lparr>hub_handlers := [0 \<mapsto> Registering], hub_slots := 1, hub_next := 1\<rparr>"
  define w1 where "w1 = (startNetwork {''lost''})\<lparr>nw_Hub := h0\<rparr>"
  define w2 where "w2 = resolved w1 0 ''web1'' ?req (Some a)"
  have "hubStep exampleValid Version startHub h0"
    using Accept [of startHub exampleValid Version] by (simp add: h0_def startHub_def handlerSlots_def)
  then have 1: "netReach exampleValid Version exampleIsHub agents {''lost''} w1"
    unfolding w1_def
    by (intro NetStep [OF NetStart] HubMoves)
      (auto simp: startNetwork_def h0_def startHub_def split: if_splits)
  have "resolveToken exampleValid ''t1'' (as_Backend a) = Some ''web1''"
  proof -
    have "BackendByToken exampleValid ''t1'' = Some (hd (cfg_Backends exampleConfig))" by code_simp
    then show ?thesis by (simp add: resolveToken_def exampleConfig_def)
  qed
  with assms(2) have "\<exists>answers. serverRegister (resolveToken exampleValid) Version True (Some ?req) True =
      (Inr (''web1'', ?req), answers)"
    by (simp add: serverRegister_def WriteRegister_def clientRequest_def Let_def)
  then obtain answers where "serverRegister (resolveToken exampleValid) Version True (Some ?req) True =
      (Inr (''web1'', ?req), answers)" by blast
  moreover have "hub_handlers (nw_Hub w1) 0 = Some Registering" by (simp add: w1_def h0_def)
  ultimately have 2: "netReach exampleValid Version exampleIsHub agents {''lost''} w2"
    unfolding w2_def
    by (intro NetStep [OF 1] AgentRegisters [where isHub = exampleIsHub and p = livePeer, OF assms(1) sends assms(3)])
  have "hub_handlers (nw_Hub w2) 0 = Some (Resolved ''web1'' ?req)" "hub_registry (nw_Hub w2) = Map.empty"
    by (simp_all add: w2_def resolved_def w1_def h0_def startHub_def NewRegistry_def)
  then obtain r h' where r: "hubStep exampleValid Version (nw_Hub w2) h'" "hub_registry h' = r"
    "r ''web1'' \<noteq> None" "hub_handlers h' = (hub_handlers (nw_Hub w2))(0 \<mapsto> Connected ''web1'' ?req)"
    using Enter [of "nw_Hub w2" 0 "''web1''" ?req] by (fastforce simp: registerConn_def)
  then have "netReach exampleValid Version exampleIsHub agents {''lost''} (w2\<lparr>nw_Hub := h'\<rparr>)"
    by (intro NetStep [OF 2] HubMoves) (auto split: if_splits)
  with r(2,3) show ?thesis by fastforce
qed

subsection \<open>Properties\<close>

text \<open>C2: a tunnel ends at the machine that holds the token. Whatever agents and strangers do on the
  network, and however many other tokens are leaked or given away by agents that are not pinned,
  a tunnel to a backend whose token is safe (no stranger had it at first, and the agents that have
  it are pinned to this hub) goes to a session that an agent with this token opened, and what
  this agent ever dials for a stream is the loopback SSH server of its own machine, and only for
  this hub.\<close>

theorem tunnel_ends_at_token_holder:
  assumes "Validate parseKey c0 = Inr cfg" "netReach cfg hubVersion isHub agents leaked w"
    and "bk \<in> set (cfg_Backends cfg)" "safeToken lib isHub agents leaked (be_Token bk)"
    and "forward cfg (hub_registry (nw_Hub w)) openStream channelAccepted user payload = Bridged (be_ID bk) s"
  shows "\<exists>a\<in>agents. nw_From w s = Some a \<and> as_Token a = be_Token bk \<and>
    (\<forall>version goos arch ts p x. ServesTo p (DialSshd x) \<in> set (fst (agentLife a version goos arch ts)) \<longrightarrow>
       isHub p \<and> x = as_Sshd a \<and> literalLoopback x)"
proof -
  from assms(5) obtain c where c: "hub_registry (nw_Hub w) (be_ID bk) = Some c" "s = cn_session c"
    unfolding forward_iff by blast
  from registry_agent [OF assms(1-4) c(1)] obtain a where
    a: "a \<in> agents" "nw_From w s = Some a" "as_Token a = be_Token bk" using c(2) by blast
  with assms(4) have "pinnedTo lib isHub a" by (simp add: safeToken_def)
  from pinnedTo_acts [OF this] a show ?thesis by fastforce
qed

theorem tunnel_ends_at_token_holder_witness:
  "\<exists>(a :: agentStart) (w :: network) s. nw_From w s = Some a \<and> as_Token a = ''t1'' \<and>
     forward exampleValid (hub_registry (nw_Hub w)) (\<lambda>_. True) True (sc_User exampleConn)
       (Some examplePayload) = Bridged ''web1'' s"
proof -
  obtain a :: agentStart where a: "pinnedTo exampleTLS exampleIsHub a" "as_Token a = ''t1''"
    "exampleIsHub livePeer" and sends:
    "SendsTo livePeer (WriteRegister (clientRequest (as_Backend a) (as_Token a) [] Version ''linux'' ''amd64'')) \<in>
       set (fst (agentLife a Version ''linux'' ''amd64'' [upAndDown]))"
    using example_pinned by blast
  obtain w c where w: "netReach exampleValid Version exampleIsHub {a} {''lost''} w"
    "hub_registry (nw_Hub w) ''web1'' = Some c"
    using example_network [OF _ a(2,3) sends, of "{a}"] by blast
  let ?bk = "hd (cfg_Backends exampleConfig)"
  have bk: "?bk \<in> set (cfg_Backends exampleValid)" "be_ID ?bk = ''web1''" "be_Token ?bk = ''t1''"
    by (simp_all add: exampleConfig_def)
  then have "safeToken exampleTLS exampleIsHub {a} {''lost''} (be_Token ?bk)"
    using a(1) by (simp add: safeToken_def)
  from tunnel_ends_at_token_holder [OF exampleConfig_valid w(1) bk(1) this] examplePayload_forwarded [OF w(2)]
  have "nw_From w (cn_session c) = Some a" by (auto simp: bk(2))
  with a(2) examplePayload_forwarded [OF w(2)] show ?thesis by blast
qed

end
