(* ===== verification/Config_File.thy ===== *)
theory Config_File
  imports Config_Validate
begin

text \<open>
  The configuration file as \<open>internal/config/config.go\<close> reads and writes it: the YAML hooks of
  \<open>auto_update_wait\<close>, and the struct \<open>Config\<close> with all hooks applied. The decoder and the encoder
  (\<open>gopkg.in/yaml.v3\<close>) are parameters between a file's bytes and the record \<open>fileConfig\<close>, which holds
  what they pass to the hooks or take from them. A null value leaves a pointer nil without calling
  its hook, as a missing field does.
\<close>

subsection \<open>The waiting time\<close>

datatype nodeKind = DocumentNode | SequenceNode | MappingNode | ScalarNode | AliasNode

record yamlNode =
  node_Kind :: nodeKind
  node_Value :: string

datatype decodeError = WaitNotScalar

definition UnmarshalWait :: "yamlNode \<Rightarrow> decodeError + string" where
  "UnmarshalWait node =
     bindE (refuse (node_Kind node \<noteq> ScalarNode) WaitNotScalar) (\<lambda>_. Inr (node_Value node))"

text \<open>\<open>MarshalYAML\<close> returns the raw text, which the encoder writes as a scalar with that value.\<close>

definition MarshalWait :: "string \<Rightarrow> yamlNode" where
  "MarshalWait raw = \<lparr>node_Kind = ScalarNode, node_Value = raw\<rparr>"

subsection \<open>The file\<close>

record fileConfig =
  fc_Listen :: Listen
  fc_PublicHost :: string
  fc_AutoUpdateWait :: "yamlNode option"
  fc_HostKey :: string
  fc_TLSCert :: string
  fc_TLSKey :: string
  fc_ControlTokens :: "string list"
  fc_Backends :: "Backend list"
  fc_Routes :: "rawRoute list"
  fc_JumpUsers :: "JumpUser list"

text \<open>A raw route that decoded, through the hook.\<close>

abbreviation decodeRoute :: "rawRoute \<Rightarrow> decodeError + Route" where
  "decodeRoute raw \<equiv> UnmarshalYAML (Inr raw)"

definition decodeRoutes :: "rawRoute list \<Rightarrow> decodeError + Route list" where
  "decodeRoutes raws =
     foldE (\<lambda>rs raw. bindE (decodeRoute raw) (\<lambda>r. Inr (rs @ [r]))) [] raws"

definition decodeConfig :: "fileConfig \<Rightarrow> decodeError + Config" where
  "decodeConfig fc =
     bindE (case fc_AutoUpdateWait fc of
              None \<Rightarrow> Inr None
            | Some node \<Rightarrow> bindE (UnmarshalWait node) (\<lambda>raw. Inr (Some raw))) (\<lambda>wait.
     bindE (decodeRoutes (fc_Routes fc)) (\<lambda>routes.
     Inr \<lparr>cfg_Listen = fc_Listen fc, cfg_PublicHost = fc_PublicHost fc, cfg_AutoUpdateWait = wait,
          cfg_HostKey = fc_HostKey fc, cfg_TLSCert = fc_TLSCert fc, cfg_TLSKey = fc_TLSKey fc,
          cfg_ControlTokens = fc_ControlTokens fc, cfg_Backends = fc_Backends fc,
          cfg_Routes = routes, cfg_JumpUsers = fc_JumpUsers fc\<rparr>))"

text \<open>What the encoder is given, as the decoder delivers it again.\<close>

definition encodeConfig :: "Config \<Rightarrow> fileConfig" where
  "encodeConfig c =
     \<lparr>fc_Listen = cfg_Listen c, fc_PublicHost = cfg_PublicHost c,
      fc_AutoUpdateWait = map_option MarshalWait (cfg_AutoUpdateWait c),
      fc_HostKey = cfg_HostKey c, fc_TLSCert = cfg_TLSCert c, fc_TLSKey = cfg_TLSKey c,
      fc_ControlTokens = cfg_ControlTokens c, fc_Backends = cfg_Backends c,
      fc_Routes = map (\<lambda>r. rawOfFlat (MarshalYAML r)) (cfg_Routes c), fc_JumpUsers = cfg_JumpUsers c\<rparr>"

text \<open>\<open>yaml.Unmarshal\<close> and \<open>yaml.Marshal\<close> of a \<open>Config\<close>, from the decoder and the encoder.\<close>

definition yamlUnmarshal :: "(string \<Rightarrow> fileConfig option) \<Rightarrow> string \<Rightarrow> Config option" where
  "yamlUnmarshal decoder bytes =
     (case decoder bytes of
        None \<Rightarrow> None
      | Some fc \<Rightarrow> (case decodeConfig fc of Inl err \<Rightarrow> None | Inr c \<Rightarrow> Some c))"

definition yamlMarshal :: "(fileConfig \<Rightarrow> string option) \<Rightarrow> Config \<Rightarrow> string option" where
  "yamlMarshal encoder c = encoder (encodeConfig c)"

subsection \<open>Reading back what was written\<close>

text \<open>The route that a reload makes of a decoded one.\<close>

definition flattened :: "Route \<Rightarrow> Route" where
  "flattened r = r\<lparr>route_Match :=
     \<lparr>match_Username = route_Username r, match_Hostname = route_Hostname r\<rparr>\<rparr>"

definition reloaded :: "Config \<Rightarrow> Config" where
  "reloaded c = c\<lparr>cfg_Routes := map flattened (cfg_Routes c)\<rparr>"

text \<open>A route that came out of the decoder: where the flat spelling is empty, so is the nested one.\<close>

definition decodedRoute :: "Route \<Rightarrow> bool" where
  "decodedRoute r \<longleftrightarrow>
     (route_Username r = [] \<longrightarrow> match_Username (route_Match r) = []) \<and>
     (route_Hostname r = [] \<longrightarrow> match_Hostname (route_Match r) = [])"

lemma UnmarshalWait_Marshal [simp]: "UnmarshalWait (MarshalWait raw) = Inr raw"
  by (simp add: UnmarshalWait_def MarshalWait_def)

lemma decodeRoutes_iff:
  "decodeRoutes raws = Inr rs \<longleftrightarrow>
   list_all2 (\<lambda>raw r. decodeRoute raw = Inr r) raws rs"
proof -
  have "foldE (\<lambda>rs raw. bindE (decodeRoute raw) (\<lambda>r. Inr (rs @ [r]))) acc raws = Inr rs \<longleftrightarrow>
      (\<exists>rs'. rs = acc @ rs' \<and>
        list_all2 (\<lambda>raw r. decodeRoute raw = Inr r) raws rs')"
    for acc
    by (induction raws arbitrary: acc) (fastforce simp: list_all2_Cons1)+
  from this [of "[]"] show ?thesis by (simp add: decodeRoutes_def)
qed

lemma decoded_routes:
  assumes "decodeConfig fc = Inr c"
  shows "list_all2 (\<lambda>raw r. decodeRoute raw = Inr r)
      (fc_Routes fc) (cfg_Routes c)"
    and "list_all decodedRoute (cfg_Routes c)"
proof -
  show rs: "list_all2 (\<lambda>raw r. decodeRoute raw = Inr r)
      (fc_Routes fc) (cfg_Routes c)"
    using assms by (auto simp: decodeConfig_def decodeRoutes_iff)
  then have "\<exists>raw. decodeRoute raw = Inr r"
    if "r \<in> set (cfg_Routes c)" for r
    using that by (auto simp: list_all2_conv_all_nth in_set_conv_nth)
  then show "list_all decodedRoute (cfg_Routes c)"
    unfolding list_all_iff decodedRoute_def by (blast dest: decoded_predicates(1,2))
qed

lemma reload_config:
  assumes "list_all decodedRoute (cfg_Routes c)"
  shows "decodeConfig (encodeConfig c) = Inr (reloaded c)"
proof -
  have "decodeRoute (rawOfFlat (MarshalYAML r)) = Inr (flattened r)"
    if "r \<in> set (cfg_Routes c)" for r
    using assms that reload_route [of r] by (auto simp: list_all_iff decodedRoute_def flattened_def)
  then have "decodeRoutes (map (\<lambda>r. rawOfFlat (MarshalYAML r)) (cfg_Routes c)) =
      Inr (map flattened (cfg_Routes c))"
    unfolding decodeRoutes_iff by (auto simp: list_all2_conv_all_nth)
  then show ?thesis
    by (cases c; cases "cfg_AutoUpdateWait c")
      (simp_all add: decodeConfig_def encodeConfig_def reloaded_def)
qed

text \<open>The waiting time of a decoded file, and of a valid configuration.\<close>

lemma decodeConfig_wait:
  assumes "decodeConfig fc = Inr c"
  shows "case fc_AutoUpdateWait fc of
      None \<Rightarrow> cfg_AutoUpdateWait c = None
    | Some node \<Rightarrow> node_Kind node = ScalarNode \<and> cfg_AutoUpdateWait c = Some (node_Value node)"
  using assms by (auto simp: decodeConfig_def UnmarshalWait_def split: option.splits)

lemma validConfig_wait:
  assumes "validConfig parseKey c" "cfg_AutoUpdateWait c = Some raw"
  shows "\<exists>d. parseAutoUpdateWait raw = Inr d"
  using assms by (auto simp: validConfig_def Let_def split: sum.splits)

lemma wait_enabled:
  assumes "parseAutoUpdateWait raw = Inr d" "0 \<le> d"
  shows "toLower (trimSpace raw) \<notin> set disablingWords"
  using assms by (auto simp: parseAutoUpdateWait_def AutoUpdateDisabled_def Let_def)

text \<open>Validation looks at a route's backend and end user, which a reload keeps.\<close>

lemma valid_reloaded: "validConfig parseKey (reloaded c) \<longleftrightarrow> validConfig parseKey c"
proof -
  have "list_all (validRoute ids) (map flattened rs) \<longleftrightarrow> list_all (validRoute ids) rs" for ids rs
    by (induction rs) (simp_all add: validRoute_def flattened_def)
  then show ?thesis by (simp add: validConfig_def reloaded_def Let_def)
qed

lemma reloaded_same:
  assumes "decodeConfig fc = Inr c"
  shows "reloaded c = c \<longleftrightarrow> list_all consistentRaw (fc_Routes fc)"
proof -
  have one: "flattened r = r \<longleftrightarrow> consistentRaw raw"
    if "decodeRoute raw = Inr r" for raw r
  proof -
    have "decodeRoute (rawOfFlat (MarshalYAML r)) = Inr (flattened r)"
      unfolding flattened_def by (rule reload_route [OF decoded_predicates(1,2) [OF that]])
    with reload_decoded [OF that, where ?'b = decodeError] show ?thesis by simp
  qed
  have "map flattened rs = rs \<longleftrightarrow> list_all consistentRaw raws"
    if "list_all2 (\<lambda>raw r. decodeRoute raw = Inr r) raws rs" for raws rs
    using that by (induction rule: list_all2_induct) (simp_all add: one)
  from this [OF decoded_routes(1) [OF assms]] show ?thesis
    by (cases c) (simp add: reloaded_def)
qed

lemma reloaded_simps [simp]:
  "cfg_Backends (reloaded c) = cfg_Backends c"
  "cfg_JumpUsers (reloaded c) = cfg_JumpUsers c"
  "BackendByToken (reloaded c) t = BackendByToken c t"
  by (simp_all add: reloaded_def BackendByToken_def)

text \<open>A file whose second route spells its user in two ways.\<close>

definition mixedFile :: fileConfig where
  "mixedFile = (encodeConfig exampleConfig)\<lparr>
     fc_AutoUpdateWait := Some \<lparr>node_Kind = ScalarNode, node_Value = ''false''\<rparr>,
     fc_Routes := [
       \<lparr>raw_Match = \<lparr>match_Username = [], match_Hostname = ''www''\<rparr>, raw_Backend = ''web1'',
        raw_Username = [], raw_Hostname = [], raw_EndUser = []\<rparr>,
       \<lparr>raw_Match = \<lparr>match_Username = ''dba'', match_Hostname = []\<rparr>, raw_Backend = ''db1'',
        raw_Username = ''root'', raw_Hostname = [], raw_EndUser = []\<rparr>]\<rparr>"

subsection \<open>Properties\<close>

text \<open>C17: a configuration survives a save and a reload. What was read from a file can be written and
  read again; the result is valid exactly if the configuration was, and it is the same
  configuration, waiting time included, exactly if no route of the file spells out a flat
  and a nested predicate that differ: of such a route only the flat one is kept.\<close>

theorem config_survives_save:
  assumes "decodeConfig fc = Inr c"
  shows "\<exists>c'. decodeConfig (encodeConfig c) = Inr c' \<and>
    (validConfig parseKey c' \<longleftrightarrow> validConfig parseKey c) \<and>
    cfg_AutoUpdateWait c' = cfg_AutoUpdateWait c \<and>
    (c' = c \<longleftrightarrow> list_all consistentRaw (fc_Routes fc))"
  using reload_config [OF decoded_routes(2) [OF assms]] valid_reloaded [of parseKey c]
    reloaded_same [OF assms] by (simp add: reloaded_def)

theorem config_survives_save_witness:
  "\<exists>c c'. decodeConfig mixedFile = Inr c \<and> decodeConfig (encodeConfig c) = Inr c' \<and>
     cfg_AutoUpdateWait c' = Some ''false'' \<and> \<not> (c' = c)"
proof -
  obtain c where c: "decodeConfig mixedFile = Inr c" "cfg_AutoUpdateWait c = Some ''false''"
    by (simp add: decodeConfig_def mixedFile_def decodeRoutes_def UnmarshalYAML_Inr UnmarshalWait_def)
  have "\<not> list_all consistentRaw (fc_Routes mixedFile)" by code_simp
  with config_survives_save [OF c(1)] c show ?thesis by auto
qed

end
