(* ===== verification/Edits.thy ===== *)
theory Edits
  imports Manage Config_File
begin

text \<open>
  Sequences of the operator's edits (\<open>internal/config/manage.go\<close>) against what they promise: the
  configuration file is a directory from backend ids to tokens, with the grants of the jump users.
  An edit that reports success is one step of the directory, and one that fails is none.
\<close>

subsection \<open>The promise\<close>

datatype edit =
    Add "string option" faults string string string string
  | Remove faults string string

record tokenDirectory =
  dr_Tokens :: "string \<rightharpoonup> string"
  dr_Grants :: "(string \<times> string list) list"

text \<open>What an edit answers: an error, or the token of the new backend (for a removal nothing).\<close>

type_synonym answer = "manageError + string"

text \<open>A step of the directory, if the answer is allowed.\<close>

fun directoryStep :: "edit \<Rightarrow> answer \<Rightarrow> tokenDirectory \<Rightarrow> tokenDirectory option" where
  "directoryStep e (Inl err) d = Some d"
| "directoryStep (Add random flt tmp i token endUser) (Inr tok) d =
     (if dr_Tokens d i = None \<and> i \<noteq> [] \<and> (token \<noteq> [] \<longrightarrow> tok = token)
      then Some (d\<lparr>dr_Tokens := (dr_Tokens d)(i \<mapsto> tok)\<rparr>) else None)"
| "directoryStep (Remove flt tmp i) (Inr tok) d =
     (if dr_Tokens d i \<noteq> None
      then Some \<lparr>dr_Tokens = (dr_Tokens d)(i := None),
             dr_Grants = map (\<lambda>(u, bs). (u, filter (\<lambda>b. b \<noteq> i) bs)) (dr_Grants d)\<rparr> else None)"

fun directorySteps :: "(edit \<times> answer) list \<Rightarrow> tokenDirectory \<Rightarrow> tokenDirectory option" where
  "directorySteps [] d = Some d"
| "directorySteps ((e, a) # es) d =
     (case directoryStep e a d of None \<Rightarrow> None | Some d' \<Rightarrow> directorySteps es d')"

subsection \<open>The code's edits\<close>

definition runEdit ::
  "(string \<Rightarrow> Config option) \<Rightarrow> (Config \<Rightarrow> string option) \<Rightarrow> string \<Rightarrow> edit \<Rightarrow> files \<Rightarrow> answer \<times> files" where
  "runEdit decode encode path e fs =
     (case e of
        Add random flt tmp i token endUser \<Rightarrow>
          (let (r, trace) = AddBackend decode encode random flt tmp path i token endUser fs
           in (r, last (fs # trace)))
      | Remove flt tmp i \<Rightarrow>
          (let (r, trace) = RemoveBackend decode encode flt tmp path i fs
           in (case r of Inl err \<Rightarrow> Inl err | Inr u \<Rightarrow> Inr [], last (fs # trace))))"

primrec runEdits ::
  "(string \<Rightarrow> Config option) \<Rightarrow> (Config \<Rightarrow> string option) \<Rightarrow> string \<Rightarrow> edit list \<Rightarrow> files \<Rightarrow>
   answer list \<times> files" where
  "runEdits decode encode path [] fs = ([], fs)"
| "runEdits decode encode path (e # es) fs =
     (let (a, fs) = runEdit decode encode path e fs; (as, fs) = runEdits decode encode path es fs
      in (a # as, fs))"

text \<open>\<open>os.CreateTemp\<close> takes a name that is free.\<close>

fun tempOf :: "edit \<Rightarrow> string" where
  "tempOf (Add random flt tmp i token endUser) = tmp"
| "tempOf (Remove flt tmp i) = tmp"

subsection \<open>One edit\<close>

definition directoryOf :: "Config \<Rightarrow> tokenDirectory" where
  "directoryOf c = \<lparr>dr_Tokens = map_of (map (\<lambda>b. (be_ID b, be_Token b)) (cfg_Backends c)),
     dr_Grants = map (\<lambda>u. (ju_Name u, ju_Backends u)) (cfg_JumpUsers c)\<rparr>"

lemma directoryOf_cong:
  "cfg_Backends c = cfg_Backends c' \<Longrightarrow> cfg_JumpUsers c = cfg_JumpUsers c' \<Longrightarrow> directoryOf c = directoryOf c'"
  by (simp add: directoryOf_def)

lemma directory_dom: "dr_Tokens (directoryOf c) i = None \<longleftrightarrow> BackendByID c i = None"
  by (simp add: directoryOf_def map_of_eq_None_iff BackendByID_None image_image)

lemma directoryOf_add:
  assumes "BackendByID c i = None"
  shows "directoryOf (addBackend i tok c) =
    (directoryOf c)\<lparr>dr_Tokens := (dr_Tokens (directoryOf c))(i \<mapsto> tok)\<rparr>"
proof -
  have "map_of (map (\<lambda>b. (be_ID b, be_Token b)) (cfg_Backends c)) i = None"
    using assms directory_dom [of c i] by (simp add: directoryOf_def)
  then show ?thesis
    by (simp add: directoryOf_def addBackend_def map_add_upd_left fun_eq_iff map_add_def split: option.splits)
qed

lemma map_of_filter_key:
  "map_of (map (\<lambda>b. (be_ID b, be_Token b)) (filter (\<lambda>b. be_ID b \<noteq> i) bs)) =
   (map_of (map (\<lambda>b. (be_ID b, be_Token b)) bs))(i := None)"
  by (induction bs) (auto simp: fun_eq_iff)

lemma directoryOf_remove:
  "directoryOf (removeBackend i c) =
   \<lparr>dr_Tokens = (dr_Tokens (directoryOf c))(i := None),
    dr_Grants = map (\<lambda>(u, bs). (u, filter (\<lambda>b. b \<noteq> i) bs)) (dr_Grants (directoryOf c))\<rparr>"
  by (simp add: directoryOf_def removeBackend_def map_of_filter_key)

text \<open>An edit that fails has changed nothing.\<close>

lemma Save_Inl:
  assumes "Save encode flt tmp path cfg fs = (Inl err, trace)" "tmp \<noteq> path" "fs tmp = None"
  shows "last (fs # trace) = fs"
  using Save_trace(3) [of encode flt tmp path cfg fs "Inl err" trace] assms by (simp del: last.simps)

lemma AddBackend_Inl:
  assumes "AddBackend decode encode random flt tmp path i token endUser fs = (Inl err, trace)"
    and "tmp \<noteq> path" "fs tmp = None"
  shows "last (fs # trace) = fs"
proof -
  from assms(1) have "trace = [] \<or> (\<exists>c. Save encode flt tmp path c fs = (Inl err, trace))"
    by (auto simp: AddBackend_def split: if_splits sum.splits prod.splits)
  with Save_Inl assms(2,3) show ?thesis by fastforce
qed

lemma RemoveBackend_Inl:
  assumes "RemoveBackend decode encode flt tmp path i fs = (Inl err, trace)"
    and "tmp \<noteq> path" "fs tmp = None"
  shows "last (fs # trace) = fs"
proof -
  from assms(1) have "trace = [] \<or> (\<exists>c. Save encode flt tmp path c fs = (Inl err, trace))"
    by (auto simp: RemoveBackend_def split: if_splits sum.splits prod.splits)
  with Save_Inl assms(2,3) show ?thesis by fastforce
qed

lemma AddBackend_token:
  "AddBackend decode encode random flt tmp path i token endUser fs = (Inr tok, trace) \<Longrightarrow> token \<noteq> [] \<Longrightarrow>
   tok = token"
  by (auto simp: AddBackend_def split: if_splits sum.splits prod.splits)

lemma RemoveBackend_found:
  assumes "RemoveBackend decode encode flt tmp path i fs = (Inr u, trace)" "fs path = Some bytes"
    "decode bytes = Some c"
  shows "BackendByID c i \<noteq> None"
  using assms by (auto simp: RemoveBackend_def readConfig_def BackendByID_None list_ex_iff split: if_splits)

text \<open>The file holds a directory.\<close>

definition holdsDirectory ::
  "(string \<Rightarrow> Config option) \<Rightarrow> string \<Rightarrow> files \<Rightarrow> tokenDirectory \<Rightarrow> bool" where
  "holdsDirectory decode path fs d \<longleftrightarrow>
     (\<exists>bytes c. fs path = Some bytes \<and> decode bytes = Some c \<and> directoryOf c = d)"

text \<open>What a save and a reload must keep.\<close>

definition keepsDirectory :: "(string \<Rightarrow> Config option) \<Rightarrow> (Config \<Rightarrow> string option) \<Rightarrow> bool" where
  "keepsDirectory decode encode \<longleftrightarrow>
     (\<forall>c b. encode c = Some b \<longrightarrow> (\<exists>c'. decode b = Some c' \<and> cfg_Backends c' = cfg_Backends c \<and>
        cfg_JumpUsers c' = cfg_JumpUsers c))"

lemma saved_directory:
  assumes "keepsDirectory decode encode" "Save encode flt tmp path c fs = (Inr u, trace)"
    and "tmp \<noteq> path" "fs tmp = None"
  shows "holdsDirectory decode path (last (fs # trace)) (directoryOf c) \<and>
    (\<forall>p. p \<noteq> path \<longrightarrow> last (fs # trace) p = fs p)"
proof -
  note saved = Save_trace(3,4) [OF assms(2-4)]
  then obtain b where b: "encode c = Some b" by auto
  with assms(1) obtain c' where "decode b = Some c'" "cfg_Backends c' = cfg_Backends c"
    "cfg_JumpUsers c' = cfg_JumpUsers c" unfolding keepsDirectory_def by blast
  with b saved(1) directoryOf_cong [of c' c] show ?thesis
    by (auto simp: holdsDirectory_def simp del: last.simps)
qed

lemma runEdit_step:
  assumes law: "keepsDirectory decode encode" and d: "holdsDirectory decode path fs d"
    and tmp: "tempOf e \<noteq> path" "fs (tempOf e) = None"
    and run: "runEdit decode encode path e fs = (a, fs')"
  shows "(\<exists>d'. directoryStep e a d = Some d' \<and> holdsDirectory decode path fs' d') \<and>
    (\<forall>p. p \<noteq> path \<longrightarrow> fs' p = fs p)"
proof -
  from d obtain bytes c where c: "fs path = Some bytes" "decode bytes = Some c" "directoryOf c = d"
    unfolding holdsDirectory_def by blast
  show ?thesis
  proof (cases e)
    case (Add random flt tmp i token endUser)
    then obtain trace where t: "AddBackend decode encode random flt tmp path i token endUser fs = (a, trace)"
      "fs' = last (fs # trace)"
      using run by (auto simp: runEdit_def split: prod.splits simp del: last.simps)
    show ?thesis
    proof (cases a)
      case (Inl err)
      with t AddBackend_Inl [of decode encode random flt tmp path i token endUser fs err trace] tmp Add d
      show ?thesis by (simp del: last.simps)
    next
      case (Inr tok)
      note ok = AddBackend_InrD [OF t(1) [unfolded Inr] c(1,2)] AddBackend_token [OF t(1) [unfolded Inr]]
      have "tmp \<noteq> path" "fs tmp = None" using tmp Add by simp_all
      from saved_directory [OF law ok(3) this] directoryOf_add [OF ok(2), of tok]
        directory_dom [of c i] ok(1,2,4) c(3) t(2) Add Inr
      show ?thesis by (simp del: last.simps)
    qed
  next
    case (Remove flt tmp i)
    then obtain r trace where t: "RemoveBackend decode encode flt tmp path i fs = (r, trace)"
      "fs' = last (fs # trace)" "a = (case r of Inl err \<Rightarrow> Inl err | Inr u \<Rightarrow> Inr [])"
      using run by (auto simp: runEdit_def split: prod.splits simp del: last.simps)
    show ?thesis
    proof (cases r)
      case (Inl err)
      with t RemoveBackend_Inl [of decode encode flt tmp path i fs err trace] tmp Remove d
      show ?thesis by (simp del: last.simps)
    next
      case (Inr u)
      have "tmp \<noteq> path" "fs tmp = None" using tmp Remove by simp_all
      from saved_directory [OF law RemoveBackend_InrD [OF t(1) [unfolded Inr] c(1,2)] this]
        RemoveBackend_found [OF t(1) [unfolded Inr] c(1,2)] directory_dom [of c i] c(3) t(2,3) Remove Inr
      show ?thesis by (simp add: directoryOf_remove del: last.simps)
    qed
  qed
qed

subsection \<open>Two edits and a removal\<close>

definition exampleEdits :: "edit list" where
  "exampleEdits = [Add None noFaults ''t1'' ''new1'' ''tok1'' [],
     Add None (noFaults\<lparr>fault_Rename := True\<rparr>) ''t2'' ''new2'' ''tok2'' [], Remove noFaults ''t3'' ''new1'']"

subsection \<open>Properties\<close>

text \<open>C18: the configuration file is a directory. Over any sequence of added and removed backends, with
  any failures of the system in between, every edit that reports success has made its step on the
  directory of backends and grants that the file holds, a free id gets its token or an existing
  one goes with all its grants, every edit that reports an error has made none, and no other
  file has changed.\<close>

theorem edits_refine_directory:
  assumes "keepsDirectory decode encode" "holdsDirectory decode path fs d"
    and "list_all (\<lambda>e. tempOf e \<noteq> path \<and> fs (tempOf e) = None) es"
    and "runEdits decode encode path es fs = (as, fs')"
  shows "(\<exists>d'. directorySteps (zip es as) d = Some d' \<and> holdsDirectory decode path fs' d') \<and>
    (\<forall>p. p \<noteq> path \<longrightarrow> fs' p = fs p)"
  using assms(2-4)
proof (induction es arbitrary: fs d as)
  case (Cons e es)
  obtain a fs1 where first: "runEdit decode encode path e fs = (a, fs1)" by force
  obtain as1 where rest: "runEdits decode encode path es fs1 = (as1, fs')" "as = a # as1"
    using Cons.prems(3) first by (auto split: prod.splits)
  from runEdit_step [OF assms(1) Cons.prems(1) _ _ first] Cons.prems(2) obtain d1 where
    d1: "directoryStep e a d = Some d1" "holdsDirectory decode path fs1 d1"
      "\<And>p. p \<noteq> path \<Longrightarrow> fs1 p = fs p" by auto
  have "list_all (\<lambda>e. tempOf e \<noteq> path \<and> fs1 (tempOf e) = None) es"
    using Cons.prems(2) d1(3) by (auto simp: list_all_iff)
  from Cons.IH [OF d1(2) this rest(1)] d1 rest(2) show ?case by auto
qed simp

theorem edits_refine_directory_witness:
  "\<exists>decode encode. keepsDirectory decode encode \<and>
     (\<exists>d'. directorySteps (zip exampleEdits (fst (runEdits decode encode ''hub.yaml'' exampleEdits
         [''hub.yaml'' \<mapsto> ''old'']))) (directoryOf exampleConfig) = Some d')"
proof -
  define decode :: "string \<Rightarrow> Config option" where "decode = (\<lambda>b. Some
    (if b = ''one'' then addBackend ''new1'' ''tok1'' exampleConfig else exampleConfig))"
  define encode :: "Config \<Rightarrow> string option" where "encode = (\<lambda>c.
    if c = addBackend ''new1'' ''tok1'' exampleConfig then Some ''one''
    else if c = exampleConfig then Some ''old'' else None)"
  have law: "keepsDirectory decode encode" by (auto simp: keepsDirectory_def decode_def encode_def)
  have held: "holdsDirectory decode ''hub.yaml'' [''hub.yaml'' \<mapsto> ''old''] (directoryOf exampleConfig)"
    by (simp add: holdsDirectory_def decode_def)
  have free: "list_all (\<lambda>e. tempOf e \<noteq> ''hub.yaml'' \<and>
      [''hub.yaml'' \<mapsto> ''old''] (tempOf e) = None) exampleEdits"
    by (simp add: exampleEdits_def)
  show ?thesis
    using edits_refine_directory [OF law held free prod.collapse [symmetric]] law by blast
qed

end
