(* ===== verification/Bridge.thy ===== *)
theory Bridge
  imports Prelude "HOL-Library.Sublist"
begin

text \<open>
  The two functions called \<open>bridge\<close> that carry a tunnel's bytes: the hub's, between the client's
  channel and the agent's stream (\<open>internal/proxy/proxy.go\<close>), and the agent's, between that
  stream and the local SSH server (\<open>internal/control/client.go\<close>). Each runs two copies, one per
  direction, and a main part that waits for them; \<open>In\<close> is the direction of the client's input.
\<close>

subsection \<open>One direction\<close>

datatype halfState = Copying | AtEOF | Broken

text \<open>
  What the source's peer has sent and whether it has ended its stream; what \<open>io.Copy\<close> has read and
  not yet written; what was written to the destination, how many bytes more it takes before a
  write blocks, and whether its writing side was closed.
\<close>

record half =
  hf_Sent :: string
  hf_Ended :: bool
  hf_Buffer :: string
  hf_Written :: string
  hf_Room :: nat
  hf_CloseWritten :: bool
  hf_State :: halfState

definition unread :: "half \<Rightarrow> string" where
  "unread h = drop (length (hf_Written h) + length (hf_Buffer h)) (hf_Sent h)"

definition halfDone :: "half \<Rightarrow> bool" where
  "halfDone h \<longleftrightarrow> hf_State h \<noteq> Copying"

text \<open>After \<open>io.Copy\<close>, however it ended, the writing side is closed where the destination can (\<open>cw\<close>).\<close>

definition finishHalf :: "bool \<Rightarrow> halfState \<Rightarrow> half \<Rightarrow> half" where
  "finishHalf cw st h = h\<lparr>hf_CloseWritten := cw, hf_State := st\<rparr>"

definition copyBuffer :: nat where "copyBuffer = 32 * 1024"

text \<open>
  \<open>io.Copy\<close>: what has arrived is read into the buffer; what is there is written as far as the
  destination takes it, and nothing is read before all of it is; the end of the input ends the
  copy. A copy whose source has nothing and one whose destination takes nothing wait.
\<close>

inductive copyStep :: "bool \<Rightarrow> half \<Rightarrow> half \<Rightarrow> bool" for cw where
  Read: "hf_State h = Copying \<Longrightarrow> hf_Buffer h = [] \<Longrightarrow> 0 < n \<Longrightarrow> n \<le> length (unread h) \<Longrightarrow>
    n \<le> copyBuffer \<Longrightarrow> copyStep cw h (h\<lparr>hf_Buffer := take n (unread h)\<rparr>)"
| Write: "hf_State h = Copying \<Longrightarrow> 0 < k \<Longrightarrow> k \<le> length (hf_Buffer h) \<Longrightarrow> k \<le> hf_Room h \<Longrightarrow>
    copyStep cw h (h\<lparr>hf_Buffer := drop k (hf_Buffer h), hf_Written := hf_Written h @ take k (hf_Buffer h),
      hf_Room := hf_Room h - k\<rparr>)"
| EOF: "hf_State h = Copying \<Longrightarrow> hf_Buffer h = [] \<Longrightarrow> unread h = [] \<Longrightarrow> hf_Ended h \<Longrightarrow>
    copyStep cw h (finishHalf cw AtEOF h)"

text \<open>What the source's peer does.\<close>

inductive peerStep :: "half \<Rightarrow> half \<Rightarrow> bool" where
  Sends: "\<not> hf_Ended h \<Longrightarrow> peerStep h (h\<lparr>hf_Sent := hf_Sent h @ x\<rparr>)"
| Ends: "peerStep h (h\<lparr>hf_Ended := True\<rparr>)"

text \<open>
  What the connections do: the destination takes more, or a read or write fails, and what is in
  the buffer is lost.
\<close>

inductive connStep :: "bool \<Rightarrow> half \<Rightarrow> half \<Rightarrow> bool" for cw where
  Takes: "connStep cw h (h\<lparr>hf_Room := hf_Room h + n\<rparr>)"
| Breaks: "hf_State h = Copying \<Longrightarrow> connStep cw h (finishHalf cw Broken (h\<lparr>hf_Buffer := []\<rparr>))"

subsection \<open>The main part\<close>

datatype bridgePhase = Bridging | OneDone | Returned

text \<open>\<open>br_Expired\<close>: the timer started with the second wait has fired.\<close>

record bridge =
  br_In :: half
  br_Out :: half
  br_Phase :: bridgePhase
  br_Expired :: bool

instantiation bridgePhase :: linorder
begin

definition phaseRank :: "bridgePhase \<Rightarrow> nat" where
  "phaseRank p = (case p of Bridging \<Rightarrow> 0 | OneDone \<Rightarrow> 1 | Returned \<Rightarrow> 2)"

definition less_eq_bridgePhase :: "bridgePhase \<Rightarrow> bridgePhase \<Rightarrow> bool" where
  "p \<le> q \<longleftrightarrow> phaseRank p \<le> phaseRank q"

definition less_bridgePhase :: "bridgePhase \<Rightarrow> bridgePhase \<Rightarrow> bool" where
  "p < q \<longleftrightarrow> phaseRank p < phaseRank q"

instance
  by standard
    (auto simp: less_eq_bridgePhase_def less_bridgePhase_def phaseRank_def split: bridgePhase.splits)

end

text \<open>The hub waits for one copy, then for the other or five seconds.\<close>

definition proxyMain :: "bridge \<Rightarrow> bridgePhase \<Rightarrow> bool" where
  "proxyMain b ph \<longleftrightarrow>
     (case br_Phase b of
        Bridging \<Rightarrow> (halfDone (br_In b) \<or> halfDone (br_Out b)) \<and> ph = OneDone
      | OneDone \<Rightarrow> (halfDone (br_In b) \<and> halfDone (br_Out b) \<or> br_Expired b) \<and> ph = Returned
      | Returned \<Rightarrow> False)"

text \<open>The agent waits for the copy from the SSH server only.\<close>

definition agentMainPart :: "bridge \<Rightarrow> bridgePhase \<Rightarrow> bool" where
  "agentMainPart b ph \<longleftrightarrow> br_Phase b = Bridging \<and> halfDone (br_Out b) \<and> ph = Returned"

text \<open>
  The bridge's own steps: both copies, until returning closes both connections, and the main
  part. The steps of the world are the peers', the connections', and the timer.
\<close>

inductive bridgeStep :: "(bridge \<Rightarrow> bridgePhase \<Rightarrow> bool) \<Rightarrow> bool \<Rightarrow> bool \<Rightarrow> bridge \<Rightarrow> bridge \<Rightarrow> bool"
  for main cwIn cwOut where
  CopyIn: "br_Phase b \<noteq> Returned \<Longrightarrow> copyStep cwIn (br_In b) h \<Longrightarrow>
    bridgeStep main cwIn cwOut b (b\<lparr>br_In := h\<rparr>)"
| CopyOut: "br_Phase b \<noteq> Returned \<Longrightarrow> copyStep cwOut (br_Out b) h \<Longrightarrow>
    bridgeStep main cwIn cwOut b (b\<lparr>br_Out := h\<rparr>)"
| Main: "main b ph \<Longrightarrow> bridgeStep main cwIn cwOut b (b\<lparr>br_Phase := ph\<rparr>)"

inductive worldStep :: "bool \<Rightarrow> bool \<Rightarrow> bridge \<Rightarrow> bridge \<Rightarrow> bool" for cwIn cwOut where
  PeerIn: "peerStep (br_In b) h \<Longrightarrow> worldStep cwIn cwOut b (b\<lparr>br_In := h\<rparr>)"
| PeerOut: "peerStep (br_Out b) h \<Longrightarrow> worldStep cwIn cwOut b (b\<lparr>br_Out := h\<rparr>)"
| ConnIn: "connStep cwIn (br_In b) h \<Longrightarrow> worldStep cwIn cwOut b (b\<lparr>br_In := h\<rparr>)"
| ConnOut: "connStep cwOut (br_Out b) h \<Longrightarrow> worldStep cwIn cwOut b (b\<lparr>br_Out := h\<rparr>)"
| Expires: "br_Phase b = OneDone \<Longrightarrow> worldStep cwIn cwOut b (b\<lparr>br_Expired := True\<rparr>)"

definition startHalf :: half where
  "startHalf = \<lparr>hf_Sent = [], hf_Ended = False, hf_Buffer = [], hf_Written = [], hf_Room = 0,
     hf_CloseWritten = False, hf_State = Copying\<rparr>"

definition startBridge :: bridge where
  "startBridge = \<lparr>br_In = startHalf, br_Out = startHalf, br_Phase = Bridging, br_Expired = False\<rparr>"

inductive bridgeReach :: "(bridge \<Rightarrow> bridgePhase \<Rightarrow> bool) \<Rightarrow> bool \<Rightarrow> bool \<Rightarrow> bridge \<Rightarrow> bool"
  for main cwIn cwOut where
  StartBridge: "bridgeReach main cwIn cwOut startBridge"
| Own: "bridgeReach main cwIn cwOut b \<Longrightarrow> bridgeStep main cwIn cwOut b b' \<Longrightarrow>
    bridgeReach main cwIn cwOut b'"
| World: "bridgeReach main cwIn cwOut b \<Longrightarrow> worldStep cwIn cwOut b b' \<Longrightarrow>
    bridgeReach main cwIn cwOut b'"

text \<open>
  The hub's bridge: an SSH channel can close its writing side, and \<open>cw\<close> says whether the stream
  can. The agent's: the SSH server's connection is TCP, and the stream is not asked.
\<close>

definition proxyBridge :: "bool \<Rightarrow> bridge \<Rightarrow> bool" where
  "proxyBridge cw = bridgeReach proxyMain cw True"

definition agentBridge :: "bridge \<Rightarrow> bool" where
  "agentBridge = bridgeReach agentMainPart True False"

subsection \<open>A direction never invents, loses or reorders bytes\<close>

inductive_cases copyStepE: "copyStep cw h h'"
inductive_cases peerStepE: "peerStep h h'"
inductive_cases connStepE: "connStep cw h h'"
inductive_cases bridgeStepE: "bridgeStep main cwIn cwOut b b'"
inductive_cases worldStepE: "worldStep cwIn cwOut b b'"

definition halfInv :: "half \<Rightarrow> bool" where
  "halfInv h \<longleftrightarrow> prefix (hf_Written h @ hf_Buffer h) (hf_Sent h) \<and>
     (hf_State h = AtEOF \<longrightarrow> hf_Ended h \<and> hf_Written h = hf_Sent h) \<and>
     (hf_CloseWritten h \<longrightarrow> halfDone h)"

lemma halfInv_written: "halfInv h \<Longrightarrow> prefix (hf_Written h) (hf_Sent h)"
  by (auto simp: halfInv_def intro: append_prefixD)

lemma read_unread:
  "prefix (hf_Written h @ hf_Buffer h) (hf_Sent h) \<Longrightarrow> hf_Written h @ hf_Buffer h @ unread h = hf_Sent h"
  by (auto simp: unread_def prefix_def)

lemma prefix_chunk:
  assumes "prefix (hf_Written h @ hf_Buffer h) (hf_Sent h)"
  shows "prefix (hf_Written h @ hf_Buffer h @ take n (unread h)) (hf_Sent h)"
  using take_is_prefix [of n "unread h"] by (simp add: read_unread [OF assms, symmetric])

lemma halfInv_start [simp]: "halfInv startHalf"
  by (simp add: halfInv_def startHalf_def)

lemma halfInv_copy: "halfInv h \<Longrightarrow> copyStep cw h h' \<Longrightarrow> halfInv h'"
  by (erule copyStepE)
    (use prefix_chunk [of h] read_unread [of h] in \<open>auto simp: halfInv_def halfDone_def finishHalf_def\<close>)

lemma halfInv_peer: "halfInv h \<Longrightarrow> peerStep h h' \<Longrightarrow> halfInv h'"
  by (erule peerStepE) (auto simp: halfInv_def halfDone_def)

lemma halfInv_conn: "halfInv h \<Longrightarrow> connStep cw h h' \<Longrightarrow> halfInv h'"
  by (erule connStepE) (auto simp: halfInv_def halfDone_def finishHalf_def intro: append_prefixD)

text \<open>A direction that has ended stays as it ended.\<close>

lemma halfDone_copy: "copyStep cw h h' \<Longrightarrow> \<not> halfDone h"
  by (erule copyStepE) (simp_all add: halfDone_def)

lemma halfDone_peer: "peerStep h h' \<Longrightarrow> halfDone h' = halfDone h"
  by (erule peerStepE) (simp_all add: halfDone_def)

lemma halfDone_conn: "connStep cw h h' \<Longrightarrow> halfDone h \<Longrightarrow> halfDone h'"
  by (erule connStepE) (simp_all add: halfDone_def finishHalf_def)

text \<open>A copy that waits: for its source, or for its destination.\<close>

definition stalled :: "half \<Rightarrow> bool" where
  "stalled h \<longleftrightarrow> hf_State h = Copying \<and>
     (if hf_Buffer h = [] then unread h = [] \<and> \<not> hf_Ended h else hf_Room h = 0)"

lemma copy_rests: "(\<nexists>h'. copyStep cw h h') \<longleftrightarrow> halfDone h \<or> stalled h"
proof
  assume rest: "\<nexists>h'. copyStep cw h h'"
  have "unread h = []" if "hf_State h = Copying" "hf_Buffer h = []"
  proof (rule ccontr)
    assume "unread h \<noteq> []"
    then have "copyStep cw h (h\<lparr>hf_Buffer := take 1 (unread h)\<rparr>)"
      using that by (intro Read) (auto simp: copyBuffer_def Suc_le_eq)
    with rest show False by blast
  qed
  moreover have "hf_Room h = 0" if "hf_State h = Copying" "hf_Buffer h \<noteq> []"
    using Write [of h 1] that rest by (cases "hf_Room h") (auto simp: Suc_le_eq)
  ultimately show "halfDone h \<or> stalled h"
    using EOF [of h cw] rest by (auto simp: halfDone_def stalled_def)
next
  assume "halfDone h \<or> stalled h"
  then show "\<nexists>h'. copyStep cw h h'"
    by (auto simp: halfDone_def stalled_def elim!: copyStepE split: if_splits)
qed

subsection \<open>What every bridge keeps\<close>

definition bridgeInv :: "bridge \<Rightarrow> bool" where
  "bridgeInv b \<longleftrightarrow> halfInv (br_In b) \<and> halfInv (br_Out b) \<and>
     (br_Phase b \<noteq> Bridging \<longrightarrow> halfDone (br_In b) \<or> halfDone (br_Out b)) \<and>
     (br_Phase b = Bridging \<longrightarrow> \<not> br_Expired b)"

text \<open>The work a bridge has left by itself.\<close>

definition workLeft :: "bridge \<Rightarrow> nat" where
  "workLeft b = 2 * length (unread (br_In b)) + length (hf_Buffer (br_In b)) +
     2 * length (unread (br_Out b)) + length (hf_Buffer (br_Out b)) +
     (if halfDone (br_In b) then 0 else 1) + (if halfDone (br_Out b) then 0 else 1) +
     (2 - phaseRank (br_Phase b))"

lemma copyStep_work:
  "copyStep cw h h' \<Longrightarrow>
   2 * length (unread h') + length (hf_Buffer h') + (if halfDone h' then 0 else 1) <
   2 * length (unread h) + length (hf_Buffer h) + (if halfDone h then 0 else 1)"
  by (erule copyStepE) (auto simp: unread_def halfDone_def finishHalf_def)

text \<open>
  A main part moves on, and only after a direction has ended. \<open>served b\<close> says that what it waits
  for has come; then, and only then, it can move on.
\<close>

locale bridge_main =
  fixes main :: "bridge \<Rightarrow> bridgePhase \<Rightarrow> bool"
    and served :: "bridge \<Rightarrow> bool"
  assumes advances: "main b ph \<Longrightarrow> br_Phase b < ph"
    and waits: "main b ph \<Longrightarrow> br_Phase b = Bridging \<Longrightarrow> halfDone (br_In b) \<or> halfDone (br_Out b)"
    and enabled: "(\<exists>ph. main b ph) \<longleftrightarrow> served b \<and> br_Phase b \<noteq> Returned"
begin

lemma bridgeInv_own:
  assumes "bridgeStep main cwIn cwOut b b'" "bridgeInv b"
  shows "bridgeInv b'"
  using assms(1)
proof (cases rule: bridgeStep.cases)
  case (CopyIn h)
  with assms(2) show ?thesis
    using halfInv_copy halfDone_copy by (fastforce simp: bridgeInv_def)
next
  case (CopyOut h)
  with assms(2) show ?thesis
    using halfInv_copy halfDone_copy by (fastforce simp: bridgeInv_def)
next
  case (Main ph)
  with advances [OF Main(2)] assms(2) show ?thesis
    using waits
    by (auto simp: bridgeInv_def less_bridgePhase_def phaseRank_def split: bridgePhase.splits)
qed

lemma bridgeInv_world:
  assumes "worldStep cwIn cwOut b b'" "bridgeInv b"
  shows "bridgeInv b'"
  using assms
  by (cases rule: worldStepE)
    (auto simp: bridgeInv_def halfDone_peer intro: halfInv_peer halfInv_conn halfDone_conn)

lemma bridgeInv_reach: "bridgeReach main cwIn cwOut b \<Longrightarrow> bridgeInv b"
proof (induction rule: bridgeReach.induct)
  case StartBridge
  show ?case by (simp add: bridgeInv_def startBridge_def)
qed (blast intro: bridgeInv_own bridgeInv_world)+

lemma own_work: "bridgeStep main cwIn cwOut b b' \<Longrightarrow> workLeft b' < workLeft b"
proof (erule bridgeStepE)
  fix ph assume "b' = b\<lparr>br_Phase := ph\<rparr>" "main b ph"
  with advances [of b ph] show "workLeft b' < workLeft b"
    by (auto simp: workLeft_def less_bridgePhase_def phaseRank_def split: bridgePhase.splits)
qed (auto simp: workLeft_def dest: copyStep_work)

lemma own_run: "(bridgeStep main cwIn cwOut ^^ n) b b' \<Longrightarrow> n + workLeft b' \<le> workLeft b"
proof (induction n arbitrary: b')
  case (Suc n)
  then obtain m where "(bridgeStep main cwIn cwOut ^^ n) b m" "bridgeStep main cwIn cwOut m b'" by auto
  with Suc.IH own_work show ?case by fastforce
qed simp

text \<open>When a bridge rests by itself.\<close>

lemma rests:
  "(\<nexists>b'. bridgeStep main cwIn cwOut b b') \<longleftrightarrow>
   br_Phase b = Returned \<or>
   \<not> served b \<and> (halfDone (br_In b) \<or> stalled (br_In b)) \<and> (halfDone (br_Out b) \<or> stalled (br_Out b))"
proof -
  have "(\<exists>b'. bridgeStep main cwIn cwOut b b') \<longleftrightarrow>
      br_Phase b \<noteq> Returned \<and> ((\<exists>h. copyStep cwIn (br_In b) h) \<or> (\<exists>h. copyStep cwOut (br_Out b) h)) \<or>
      (\<exists>ph. main b ph)"
    by (auto elim!: bridgeStepE intro: CopyIn CopyOut Main)
  then show ?thesis using copy_rests enabled by metis
qed

end

text \<open>What the hub and what the agent waits for.\<close>

definition proxyServed :: "bridge \<Rightarrow> bool" where
  "proxyServed b \<longleftrightarrow>
     (if br_Phase b = Bridging then halfDone (br_In b) \<or> halfDone (br_Out b)
      else halfDone (br_In b) \<and> halfDone (br_Out b) \<or> br_Expired b)"

interpretation hub_bridge: bridge_main proxyMain proxyServed
proof unfold_locales
  fix b ph
  show "proxyMain b ph \<Longrightarrow> br_Phase b < ph"
    by (cases "br_Phase b") (simp_all add: proxyMain_def less_bridgePhase_def phaseRank_def)
  show "proxyMain b ph \<Longrightarrow> br_Phase b = Bridging \<Longrightarrow> halfDone (br_In b) \<or> halfDone (br_Out b)"
    by (simp add: proxyMain_def)
  show "(\<exists>ph. proxyMain b ph) \<longleftrightarrow> proxyServed b \<and> br_Phase b \<noteq> Returned"
    by (cases "br_Phase b") (simp_all add: proxyMain_def proxyServed_def)
qed

text \<open>The agent's main part has two phases only.\<close>

definition agentServed :: "bridge \<Rightarrow> bool" where
  "agentServed b \<longleftrightarrow> br_Phase b = Bridging \<and> halfDone (br_Out b)"

interpretation agent_bridge: bridge_main agentMainPart agentServed
  by unfold_locales (auto simp: agentMainPart_def agentServed_def less_bridgePhase_def phaseRank_def)

lemma bridgeReach_run:
  "(bridgeStep main cwIn cwOut ^^ n) b b' \<Longrightarrow> bridgeReach main cwIn cwOut b \<Longrightarrow>
   bridgeReach main cwIn cwOut b'"
  by (induction n arbitrary: b') (auto intro: Own)

text \<open>Neither returns before what it waits for has come.\<close>

lemma proxy_returned:
  "bridgeReach proxyMain cwIn cwOut b \<Longrightarrow> br_Phase b = Returned \<Longrightarrow>
   halfDone (br_In b) \<and> halfDone (br_Out b) \<or> br_Expired b"
proof (induction rule: bridgeReach.induct)
  case (Own b b')
  from Own(2,3,4) show ?case
    by (cases rule: bridgeStep.cases) (auto simp: proxyMain_def dest: halfDone_copy split: bridgePhase.splits)
next
  case (World b b')
  from World(2,3,4) show ?case
    by (cases rule: worldStep.cases) (auto simp: halfDone_peer dest: halfDone_conn)
qed (simp add: startBridge_def)

lemma agent_returned:
  "bridgeReach agentMainPart cwIn cwOut b \<Longrightarrow>
   br_Phase b = Bridging \<or> br_Phase b = Returned \<and> halfDone (br_Out b)"
proof (induction rule: bridgeReach.induct)
  case (Own b b')
  from Own(2,3) show ?case
    by (cases rule: bridgeStep.cases) (auto simp: agentMainPart_def dest: halfDone_copy)
next
  case (World b b')
  from World(2,3) show ?case
    by (cases rule: worldStep.cases) (auto simp: halfDone_peer dest: halfDone_conn)
qed (simp add: startBridge_def)
subsection \<open>Runs of both\<close>

text \<open>The SSH server has closed; the client still types.\<close>

definition quietBridge :: bridge where
  "quietBridge = startBridge\<lparr>br_Out := startHalf\<lparr>hf_Ended := True\<rparr>\<rparr>"

definition halfway :: "bool \<Rightarrow> bridge" where
  "halfway cw = quietBridge\<lparr>br_Out := finishHalf cw AtEOF (startHalf\<lparr>hf_Ended := True\<rparr>)\<rparr>"

lemma quietBridge_reach: "bridgeReach main cwIn cwOut quietBridge"
  using World [OF StartBridge PeerOut [OF Ends]]
  by (simp add: quietBridge_def startBridge_def)

lemma quietBridge_step: "bridgeStep main cwIn cw quietBridge (halfway cw)"
proof -
  have "copyStep cw (br_Out quietBridge) (finishHalf cw AtEOF (startHalf\<lparr>hf_Ended := True\<rparr>))"
    using EOF [of "br_Out quietBridge" cw] by (simp add: quietBridge_def startHalf_def unread_def)
  then show ?thesis
    using CopyOut [of quietBridge cw] by (simp add: halfway_def quietBridge_def startBridge_def)
qed

lemma agent_quiet_run:
  "(bridgeStep agentMainPart True False ^^ 2) quietBridge (halfway False\<lparr>br_Phase := Returned\<rparr>)"
  using quietBridge_step [of agentMainPart True False]
    Main [of agentMainPart "halfway False" Returned True False]
  by (auto simp: numeral_2_eq_2 agentMainPart_def halfway_def halfDone_def finishHalf_def
      quietBridge_def startBridge_def)

lemma proxy_quiet_run:
  "(bridgeStep proxyMain cw True ^^ 2) quietBridge (halfway True\<lparr>br_Phase := OneDone\<rparr>)"
  using quietBridge_step [of proxyMain cw True] Main [of proxyMain "halfway True" OneDone cw True]
  by (auto simp: numeral_2_eq_2 proxyMain_def halfway_def halfDone_def finishHalf_def
      quietBridge_def startBridge_def)

subsection \<open>Properties\<close>

text \<open>C40: when a bridge returns. By itself a bridge takes a bounded number of steps. When it can take
  no more, the hub's has returned exactly if both directions have ended, or one has and five
  seconds have passed since; the agent's exactly if the direction from the SSH server has ended.
  And where it has not returned, each direction that has not ended waits: for input that has not
  come, or for a destination that takes nothing more.\<close>

theorem bridge_returns:
  assumes "proxyBridge cw h" "(bridgeStep proxyMain cw True ^^ m) h h'"
    and "\<nexists>b. bridgeStep proxyMain cw True h' b"
    and "agentBridge a" "(bridgeStep agentMainPart True False ^^ n) a a'"
    and "\<nexists>b. bridgeStep agentMainPart True False a' b"
  shows "m \<le> workLeft h \<and> n \<le> workLeft a \<and>
    (br_Phase h' = Returned \<longleftrightarrow> halfDone (br_In h') \<and> halfDone (br_Out h') \<or> br_Expired h') \<and>
    (br_Phase a' = Returned \<longleftrightarrow> halfDone (br_Out a')) \<and>
    list_all (\<lambda>b. br_Phase b = Returned \<or>
      list_all (\<lambda>d. halfDone d \<or> stalled d) [br_In b, br_Out b]) [h', a']"
proof -
  have reach: "bridgeReach proxyMain cw True h'" "bridgeReach agentMainPart True False a'"
    using assms(1,2,4,5) bridgeReach_run unfolding proxyBridge_def agentBridge_def by blast+
  note inv = hub_bridge.bridgeInv_reach [OF reach(1)] agent_returned [OF reach(2)]
  note rest = assms(3,6) [unfolded hub_bridge.rests agent_bridge.rests]
  have "br_Phase h' = Returned \<longleftrightarrow> halfDone (br_In h') \<and> halfDone (br_Out h') \<or> br_Expired h'"
    using rest(1) inv(1) proxy_returned [OF reach(1)]
    by (cases "br_Phase h'") (auto simp: proxyServed_def bridgeInv_def)
  moreover have "br_Phase a' = Returned \<longleftrightarrow> halfDone (br_Out a')"
    using rest(2) inv(2) by (auto simp: agentServed_def)
  ultimately show ?thesis
    using rest hub_bridge.own_run [OF assms(2)] agent_bridge.own_run [OF assms(5)] by auto
qed

theorem bridge_returns_witness:
  "2 \<le> workLeft quietBridge \<and> stalled (br_In (halfway True)) \<and>
   \<not> halfDone (br_In (halfway True)) \<and> halfDone (br_Out (halfway False))"
proof -
  let ?h = "halfway True\<lparr>br_Phase := OneDone\<rparr>" and ?a = "halfway False\<lparr>br_Phase := Returned\<rparr>"
  have waits: "stalled (br_In ?h)" "\<not> halfDone (br_In ?h)" "\<not> br_Expired ?h" "halfDone (br_Out ?h)"
    by (simp_all add: halfway_def quietBridge_def startBridge_def startHalf_def stalled_def unread_def
        halfDone_def finishHalf_def)
  then have rest: "\<nexists>b. bridgeStep proxyMain cw True ?h b" "\<nexists>b. bridgeStep agentMainPart True False ?a b"
    for cw unfolding hub_bridge.rests agent_bridge.rests by (simp_all add: proxyServed_def)
  have "proxyBridge True quietBridge" "agentBridge quietBridge"
    by (simp_all add: proxyBridge_def agentBridge_def quietBridge_reach)
  from bridge_returns [OF this(1) proxy_quiet_run rest(1) this(2) agent_quiet_run rest(2)] waits
  show ?thesis by simp
qed


end
