(* ===== verification/Tunnel.thy ===== *)
theory Tunnel
  imports Bridge
begin

text \<open>
  A tunnel from end to end: the hub's bridge (\<open>internal/proxy/proxy.go\<close>) and the agent's
  (\<open>internal/control/client.go\<close>) with the yamux stream between them. What one bridge writes to the
  stream arrives at the other in order; the stream ends for the reader when the writer has closed
  its side and everything has arrived, or at any moment once the session under it is lost.
\<close>

subsection \<open>The stream between the bridges\<close>

text \<open>\<open>w\<close> is the half that writes to the stream, \<open>r\<close> the one that reads from it.\<close>

inductive linkStep :: "bool \<Rightarrow> bool \<Rightarrow> half \<Rightarrow> half \<Rightarrow> half \<Rightarrow> bool" for shut lost w r where
  Arrives: "\<not> hf_Ended r \<Longrightarrow> prefix (hf_Sent r @ x) (hf_Written w) \<Longrightarrow>
    linkStep shut lost w r (r\<lparr>hf_Sent := hf_Sent r @ x\<rparr>)"
| Closes: "shut \<Longrightarrow> hf_Sent r = hf_Written w \<Longrightarrow> linkStep shut lost w r (r\<lparr>hf_Ended := True\<rparr>)"
| Cut: "lost \<Longrightarrow> linkStep shut lost w r (r\<lparr>hf_Ended := True\<rparr>)"

record tunnel =
  tu_Hub :: bridge
  tu_Agent :: bridge
  tu_Lost :: bool

text \<open>A side closes the stream when it has returned, or half of it when its copy has ended.\<close>

definition closesStream :: "bridge \<Rightarrow> half \<Rightarrow> bool" where
  "closesStream b h \<longleftrightarrow> hf_CloseWritten h \<or> br_Phase b = Returned"

inductive tunnelStep :: "bool \<Rightarrow> tunnel \<Rightarrow> tunnel \<Rightarrow> bool" for cw where
  HubRuns: "bridgeStep proxyMain cw True (tu_Hub t) h \<Longrightarrow> tunnelStep cw t (t\<lparr>tu_Hub := h\<rparr>)"
| AgentRuns: "bridgeStep agentMainPart True False (tu_Agent t) a \<Longrightarrow> tunnelStep cw t (t\<lparr>tu_Agent := a\<rparr>)"
| Client: "peerStep (br_In (tu_Hub t)) h \<Longrightarrow> tunnelStep cw t (t\<lparr>tu_Hub := (tu_Hub t)\<lparr>br_In := h\<rparr>\<rparr>)"
| Server: "peerStep (br_Out (tu_Agent t)) h \<Longrightarrow>
    tunnelStep cw t (t\<lparr>tu_Agent := (tu_Agent t)\<lparr>br_Out := h\<rparr>\<rparr>)"
| HubIn: "connStep cw (br_In (tu_Hub t)) h \<Longrightarrow> tunnelStep cw t (t\<lparr>tu_Hub := (tu_Hub t)\<lparr>br_In := h\<rparr>\<rparr>)"
| HubOut: "connStep True (br_Out (tu_Hub t)) h \<Longrightarrow>
    tunnelStep cw t (t\<lparr>tu_Hub := (tu_Hub t)\<lparr>br_Out := h\<rparr>\<rparr>)"
| AgentIn: "connStep True (br_In (tu_Agent t)) h \<Longrightarrow>
    tunnelStep cw t (t\<lparr>tu_Agent := (tu_Agent t)\<lparr>br_In := h\<rparr>\<rparr>)"
| AgentOut: "connStep False (br_Out (tu_Agent t)) h \<Longrightarrow>
    tunnelStep cw t (t\<lparr>tu_Agent := (tu_Agent t)\<lparr>br_Out := h\<rparr>\<rparr>)"
| Timer: "br_Phase (tu_Hub t) = OneDone \<Longrightarrow>
    tunnelStep cw t (t\<lparr>tu_Hub := (tu_Hub t)\<lparr>br_Expired := True\<rparr>\<rparr>)"
| ToAgent: "linkStep (closesStream (tu_Hub t) (br_In (tu_Hub t))) (tu_Lost t)
      (br_In (tu_Hub t)) (br_In (tu_Agent t)) h \<Longrightarrow>
    tunnelStep cw t (t\<lparr>tu_Agent := (tu_Agent t)\<lparr>br_In := h\<rparr>\<rparr>)"
| ToHub: "linkStep (closesStream (tu_Agent t) (br_Out (tu_Agent t))) (tu_Lost t)
      (br_Out (tu_Agent t)) (br_Out (tu_Hub t)) h \<Longrightarrow>
    tunnelStep cw t (t\<lparr>tu_Hub := (tu_Hub t)\<lparr>br_Out := h\<rparr>\<rparr>)"
| SessionLost: "tunnelStep cw t (t\<lparr>tu_Lost := True\<rparr>)"

definition startTunnel :: tunnel where
  "startTunnel = \<lparr>tu_Hub = startBridge, tu_Agent = startBridge, tu_Lost = False\<rparr>"

inductive tunnelReach :: "bool \<Rightarrow> tunnel \<Rightarrow> bool" for cw where
  StartTunnel: "tunnelReach cw startTunnel"
| TunnelStep: "tunnelReach cw t \<Longrightarrow> tunnelStep cw t t' \<Longrightarrow> tunnelReach cw t'"

subsection \<open>What the stream keeps\<close>

inductive_cases linkStepE: "linkStep shut lost w r r'"

text \<open>The reader has a prefix of what was written, and all of it when it sees an orderly end.\<close>

definition linkOK :: "bool \<Rightarrow> bool \<Rightarrow> half \<Rightarrow> half \<Rightarrow> bool" where
  "linkOK shut lost w r \<longleftrightarrow> prefix (hf_Sent r) (hf_Written w) \<and>
     (hf_Ended r \<longrightarrow> lost \<or> shut \<and> hf_Sent r = hf_Written w)"

lemma linkOK_link: "linkStep shut lost w r r' \<Longrightarrow> linkOK shut lost w r \<Longrightarrow> linkOK shut lost w r'"
  by (erule linkStepE) (auto simp: linkOK_def)

text \<open>On the reader's side the stream is a peer.\<close>

lemma link_peer: "linkStep shut lost w r r' \<Longrightarrow> peerStep r r'"
  by (erule linkStepE) (auto intro: Sends Ends)

lemma linkOK_reader:
  "linkOK shut lost w r \<Longrightarrow> hf_Sent r' = hf_Sent r \<Longrightarrow> hf_Ended r' = hf_Ended r \<Longrightarrow>
   linkOK shut lost w r'"
  by (simp add: linkOK_def)

lemma linkOK_writer:
  assumes "linkOK shut lost w r" "prefix (hf_Written w) (hf_Written w')"
    and "shut \<Longrightarrow> shut' \<and> hf_Written w' = hf_Written w"
  shows "linkOK shut' lost w' r"
  using assms prefix_order.trans unfolding linkOK_def by metis

lemma linkOK_lost: "linkOK shut lost w r \<Longrightarrow> linkOK shut True w r"
  by (simp add: linkOK_def)

lemma copy_frame: "copyStep cw h h' \<Longrightarrow> hf_Sent h' = hf_Sent h \<and> hf_Ended h' = hf_Ended h"
  by (erule copyStepE) (simp_all add: finishHalf_def)

lemma copy_writes: "copyStep cw h h' \<Longrightarrow> prefix (hf_Written h) (hf_Written h')"
  by (erule copyStepE) (simp_all add: finishHalf_def)

lemma conn_frame:
  "connStep cw h h' \<Longrightarrow> hf_Sent h' = hf_Sent h \<and> hf_Ended h' = hf_Ended h \<and> hf_Written h' = hf_Written h"
  by (erule connStepE) (simp_all add: finishHalf_def)

lemma peer_frame:
  "peerStep h h' \<Longrightarrow> hf_Written h' = hf_Written h \<and> hf_CloseWritten h' = hf_CloseWritten h"
  by (erule peerStepE) simp_all

text \<open>A side that has closed the stream writes nothing more to it, and never opens it again.\<close>

lemma closed_conn:
  assumes "connStep cw h h'" "hf_CloseWritten h \<longrightarrow> halfDone h" "closesStream b h" "br_Phase b' = br_Phase b"
  shows "closesStream b' h'"
  using assms by (cases rule: connStepE) (auto simp: closesStream_def halfDone_def finishHalf_def)

text \<open>A step of a bridge, seen from its two halves.\<close>

lemma bridge_halves:
  assumes "bridgeStep main cwIn cwOut b b'"
  shows "br_In b' = br_In b \<or> br_Phase b \<noteq> Returned \<and> copyStep cwIn (br_In b) (br_In b')"
    and "br_Out b' = br_Out b \<or> br_Phase b \<noteq> Returned \<and> copyStep cwOut (br_Out b) (br_Out b')"
  using assms by (auto elim!: bridgeStepE)

lemma proxy_stays: "bridgeStep proxyMain cwIn cwOut b b' \<Longrightarrow> br_Phase b = Returned \<Longrightarrow> br_Phase b' = Returned"
  by (auto simp: proxyMain_def elim!: bridgeStepE)

lemma agent_stays:
  "bridgeStep agentMainPart cwIn cwOut b b' \<Longrightarrow> br_Phase b = Returned \<Longrightarrow> br_Phase b' = Returned"
  by (auto simp: agentMainPart_def elim!: bridgeStepE)

lemma writer_runs:
  assumes link: "linkOK (closesStream b w) lost w r" and inv: "hf_CloseWritten w \<longrightarrow> halfDone w"
    and step: "w' = w \<or> br_Phase b \<noteq> Returned \<and> copyStep cw w w'"
    and stays: "br_Phase b = Returned \<Longrightarrow> br_Phase b' = Returned"
  shows "linkOK (closesStream b' w') lost w' r"
proof (rule linkOK_writer [OF link])
  show "prefix (hf_Written w) (hf_Written w')" using step copy_writes by auto
  show "closesStream b' w' \<and> hf_Written w' = hf_Written w" if "closesStream b w"
    using that step stays inv halfDone_copy [of cw w w'] by (auto simp: closesStream_def)
qed

lemma reader_runs:
  "linkOK shut lost w r \<Longrightarrow> r' = r \<or> br_Phase b \<noteq> Returned \<and> copyStep cw r r' \<Longrightarrow> linkOK shut lost w r'"
  using copy_frame linkOK_reader by metis

lemma writer_conn:
  assumes "linkOK (closesStream b w) lost w r" "hf_CloseWritten w \<longrightarrow> halfDone w" "connStep cw w w'"
    and "br_Phase b' = br_Phase b"
  shows "linkOK (closesStream b' w') lost w' r"
  by (rule linkOK_writer [OF assms(1)])
    (use conn_frame [OF assms(3)] closed_conn [OF assms(3,2) _ assms(4)] in auto)

lemma writer_peer:
  "linkOK (closesStream b w) lost w r \<Longrightarrow> peerStep w w' \<Longrightarrow> br_Phase b' = br_Phase b \<Longrightarrow>
   linkOK (closesStream b' w') lost w' r"
  using peer_frame [of w w'] by (simp add: linkOK_def closesStream_def)

subsection \<open>What a tunnel keeps\<close>

definition tunnelInv :: "bool \<Rightarrow> tunnel \<Rightarrow> bool" where
  "tunnelInv cw t \<longleftrightarrow> proxyBridge cw (tu_Hub t) \<and> agentBridge (tu_Agent t) \<and>
     linkOK (closesStream (tu_Hub t) (br_In (tu_Hub t))) (tu_Lost t) (br_In (tu_Hub t)) (br_In (tu_Agent t)) \<and>
     linkOK (closesStream (tu_Agent t) (br_Out (tu_Agent t))) (tu_Lost t)
       (br_Out (tu_Agent t)) (br_Out (tu_Hub t))"

text \<open>Each side of a tunnel is a bridge of its own, with the stream among its peers.\<close>

lemma proxyBridge_inv: "proxyBridge cw b \<Longrightarrow> bridgeInv b"
  unfolding proxyBridge_def by (rule hub_bridge.bridgeInv_reach)

lemma agentBridge_inv: "agentBridge b \<Longrightarrow> bridgeInv b"
  unfolding agentBridge_def by (rule agent_bridge.bridgeInv_reach)

lemma bridge_closeWritten:
  "bridgeInv b \<Longrightarrow> hf_CloseWritten (br_In b) \<longrightarrow> halfDone (br_In b)"
  "bridgeInv b \<Longrightarrow> hf_CloseWritten (br_Out b) \<longrightarrow> halfDone (br_Out b)"
  by (simp_all add: bridgeInv_def halfInv_def)

lemmas hub_world = World [of proxyMain _ True, folded proxyBridge_def]
lemmas agent_world = World [of agentMainPart True False, folded agentBridge_def]

lemma tunnelInv_step:
  assumes "tunnelStep cw t t'" "tunnelInv cw t"
  shows "tunnelInv cw t'"
proof -
  let ?h = "tu_Hub t" and ?a = "tu_Agent t"
  from assms(2) have hub: "proxyBridge cw ?h" and agent: "agentBridge ?a"
    and toAgent: "linkOK (closesStream ?h (br_In ?h)) (tu_Lost t) (br_In ?h) (br_In ?a)"
    and toHub: "linkOK (closesStream ?a (br_Out ?a)) (tu_Lost t) (br_Out ?a) (br_Out ?h)"
    by (simp_all add: tunnelInv_def)
  note close = bridge_closeWritten [OF proxyBridge_inv [OF hub]]
    bridge_closeWritten [OF agentBridge_inv [OF agent]]
  note same = closesStream_def linkOK_def
  from assms(1) show ?thesis
  proof (cases rule: tunnelStep.cases)
    case (HubRuns h)
    have "proxyBridge cw h" using hub HubRuns(2) Own unfolding proxyBridge_def by blast
    moreover note writer_runs [OF toAgent close(1) bridge_halves(1) [OF HubRuns(2)] proxy_stays [OF HubRuns(2)]]
      reader_runs [OF toHub bridge_halves(2) [OF HubRuns(2)]]
    ultimately show ?thesis using HubRuns(1) agent by (simp add: tunnelInv_def)
  next
    case (AgentRuns a)
    have "agentBridge a" using agent AgentRuns(2) Own unfolding agentBridge_def by blast
    moreover note writer_runs [OF toHub close(4) bridge_halves(2) [OF AgentRuns(2)] agent_stays [OF AgentRuns(2)]]
      reader_runs [OF toAgent bridge_halves(1) [OF AgentRuns(2)]]
    ultimately show ?thesis using AgentRuns(1) hub by (simp add: tunnelInv_def)
  next
    case (Client h)
    have "proxyBridge cw (?h\<lparr>br_In := h\<rparr>)" using hub_world [OF hub PeerIn [OF Client(2)]] .
    with Client writer_peer [OF toAgent Client(2), of "?h\<lparr>br_In := h\<rparr>"] toHub agent show ?thesis
      by (simp add: tunnelInv_def)
  next
    case (Server h)
    have "agentBridge (?a\<lparr>br_Out := h\<rparr>)" using agent_world [OF agent PeerOut [OF Server(2)]] .
    with Server writer_peer [OF toHub Server(2), of "?a\<lparr>br_Out := h\<rparr>"] toAgent hub show ?thesis
      by (simp add: tunnelInv_def)
  next
    case (HubIn h)
    have "proxyBridge cw (?h\<lparr>br_In := h\<rparr>)" using hub_world [OF hub ConnIn [OF HubIn(2)]] .
    with HubIn writer_conn [OF toAgent close(1) HubIn(2), of "?h\<lparr>br_In := h\<rparr>"] toHub agent show ?thesis
      by (simp add: tunnelInv_def)
  next
    case (HubOut h)
    have "proxyBridge cw (?h\<lparr>br_Out := h\<rparr>)" using hub_world [OF hub ConnOut [OF HubOut(2)]] .
    with HubOut conn_frame [OF HubOut(2)] linkOK_reader [OF toHub, of h] toAgent agent show ?thesis
      by (simp add: tunnelInv_def closesStream_def)
  next
    case (AgentIn h)
    have "agentBridge (?a\<lparr>br_In := h\<rparr>)" using agent_world [OF agent ConnIn [OF AgentIn(2)]] .
    with AgentIn conn_frame [OF AgentIn(2)] linkOK_reader [OF toAgent, of h] toHub hub show ?thesis
      by (simp add: tunnelInv_def closesStream_def)
  next
    case (AgentOut h)
    have "agentBridge (?a\<lparr>br_Out := h\<rparr>)" using agent_world [OF agent ConnOut [OF AgentOut(2)]] .
    with AgentOut writer_conn [OF toHub close(4) AgentOut(2), of "?a\<lparr>br_Out := h\<rparr>"] toAgent hub show ?thesis
      by (simp add: tunnelInv_def)
  next
    case Timer
    have "proxyBridge cw (?h\<lparr>br_Expired := True\<rparr>)" using hub_world [OF hub Expires [OF Timer(2)]] .
    with Timer toAgent toHub agent show ?thesis by (simp add: tunnelInv_def closesStream_def)
  next
    case (ToAgent h)
    have "agentBridge (?a\<lparr>br_In := h\<rparr>)" using agent_world [OF agent PeerIn [OF link_peer [OF ToAgent(2)]]] .
    with ToAgent linkOK_link [OF ToAgent(2) toAgent] toHub hub show ?thesis
      by (simp add: tunnelInv_def closesStream_def)
  next
    case (ToHub h)
    have "proxyBridge cw (?h\<lparr>br_Out := h\<rparr>)" using hub_world [OF hub PeerOut [OF link_peer [OF ToHub(2)]]] .
    with ToHub linkOK_link [OF ToHub(2) toHub] toAgent agent show ?thesis
      by (simp add: tunnelInv_def closesStream_def)
  next
    case SessionLost
    with linkOK_lost toAgent toHub hub agent show ?thesis by (simp add: tunnelInv_def)
  qed
qed

lemma tunnelInv_reach: "tunnelReach cw t \<Longrightarrow> tunnelInv cw t"
proof (induction rule: tunnelReach.induct)
  case StartTunnel
  show ?case
    using bridgeReach.StartBridge [of proxyMain cw True] bridgeReach.StartBridge [of agentMainPart True False]
    by (simp add: tunnelInv_def startTunnel_def proxyBridge_def agentBridge_def linkOK_def)
      (simp add: startBridge_def startHalf_def)
qed (rule tunnelInv_step)
subsection \<open>A tunnel that is closed from both ends\<close>

text \<open>A copy that has room passes on all that has arrived, and ends.\<close>

lemma copy_through:
  assumes "hf_State h = Copying" "hf_Buffer h = []" "unread h = x" "x \<noteq> []" "length x \<le> copyBuffer"
    and "length x \<le> hf_Room h" "hf_Ended h"
  shows "(copyStep cw)\<^sup>*\<^sup>* h
    (finishHalf cw AtEOF (h\<lparr>hf_Buffer := [], hf_Written := hf_Written h @ x, hf_Room := hf_Room h - length x\<rparr>))"
proof -
  let ?r = "h\<lparr>hf_Buffer := x\<rparr>"
  let ?w = "h\<lparr>hf_Buffer := [], hf_Written := hf_Written h @ x, hf_Room := hf_Room h - length x\<rparr>"
  have "copyStep cw h ?r" using Read [of h "length x" cw] assms by simp
  moreover have "copyStep cw ?r ?w" using Write [of ?r "length x" cw] assms by simp
  moreover have "length (hf_Sent h) = length (hf_Written h) + length x"
    using assms(2-4) by (auto simp: unread_def)
  then have "copyStep cw ?w (finishHalf cw AtEOF ?w)" using assms by (intro EOF) (simp_all add: unread_def)
  ultimately show ?thesis by (meson converse_rtranclp_into_rtranclp rtranclp.rtrancl_refl)
qed

lemma copies_out:
  "(copyStep cwOut)\<^sup>*\<^sup>* (br_Out b) h \<Longrightarrow> br_Phase b \<noteq> Returned \<Longrightarrow>
   (bridgeStep main cwIn cwOut)\<^sup>*\<^sup>* b (b\<lparr>br_Out := h\<rparr>)"
proof (induction rule: rtranclp_induct)
  case (step h h')
  from CopyOut [of "b\<lparr>br_Out := h\<rparr>" cwOut h' main cwIn] step have
    "bridgeStep main cwIn cwOut (b\<lparr>br_Out := h\<rparr>) (b\<lparr>br_Out := h'\<rparr>)" by simp
  with step show ?case by (meson rtranclp.rtrancl_into_rtrancl)
qed simp

lemma hub_runs:
  "(bridgeStep proxyMain cw True)\<^sup>*\<^sup>* b b' \<Longrightarrow> tunnelReach cw t \<Longrightarrow> tu_Hub t = b \<Longrightarrow>
   tunnelReach cw (t\<lparr>tu_Hub := b'\<rparr>)"
proof (induction rule: rtranclp_induct)
  case (step y z)
  with HubRuns [of cw "t\<lparr>tu_Hub := y\<rparr>" z] TunnelStep show ?case by fastforce
qed auto

lemma agent_runs:
  "(bridgeStep agentMainPart True False)\<^sup>*\<^sup>* b b' \<Longrightarrow> tunnelReach cw t \<Longrightarrow> tu_Agent t = b \<Longrightarrow>
   tunnelReach cw (t\<lparr>tu_Agent := b'\<rparr>)"
proof (induction rule: rtranclp_induct)
  case (step y z)
  with AgentRuns [of "t\<lparr>tu_Agent := y\<rparr>" z] TunnelStep show ?case by fastforce
qed auto

text \<open>The server says \<open>x\<close> and closes; then the client closes too.\<close>

definition heard :: "string \<Rightarrow> half" where
  "heard x = startHalf\<lparr>hf_Sent := x, hf_Ended := True, hf_Room := length x\<rparr>"

definition passed :: "bool \<Rightarrow> string \<Rightarrow> half" where
  "passed cw x = finishHalf cw AtEOF (startHalf\<lparr>hf_Sent := x, hf_Ended := True, hf_Written := x\<rparr>)"

lemma heard_passed: "x \<noteq> [] \<Longrightarrow> length x \<le> copyBuffer \<Longrightarrow> (copyStep cw)\<^sup>*\<^sup>* (heard x) (passed cw x)"
  using copy_through [of "heard x" x cw]
  by (simp add: heard_def passed_def startHalf_def unread_def finishHalf_def)

definition closedTunnel :: "string \<Rightarrow> tunnel" where
  "closedTunnel x = \<lparr>tu_Hub = \<lparr>br_In = passed True [], br_Out = passed True x, br_Phase = Returned,
       br_Expired = False\<rparr>,
     tu_Agent = \<lparr>br_In = startHalf, br_Out = passed False x, br_Phase = Returned, br_Expired = False\<rparr>,
     tu_Lost = False\<rparr>"

lemma agent_half:
  assumes "x \<noteq> []" "length x \<le> copyBuffer"
  shows "tunnelReach cw (startTunnel\<lparr>tu_Agent := startBridge\<lparr>br_Out := passed False x, br_Phase := Returned\<rparr>\<rparr>)"
proof -
  let ?t = "\<lambda>h. startTunnel\<lparr>tu_Agent := startBridge\<lparr>br_Out := h\<rparr>\<rparr>"
  have "tunnelReach cw (?t (startHalf\<lparr>hf_Sent := x\<rparr>))"
    using TunnelStep [OF StartTunnel Server [OF Sends, where x1 = x]]
    by (simp add: startTunnel_def startBridge_def startHalf_def)
  from TunnelStep [OF this Server [OF Ends]]
  have "tunnelReach cw (?t (startHalf\<lparr>hf_Sent := x, hf_Ended := True\<rparr>))"
    by (simp add: startTunnel_def startBridge_def)
  from TunnelStep [OF this AgentOut [OF Takes [where n = "length x"]]]
  have "tunnelReach cw (?t (heard x))"
    by (simp add: startTunnel_def startBridge_def heard_def startHalf_def)
  from agent_runs [OF copies_out [where b = "startBridge\<lparr>br_Out := heard x\<rparr>"] this] heard_passed [OF assms]
  have "tunnelReach cw (?t (passed False x))"
    by (simp add: startTunnel_def startBridge_def)
  moreover have "bridgeStep agentMainPart True False (startBridge\<lparr>br_Out := passed False x\<rparr>)
      (startBridge\<lparr>br_Out := passed False x, br_Phase := Returned\<rparr>)"
    using Main [of agentMainPart "startBridge\<lparr>br_Out := passed False x\<rparr>" Returned True False]
    by (simp add: agentMainPart_def startBridge_def passed_def halfDone_def finishHalf_def)
  ultimately show ?thesis using TunnelStep [OF _ AgentRuns] by fastforce
qed

lemma closedTunnel_reach:
  assumes "x \<noteq> []" "length x \<le> copyBuffer"
  shows "tunnelReach True (closedTunnel x)"
proof -
  let ?a = "startBridge\<lparr>br_Out := passed False x, br_Phase := Returned\<rparr>"
  let ?t = "\<lambda>b. \<lparr>tu_Hub = b, tu_Agent = ?a, tu_Lost = False\<rparr>"
  let ?b = "\<lambda>h. startBridge\<lparr>br_Out := h\<rparr>"
  note defs = startBridge_def startHalf_def passed_def heard_def finishHalf_def
  have "tunnelReach True (?t (?b startHalf))"
    using agent_half [OF assms, of True] by (simp add: startTunnel_def startBridge_def)
  from TunnelStep [OF this ToHub [OF Arrives [where x = x]]]
  have "tunnelReach True (?t (?b (startHalf\<lparr>hf_Sent := x\<rparr>)))" by (simp add: defs)
  from TunnelStep [OF this ToHub [OF Closes]]
  have "tunnelReach True (?t (?b (startHalf\<lparr>hf_Sent := x, hf_Ended := True\<rparr>)))"
    by (simp add: defs closesStream_def)
  from TunnelStep [OF this HubOut [OF Takes [where n = "length x"]]]
  have "tunnelReach True (?t (?b (heard x)))" by (simp add: defs)
  from hub_runs [OF copies_out [where b = "?b (heard x)"] this] heard_passed [OF assms]
  have out: "tunnelReach True (?t (?b (passed True x)))" by (simp add: startBridge_def)
  let ?one = "?b (passed True x)\<lparr>br_Phase := OneDone\<rparr>"
  have "bridgeStep proxyMain True True (?b (passed True x)) ?one"
    by (rule Main) (simp add: proxyMain_def defs halfDone_def)
  with TunnelStep [OF out HubRuns] have "tunnelReach True (?t ?one)" by simp
  from TunnelStep [OF this Client [OF Ends]]
  have inEnds: "tunnelReach True (?t (?one\<lparr>br_In := startHalf\<lparr>hf_Ended := True\<rparr>\<rparr>))"
    by (simp add: startBridge_def)
  have "copyStep True (startHalf\<lparr>hf_Ended := True\<rparr>) (passed True [])"
    using EOF [of "startHalf\<lparr>hf_Ended := True\<rparr>" True] by (simp add: defs unread_def)
  then have "bridgeStep proxyMain True True (?one\<lparr>br_In := startHalf\<lparr>hf_Ended := True\<rparr>\<rparr>)
      (?one\<lparr>br_In := passed True []\<rparr>)"
    using CopyIn [of "?one\<lparr>br_In := startHalf\<lparr>hf_Ended := True\<rparr>\<rparr>" True "passed True []" proxyMain True]
    by simp
  with TunnelStep [OF inEnds HubRuns] have done2: "tunnelReach True (?t (?one\<lparr>br_In := passed True []\<rparr>))"
    by simp
  have "bridgeStep proxyMain True True (?one\<lparr>br_In := passed True []\<rparr>)
      (?one\<lparr>br_In := passed True [], br_Phase := Returned\<rparr>)"
    using Main [of proxyMain "?one\<lparr>br_In := passed True []\<rparr>" Returned True True]
    by (simp add: proxyMain_def passed_def finishHalf_def halfDone_def)
  with TunnelStep [OF done2 HubRuns] show ?thesis
    by (simp add: closedTunnel_def startBridge_def)
qed

subsection \<open>Properties\<close>

text \<open>C3: the tunnel carries bytes. Whatever the steps of the client, the server, the two bridges
  and the stream between them, the server has got a prefix of what the client sent and the client a
  prefix of what the server sent. Unless the session was lost, a copy of that direction failed, or the
  hub's five seconds ran out: when the hub's bridge has returned, the server had ended its output and the
  client has got all of it; and when the server is told that no more follows, the client had ended its
  input and the server has got all of it.\<close>

theorem tunnel_carries_bytes:
  assumes "tunnelReach cw t" and "h = tu_Hub t" and "a = tu_Agent t"
  shows "prefix (hf_Written (br_In a)) (hf_Sent (br_In h)) \<and>
    prefix (hf_Written (br_Out h)) (hf_Sent (br_Out a)) \<and>
    (\<not> tu_Lost t \<and> \<not> br_Expired h \<longrightarrow>
      (br_Phase h = Returned \<and> Broken \<notin> {hf_State (br_Out a), hf_State (br_Out h)} \<longrightarrow>
         hf_Ended (br_Out a) \<and> hf_Written (br_Out h) = hf_Sent (br_Out a)) \<and>
      (hf_CloseWritten (br_In a) \<and> Broken \<notin> {hf_State (br_In h), hf_State (br_In a)} \<longrightarrow>
         hf_Ended (br_In h) \<and> hf_Written (br_In a) = hf_Sent (br_In h)))"
proof -
  from tunnelInv_reach [OF assms(1)] have hub: "proxyBridge cw h" and agent: "agentBridge a"
    and links: "linkOK (closesStream h (br_In h)) (tu_Lost t) (br_In h) (br_In a)"
      "linkOK (closesStream a (br_Out a)) (tu_Lost t) (br_Out a) (br_Out h)"
    by (simp_all add: tunnelInv_def assms(2,3))
  have inv: "halfInv (br_In h)" "halfInv (br_Out h)" "halfInv (br_In a)" "halfInv (br_Out a)"
    using proxyBridge_inv [OF hub] agentBridge_inv [OF agent] by (simp_all add: bridgeInv_def)
  have whole: "prefix (hf_Written r) (hf_Sent w)"
    if "halfInv w" "halfInv r" "linkOK shut lost w r" for shut lost w r
    using halfInv_written [OF that(1)] halfInv_written [OF that(2)] that(3) prefix_order.trans
    unfolding linkOK_def by metis
  note hub' = proxy_returned [OF hub [unfolded proxyBridge_def]]
  note agent' = agent_returned [OF agent [unfolded agentBridge_def]]
  have fromServer: "hf_Ended (br_Out a) \<and> hf_Written (br_Out h) = hf_Sent (br_Out a)"
    if "\<not> tu_Lost t" "\<not> br_Expired h" "br_Phase h = Returned" "hf_State (br_Out h) \<noteq> Broken"
      "hf_State (br_Out a) \<noteq> Broken"
  proof -
    from hub' that have "hf_State (br_Out h) = AtEOF"
      by (cases "hf_State (br_Out h)") (auto simp: halfDone_def)
    with inv(2) links(2) that(1) have "closesStream a (br_Out a)" "hf_Written (br_Out h) = hf_Written (br_Out a)"
      by (auto simp: halfInv_def linkOK_def)
    moreover from this(1) inv(4) agent' have "halfDone (br_Out a)"
      by (auto simp: closesStream_def halfInv_def)
    then have "hf_State (br_Out a) = AtEOF"
      using that(5) by (cases "hf_State (br_Out a)") (auto simp: halfDone_def)
    ultimately show ?thesis using inv(4) by (simp add: halfInv_def)
  qed
  have fromClient: "hf_Ended (br_In h) \<and> hf_Written (br_In a) = hf_Sent (br_In h)"
    if "\<not> tu_Lost t" "\<not> br_Expired h" "hf_CloseWritten (br_In a)" "hf_State (br_In h) \<noteq> Broken"
      "hf_State (br_In a) \<noteq> Broken"
  proof -
    from inv(3) that have "hf_State (br_In a) = AtEOF"
      by (cases "hf_State (br_In a)") (auto simp: halfDone_def halfInv_def)
    with inv(3) links(1) that(1) have "closesStream h (br_In h)" "hf_Written (br_In a) = hf_Written (br_In h)"
      by (auto simp: halfInv_def linkOK_def)
    moreover from this(1) inv(1) hub' that(2) have "halfDone (br_In h)"
      by (auto simp: closesStream_def halfInv_def)
    then have "hf_State (br_In h) = AtEOF"
      using that(4) by (cases "hf_State (br_In h)") (auto simp: halfDone_def)
    ultimately show ?thesis using inv(1) by (simp add: halfInv_def)
  qed
  from whole [OF inv(1,3) links(1)] whole [OF inv(4,2) links(2)] fromServer fromClient show ?thesis by auto
qed
theorem tunnel_carries_bytes_witness:
  "hf_Written (br_Out (tu_Hub (closedTunnel ''uptime''))) = ''uptime'' \<and>
   hf_Ended (br_Out (tu_Agent (closedTunnel ''uptime'')))"
proof -
  have "tunnelReach True (closedTunnel ''uptime'')"
    by (rule closedTunnel_reach) (simp_all add: copyBuffer_def)
  from tunnel_carries_bytes [OF this refl refl] show ?thesis
    by (simp add: closedTunnel_def passed_def finishHalf_def startHalf_def)
qed


end
