(* ===== verification/Sign_Tool.thy ===== *)
theory Sign_Tool
  imports Release
begin

text \<open>
  The commands of \<open>cmd/sshhub-sign/main.go\<close> around the manifest that \<open>Release\<close> models: the choice
  of the command, key generation as it is printed, and where the signed manifest goes. A
  directory joined with a name is \<open>InDir\<close>.
\<close>

datatype signCommand = SignUsage | Keygen | ManifestCommand "string list"

definition signCommandOf :: "string list \<Rightarrow> signCommand" where
  "signCommandOf osArgs =
     (if length osArgs < 2 then SignUsage
      else if osArgs ! 1 = ''keygen'' then Keygen
      else if osArgs ! 1 = ''manifest'' then ManifestCommand (drop 2 osArgs)
      else SignUsage)"

text \<open>The key pair that was generated; the private and the public key as they are shown.\<close>

definition keygen :: "(string \<times> string) option \<Rightarrow> (string \<times> string) option" where
  "keygen generated =
     (case generated of
        None \<Rightarrow> None
      | Some (pub, priv) \<Rightarrow> Some (StdEncode priv, StdEncode pub))"

datatype outPath = OutFile string | InDir string string

datatype signFatal = ManifestFatal signToolError | WriteFailed outPath

record signOutput =
  so_Path :: outPath
  so_Data :: string
  so_Listing :: "(string \<times> string) list"
  so_Urgent :: "string option"

definition outPathOf :: "signArgs \<Rightarrow> outPath" where
  "outPathOf a = (if sa_out a = [] then InDir (sa_dir a) ''sshhub-manifest.json'' else OutFile (sa_out a))"

definition listing :: "Manifest \<Rightarrow> (string \<times> string) list" where
  "listing m = map (\<lambda>n. (case map_of (mf_Artifacts m) n of Some d \<Rightarrow> d | None \<Rightarrow> [], n)) (ArtifactNames m)"

text \<open>The command \<open>manifest\<close>: \<open>writable\<close> says whether the file can be written.\<close>

definition signTool ::
  "releaseLib \<Rightarrow> string \<Rightarrow> (string \<Rightarrow> string option) \<Rightarrow> (string \<Rightarrow> dirEntry list option) \<Rightarrow> time \<Rightarrow>
   (outPath \<Rightarrow> bool) \<Rightarrow> string list \<Rightarrow> signFatal + signOutput" where
  "signTool lib environment readFile readDir now writable args =
     (case signManifest lib environment readFile readDir now args of
        Inl err \<Rightarrow> Inl (ManifestFatal err)
      | Inr (m, data) \<Rightarrow>
          (case parseSignArgs \<lparr>sa_version = [], sa_dir = [], sa_urgent = [], sa_key = [], sa_out = []\<rparr> args of
             Inl err \<Rightarrow> Inl (ManifestFatal err)
           | Inr a \<Rightarrow>
               if \<not> writable (outPathOf a) then Inl (WriteFailed (outPathOf a))
               else Inr \<lparr>so_Path = outPathOf a, so_Data = data, so_Listing = listing m,
                         so_Urgent = (if mf_Urgent m then Some (mf_UrgentReason m) else None)\<rparr>))"

lemma signTool_Inr:
  assumes "signTool lib env readFile readDir now writable args = Inr out"
  obtains m where "signManifest lib env readFile readDir now args = Inr (m, so_Data out)"
    "so_Listing out = listing m" "so_Urgent out = (if mf_Urgent m then Some (mf_UrgentReason m) else None)"
  using assms by (auto simp: signTool_def split: sum.splits if_splits)

text \<open>The key of a run that names no key file is the one in the environment.\<close>

lemma signManifest_key:
  assumes "signManifest lib env readFile readDir now args = Inr (m, data)"
    and "\<And>a. parseSignArgs \<lparr>sa_version = [], sa_dir = [], sa_urgent = [], sa_key = [], sa_out = []\<rparr> args = Inr a
      \<Longrightarrow> sa_key a = []"
  shows "\<exists>(a :: signArgs) priv es sm. readDir (sa_dir a) = Some es \<and> mf_Artifacts m = releaseArchives lib es \<and>
    mf_Artifacts m \<noteq> [] \<and> mf_SchemaVersion m = ManifestVersion \<and>
    loadPrivateKey env readFile [] = Inr priv \<and> Sign lib m priv = Inr sm \<and> marshalSigned lib sm = Some data"
  using assms by (clarsimp simp: signManifest_def Let_def dest!: hashEntries_archives) metis

lemma TrustedKey_encoded: "length k = PublicKeySize \<Longrightarrow> TrustedKey (StdEncode k) [] = Some k"
  using ParsePublicKey_encoded(1) [of k] by (auto simp: TrustedKey_def ParsePublicKey_def)

lemma listing_mem:
  assumes "distinct (map fst (mf_Artifacts m))"
  shows "set (listing m) = (\<lambda>(n, d). (d, n)) ` set (mf_Artifacts m)"
proof -
  have "map_of (mf_Artifacts m) (fst p) = Some (snd p)" if "p \<in> set (mf_Artifacts m)" for p
    using assms that by simp
  then show ?thesis
    by (force simp: listing_def ArtifactNames_def image_image case_prod_beta intro!: image_cong)
qed

lemma releaseArchives_distinct:
  assumes "distinct (map fst es)"
  shows "distinct (map fst (releaseArchives lib es))"
  using assms
proof (induction es)
  case (Cons e es)
  have step: "releaseArchives lib (e # es) = releaseArchives lib [e] @ releaseArchives lib es"
    by (simp add: releaseArchives_def)
  have "map fst (releaseArchives lib [e]) \<in> {[], [fst e]}"
    by (auto simp: releaseArchives_def split: prod.splits entryContent.splits option.splits)
  moreover have "fst e \<notin> fst ` set (releaseArchives lib es)"
  proof
    assume "fst e \<in> fst ` set (releaseArchives lib es)"
    then obtain d where "(fst e, d) \<in> set (releaseArchives lib es)" by auto
    then obtain bytes where "(fst e, Contents bytes) \<in> set es" unfolding releaseArchives_mem by blast
    then have "fst e \<in> fst ` set es" using image_eqI [of "fst e" fst "(fst e, Contents bytes)"] by simp
    with Cons.prems show False by simp
  qed
  ultimately show ?case using Cons by (auto simp: step simp flip: set_map simp del: map_append)
qed (simp add: releaseArchives_def)

subsection \<open>Properties\<close>

text \<open>C23: generated keys publish releases that hubs accept. When the tool generated a key pair, the
  private key it showed signs (put into the environment), and the program is built with the
  public key it showed, then what the tool writes verifies under the program's trusted key; every
  archive of the directory passes its digest check, and the listing shows exactly these digests.\<close>

theorem published_release_accepted:
  assumes gen: "keygen (Some (pub, priv)) = Some (shownPriv, shownPub)"
      "length pub = PublicKeySize" "length priv = PrivateKeySize"
      "\<And>body. ed25519_Sign lib priv body \<noteq> [] \<and> ed25519_Verify lib pub body (ed25519_Sign lib priv body)"
    and run: "signTool lib shownPriv readFile readDir now writable args = Inr out"
      "\<And>a. parseSignArgs \<lparr>sa_version = [], sa_dir = [], sa_urgent = [], sa_key = [], sa_out = []\<rparr> args = Inr a
        \<Longrightarrow> sa_key a = []"
    and json: "\<And>sm d. marshalSigned lib sm = Some d \<Longrightarrow> unmarshalSigned lib d = Some sm"
      "\<And>m d body. signManifest lib shownPriv readFile readDir now args = Inr (m, d) \<Longrightarrow>
        marshalManifest lib m = Some body \<Longrightarrow> body \<noteq> [] \<and> unmarshalManifest lib body = Some m"
    and dir: "\<And>d es. readDir d = Some es \<Longrightarrow> es = entries" "distinct (map fst entries)"
  shows "\<exists>k m. TrustedKey shownPub [] = Some k \<and> Verify lib (so_Data out) k = Inr m \<and>
    list_all (\<lambda>(n, content). case content of Contents bytes \<Rightarrow>
        if hasSuffix n ''.tar.gz'' then VerifyArtifact lib m n bytes = Inr () else True
      | _ \<Rightarrow> True)
      entries \<and>
    set (so_Listing out) = (\<lambda>(n, d). (d, n)) ` set (mf_Artifacts m)"
proof -
  have shown: "shownPriv = StdEncode priv" "shownPub = StdEncode pub"
    using gen(1) by (simp_all add: keygen_def)
  obtain m where m: "signManifest lib shownPriv readFile readDir now args = Inr (m, so_Data out)"
    "so_Listing out = listing m"
    using run(1) by (rule signTool_Inr)
  from signManifest_key [OF m(1) run(2)] obtain a :: signArgs and k es sm where
    es: "readDir (sa_dir a) = Some es" "mf_Artifacts m = releaseArchives lib es"
    and mf: "mf_Artifacts m \<noteq> []" "mf_SchemaVersion m = ManifestVersion"
    and key: "loadPrivateKey shownPriv readFile [] = Inr k"
    and sm: "Sign lib m k = Inr sm" "marshalSigned lib sm = Some (so_Data out)"
    by blast
  have "k = priv" using key loadPrivateKey_base64 [OF gen(3)] by (simp add: shown)
  then have "Verify lib (so_Data out) pub = Inr m"
    using Sign_Verify [OF sm(1) gen(2) json(1) [OF sm(2)] json(2) [OF m(1)] _ mf(2,1)] gen(4) by blast
  moreover have entries: "es = entries" using dir(1) es(1) by blast
  moreover have "set (so_Listing out) = (\<lambda>(n, d). (d, n)) ` set (mf_Artifacts m)"
    using listing_mem releaseArchives_distinct dir(2) es(2) entries m(2) by simp
  ultimately show ?thesis
    using TrustedKey_encoded [OF gen(2)] es(2) releaseArchives_map_of [OF dir(2)]
    by (auto simp: shown list_all_iff VerifyArtifact_Inr split: entryContent.splits option.splits)
qed

theorem published_release_accepted_witness:
  "\<exists>k m. TrustedKey (StdEncode (replicate 32 CHR ''p'')) [] = Some k \<and>
     Verify exampleLib (StdEncode ''m'' @ '','' @ StdEncode ''sig'') k = Inr m \<and>
     VerifyArtifact exampleLib m ''sshhub-linux-amd64.tar.gz'' ''gz'' = Inr ()"
proof -
  let ?readDir = "\<lambda>d. if d = ''dist'' then Some exampleEntries else None"
  let ?out = "\<lparr>so_Path = InDir ''dist'' ''sshhub-manifest.json'',
    so_Data = StdEncode ''m'' @ '','' @ StdEncode ''sig'', so_Listing = listing exampleManifest,
    so_Urgent = Some ''fix''\<rparr>"
  have args: "parseSignArgs \<lparr>sa_version = [], sa_dir = [], sa_urgent = [], sa_key = [], sa_out = []\<rparr> exampleArgs =
      Inr \<lparr>sa_version = ''v0.5.0'', sa_dir = ''dist'', sa_urgent = ''fix'', sa_key = [], sa_out = []\<rparr>"
    by (simp add: exampleArgs_def)
  have "signTool exampleLib (StdEncode (replicate 64 CHR ''k'')) (\<lambda>_. None) ?readDir 7123456789
      (\<lambda>_. True) exampleArgs = Inr ?out"
    using exampleManifest_signed args
    by (simp add: signTool_def outPathOf_def exampleManifest_def)
  then have "\<exists>k m. TrustedKey (StdEncode (replicate 32 CHR ''p'')) [] = Some k \<and>
      Verify exampleLib (so_Data ?out) k = Inr m \<and>
      list_all (\<lambda>(n, content). case content of Contents bytes \<Rightarrow>
          if hasSuffix n ''.tar.gz'' then VerifyArtifact exampleLib m n bytes = Inr () else True
        | _ \<Rightarrow> True)
        exampleEntries \<and>
      set (so_Listing ?out) = (\<lambda>(n, d). (d, n)) ` set (mf_Artifacts m)"
    using args
    by (intro published_release_accepted [where priv = "replicate 64 CHR ''k''"
          and pub = "replicate 32 CHR ''p''"])
      (auto simp: keygen_def exampleLib_def PublicKeySize_def PrivateKeySize_def exampleEntries_def
        split: if_splits)
  then show ?thesis by (auto simp: exampleEntries_def hasSuffix_def)
qed

end
