(* ===== verification/Listener.thy ===== *)
theory Listener
  imports Proxy
begin

text \<open>
  The SSH listener under load: \<open>internal/proxy/proxy.go\<close> together with
  \<open>internal/ratelimit/ratelimit.go\<close>. The labels of a run of the listener say what it does with
  its limiter, and the limiter's promises become promises of the listener.
\<close>

subsection \<open>Runs\<close>

inductive proxyRun ::
  "Config \<Rightarrow> ServerConfig \<Rightarrow> (ServerConfig \<Rightarrow> 'c \<Rightarrow> ServerConn option) \<Rightarrow> 'c Proxy \<Rightarrow>
   proxyLabel list \<Rightarrow> 'c Proxy \<Rightarrow> bool"
  for cfg conf handshake where
  Idle: "proxyRun cfg conf handshake p [] p"
| Next: "proxyEvent cfg conf handshake lab p p' \<Longrightarrow> proxyRun cfg conf handshake p' labs p'' \<Longrightarrow>
    proxyRun cfg conf handshake p (lab # labs) p''"

inductive_simps proxyRun_Nil [simp]: "proxyRun cfg conf handshake p [] p'"
inductive_simps proxyRun_Cons: "proxyRun cfg conf handshake p (lab # labs) p'"

text \<open>The calls of the limiter behind a label.\<close>

fun limiterOps :: "proxyLabel \<Rightarrow> (time \<times> rlOp) list" where
  "limiterOps (Turned addr now reason) = [(now, OpAcquire addr)]"
| "limiterOps (Took addr now n) = [(now, OpAcquire addr)]"
| "limiterOps (NoPlace addr now n) = [(now, OpAcquire addr), (now, OpRelease n)]"
| "limiterOps (GaveBack now n) = [(now, OpRelease n)]"
| "limiterOps (Noted addr now) = [(now, OpFailure addr)]"
| "limiterOps (Cleared addr now) = [(now, OpSuccess addr)]"
| "limiterOps Quiet = []"

definition runOps :: "proxyLabel list \<Rightarrow> (time \<times> rlOp) list" where
  "runOps labs = concat (map limiterOps labs)"

text \<open>An attempt to connect, and a connection that was taken, of a source.\<close>

fun attempt :: "proxyLabel \<Rightarrow> (string option \<times> time) option" where
  "attempt (Turned addr now reason) = Some (addr, now)"
| "attempt (Took addr now n) = Some (addr, now)"
| "attempt (NoPlace addr now n) = Some (addr, now)"
| "attempt lab = None"

fun_cases attemptE: "attempt lab = Some (addr, now)"

fun takesFor :: "string \<Rightarrow> proxyLabel \<Rightarrow> bool" where
  "takesFor k (Took addr now n) \<longleftrightarrow> key addr = k"
| "takesFor k lab \<longleftrightarrow> False"

fun failsFor :: "string \<Rightarrow> proxyLabel \<Rightarrow> bool" where
  "failsFor k (Noted addr now) \<longleftrightarrow> key addr = k"
| "failsFor k lab \<longleftrightarrow> False"

fun clearsFor :: "string \<Rightarrow> proxyLabel \<Rightarrow> bool" where
  "clearsFor k (Cleared addr now) \<longleftrightarrow> key addr = k"
| "clearsFor k lab \<longleftrightarrow> False"

subsection \<open>The limiter sees exactly these calls\<close>

lemma rlRun_append: "rlRun l (es @ fs) = rlRun (rlRun l es) fs"
  by (simp add: rlRun_def)

lemma limiter_event:
  "proxyEvent cfg conf handshake lab p p' \<Longrightarrow> px_limiter p' = rlRun (px_limiter p) (limiterOps lab)"
  by (induction rule: proxyEvent.induct) (simp_all add: rlRun_def)

lemma limiter_run:
  "proxyRun cfg conf handshake p labs p' \<Longrightarrow> px_limiter p' = rlRun (px_limiter p) (runOps labs)"
proof (induction rule: proxyRun.induct)
  case (Idle p)
  show ?case by (simp add: runOps_def rlRun_def)
next
  case (Next lab p p' labs p'')
  then show ?case by (simp add: runOps_def rlRun_append limiter_event [OF Next(1)])
qed

lemma proxyRun_reach:
  "proxyRun cfg conf handshake p labs p' \<Longrightarrow> proxyReach cfg conf handshake p \<Longrightarrow>
   proxyReach cfg conf handshake p'"
  by (induction rule: proxyRun.induct) (auto intro: proxyReach.Step proxyStepI)

lemma admissions_append:
  "admissions k l (es @ fs) = admissions k l es + admissions k (rlRun l es) fs"
  by (induction es arbitrary: l) (simp_all add: rlRun_def)

text \<open>Every connection taken was admitted by the limiter.\<close>

lemma takes_admitted:
  "proxyEvent cfg conf handshake lab p p' \<Longrightarrow>
   of_bool (takesFor k lab) \<le> admissions k (px_limiter p) (limiterOps lab)"
  by (induction rule: proxyEvent.induct) simp_all

lemma run_admissions:
  "proxyRun cfg conf handshake p labs p' \<Longrightarrow>
   length (filter (takesFor k) labs) \<le> admissions k (px_limiter p) (runOps labs)"
proof (induction rule: proxyRun.induct)
  case (Next lab p p' labs p'')
  from takes_admitted [OF Next(1), of k] Next(3) show ?case
    by (cases "takesFor k lab")
      (simp_all add: runOps_def admissions_append limiter_event [OF Next(1)])
qed simp

text \<open>An attempt is decided by the limiter alone, unless all places are taken.\<close>

lemma attempt_decided:
  assumes "proxyEvent cfg conf handshake lab p p'" "attempt lab = Some (addr, now)"
    and "fst (fst (Acquire (px_limiter p) addr now)) = reason" "reason \<noteq> Allowed"
  shows "lab = Turned addr now reason \<and> px_conns p' = px_conns p \<and> px_slots p' = px_slots p"
  using assms by (induction rule: proxyEvent.induct) simp_all

text \<open>Every attempt is answered, in every state.\<close>

lemma attempt_made:
  "\<exists>lab p'. proxyEvent cfg conf handshake lab p p' \<and> attempt lab = Some (addr, now)"
proof -
  obtain reason rel l where acq: "Acquire (px_limiter p) addr now = ((reason, rel), l)"
    by (metis prod.exhaust)
  show ?thesis
  proof (cases "reason = Allowed")
    case False
    from Refused [OF acq False] show ?thesis by fastforce
  next
    case True
    with lim_releases_Acquire [OF acq] acq obtain n
      where "Acquire (px_limiter p) addr now = ((Allowed, Some n), l)"
      by (auto split: option.splits)
    from Accepted [OF this] NoSlot [OF this] show ?thesis by fastforce
  qed
qed

lemma fails_failures: "length (filter (failureOf k) (runOps labs)) = length (filter (failsFor k) labs)"
proof (induction labs)
  case (Cons lab labs)
  then show ?case by (cases lab) (simp_all add: runOps_def)
qed (simp add: runOps_def)

lemma clears_successes:
  assumes "list_all (\<lambda>lab. \<not> clearsFor k lab \<and>
      list_all (\<lambda>e. t0 \<le> fst e \<and> fst e < t1) (limiterOps lab)) labs"
  shows "list_all (\<lambda>e. t0 \<le> fst e \<and> fst e < t1 \<and> \<not> successOf k e) (runOps labs)"
  using assms
proof (induction labs)
  case (Cons lab labs)
  then show ?case by (cases lab) (simp_all add: runOps_def)
qed (simp add: runOps_def)

lemma start_limiter: "px_limiter startProxy = NewLimiter DefaultConfig"
  by (simp add: startProxy_def)

subsection \<open>A client that guesses\<close>

text \<open>One guess of a client without a key: taken, refused by the handshake, and noted.\<close>

definition guess :: "string option \<Rightarrow> time \<Rightarrow> nat \<Rightarrow> proxyLabel list" where
  "guess addr now n = [Took addr now n, GaveBack now n, Noted addr now]"

lemma guess_run:
  fixes p :: "'c Proxy" and client :: 'c
  assumes "fst (fst (Acquire (px_limiter p) addr now)) = Allowed" "px_slots p < connectionSlots"
    and "n = length (lim_releases (px_limiter p))"
  shows "\<exists>p'. proxyRun cfg conf handshake p (guess addr now n) p' \<and> px_slots p' = px_slots p"
proof -
  obtain l where acq: "Acquire (px_limiter p) addr now = ((Allowed, Some n), l)"
    using assms(1,3) lim_releases_Acquire [of "px_limiter p" addr now]
    by (cases "Acquire (px_limiter p) addr now") (auto split: option.splits)
  define p1 where "p1 = p\<lparr>px_limiter := l,
    px_conns := (px_conns p)(px_next p \<mapsto> Handshaking addr n client),
    px_slots := px_slots p + 1, px_next := Suc (px_next p)\<rparr>"
  define p2 where "p2 = (setConn p1 (px_next p) (Judging addr client None))
    \<lparr>px_limiter := release (px_limiter p1) n\<rparr>"
  define p3 where "p3 = (endConn p2 (px_next p))\<lparr>px_limiter := RecordFailure (px_limiter p2) addr now\<rparr>"
  have 1: "proxyEvent cfg conf handshake (Took addr now n) p p1"
    unfolding p1_def by (rule Accepted [OF acq assms(2)])
  have 2: "proxyEvent cfg conf handshake (GaveBack now n) p1 p2"
    unfolding p2_def by (rule HandshakeEnds) (simp_all add: p1_def)
  have 3: "proxyEvent cfg conf handshake (Noted addr now) p2 p3"
    unfolding p3_def by (rule Failed) (simp add: p2_def setConn_def)
  have "proxyRun cfg conf handshake p (guess addr now n) p3"
    unfolding guess_def by (rule Next [OF 1 Next [OF 2 Next [OF 3 Idle]]])
  moreover have "px_slots p3 = px_slots p"
    by (simp add: p3_def p2_def p1_def endConn_def setConn_def)
  ultimately show ?thesis by blast
qed

lemma proxyRun_append:
  "proxyRun cfg conf handshake p labs p' \<Longrightarrow> proxyRun cfg conf handshake p' labs' p'' \<Longrightarrow>
   proxyRun cfg conf handshake p (labs @ labs') p''"
  by (induction rule: proxyRun.induct) (auto intro: proxyRun.Next)

abbreviation "guesser \<equiv> Some ''10.0.0.7:4000''"

lemma key_guesser: "key guesser = ''10.0.0.7''"
  by code_simp

text \<open>The limiter after \<open>j\<close> guesses at one moment from one address, the tenth aside.\<close>

definition spent :: "nat \<Rightarrow> source" where
  "spent j = \<lparr>src_tokens = of_int (10 - int j), src_lastRefill = 5, src_inFlight = 0,
     src_failures = replicate j 5, src_blockedTil = 0, src_lastSeen = 5\<rparr>"

definition guessedTimes :: "nat \<Rightarrow> Limiter \<Rightarrow> bool" where
  "guessedTimes j l \<longleftrightarrow> lim_cfg l = DefaultConfig \<and> length (lim_releases l) = j \<and>
     lim_sources l ''10.0.0.7'' = (if j = 0 then None else Some (spent j))"

lemma guessed_found:
  assumes "guessedTimes j l"
  shows "found (evictLocked l 5) ''10.0.0.7'' 5 = spent j"
proof (cases "j = 0")
  case True
  with assms show ?thesis
    by (simp add: guessedTimes_def evictLocked_source found_None spent_def DefaultConfig_def)
next
  case False
  have "\<not> evicts DefaultConfig 5 (spent j)"
    by (simp add: evicts_def spent_def timeSub_def DefaultConfig_def min_duration_def
        max_duration_def)
  with False assms show ?thesis
    by (simp add: guessedTimes_def evictLocked_source found_Some) (simp add: spent_def)
qed

lemma refill_spent: "refill cfg 5 (spent j) = spent j"
  using durationSeconds_nonpos [of 0]
  by (simp add: refill_def spent_def timeSub_def min_duration_def max_duration_def Let_def)

lemma guessed_Acquire:
  assumes "guessedTimes j l" "j < 10"
  shows "Acquire l guesser 5 = ((Allowed, Some j),
    (evictLocked l 5)\<lparr>lim_sources := (lim_sources (evictLocked l 5))
       (''10.0.0.7'' \<mapsto> takeToken (spent j)),
     lim_releases := lim_releases l @ [Some ''10.0.0.7'']\<rparr>)"
  using assms guessed_found [OF assms(1)]
  by (simp add: Acquire_cases key_guesser refill_spent guessedTimes_def)
    (simp add: spent_def DefaultConfig_def)

text \<open>The source once the guess is in, once its slot is back, and once the failure is noted.\<close>

lemma spent_taken:
  assumes "j < 10"
  shows "takeToken (spent j) = (spent j)\<lparr>src_tokens := of_int (10 - int (Suc j)), src_inFlight := 1\<rparr>"
  using assms f64_of_int [of "9 - int j"] by (simp add: takeToken_def spent_def)

lemma spent_noted:
  assumes "Suc j < 10"
  shows "noteFailure DefaultConfig 5
    ((spent j)\<lparr>src_tokens := of_int (10 - int (Suc j)), src_inFlight := 0\<rparr>) = spent (Suc j)"
proof -
  have "filter (\<lambda>f. 5 - 5 * minute < f) (replicate j 5) @ [5] = replicate (Suc j) (5 :: int)"
    by (simp add: replicate_append_same)
  with assms show ?thesis
    unfolding noteFailure_def by (simp add: spent_def DefaultConfig_def Let_def)
qed

lemma guessed_Suc:
  assumes "guessedTimes j l" "Suc j < 10"
  shows "guessedTimes (Suc j) (rlRun l (runOps (guess guesser 5 j)))"
proof -
  define l1 where "l1 = snd (Acquire l guesser 5)"
  have j: "length (lim_releases l) = j" and cfg: "lim_cfg l = DefaultConfig"
    using assms(1) by (simp_all add: guessedTimes_def)
  have l1: "lim_cfg l1 = DefaultConfig" "lim_releases l1 = lim_releases l @ [Some ''10.0.0.7'']"
    "lim_sources l1 ''10.0.0.7'' = Some (takeToken (spent j))"
    using guessed_Acquire [OF assms(1)] assms(2) by (simp_all add: l1_def cfg)
  define s where "s = (spent j)\<lparr>src_tokens := of_int (10 - int (Suc j)), src_inFlight := 0\<rparr>"
  have l2: "lim_cfg (release l1 j) = DefaultConfig" "length (lim_releases (release l1 j)) = Suc j"
    "lim_sources (release l1 j) ''10.0.0.7'' = Some s"
    using l1 j spent_taken [of j] assms(2)
    by (simp_all add: release_def nth_append s_def lim_releases_release)
  have "found (release l1 j) ''10.0.0.7'' 5 = s"
    by (simp add: found_Some [OF l2(3)]) (simp add: s_def spent_def)
  with l2 spent_noted [OF assms(2), folded s_def]
  have "guessedTimes (Suc j) (RecordFailure (release l1 j) guesser 5)"
    by (simp add: guessedTimes_def RecordFailure_eq key_guesser)
  then show ?thesis by (simp add: runOps_def guess_def l1_def)
qed

definition guesses :: "nat \<Rightarrow> proxyLabel list" where
  "guesses j = concat (map (guess guesser 5) [0..<j])"

lemma guesses_Suc: "guesses (Suc j) = guesses j @ guess guesser 5 j"
  by (simp add: guesses_def)

lemma guesses_run:
  assumes "j \<le> 10"
  shows "\<exists>p :: 'c Proxy. proxyRun cfg conf handshake startProxy (guesses j) p \<and> px_slots p = 0 \<and>
    (j = 10 \<or> guessedTimes j (px_limiter p))"
  using assms
proof (induction j)
  case 0
  show ?case by (simp add: guesses_def startProxy_def guessedTimes_def NewLimiter_def)
next
  case (Suc j)
  then obtain p :: "'c Proxy"
    where p: "proxyRun cfg conf handshake startProxy (guesses j) p" "px_slots p = 0"
      "guessedTimes j (px_limiter p)"
    by auto
  have "fst (fst (Acquire (px_limiter p) guesser 5)) = Allowed"
    using guessed_Acquire [OF p(3)] Suc.prems by simp
  moreover have "px_slots p < connectionSlots" using p(2) by (simp add: connectionSlots_def)
  moreover have "j = length (lim_releases (px_limiter p))"
    using p(3) by (simp add: guessedTimes_def)
  ultimately obtain p'
    where p': "proxyRun cfg conf handshake p (guess guesser 5 j) p'" "px_slots p' = px_slots p"
    using guess_run by blast
  have "Suc j = 10 \<or> guessedTimes (Suc j) (px_limiter p')"
  proof (cases "Suc j = 10")
    case False
    with Suc.prems guessed_Suc [OF p(3)] show ?thesis by (simp add: limiter_run [OF p'(1)])
  qed simp
  moreover have "proxyRun cfg conf handshake startProxy (guesses (Suc j)) p'"
    unfolding guesses_Suc by (rule proxyRun_append [OF p(1) p'(1)])
  ultimately show ?case using p(2) p'(2) by auto
qed

subsection \<open>Properties\<close>

definition attemptsFor :: "string \<Rightarrow> proxyLabel list \<Rightarrow> nat" where
  "attemptsFor k labs =
     length (filter (\<lambda>lab. case attempt lab of None \<Rightarrow> False | Some (addr, now) \<Rightarrow> key addr = k) labs)"

lemma attemptsFor_count: "attemptCount k (runOps labs) = attemptsFor k labs"
proof (induction labs)
  case (Cons lab labs)
  then show ?case by (cases lab) (simp_all add: runOps_def attemptsFor_def)
qed (simp add: runOps_def attemptsFor_def)

text \<open>C10: floods are bounded. Of a source's connections between \<open>t0\<close> and \<open>t1\<close> the listener takes at
  most ten and one more for every two seconds, however the connections of all sources, their
  handshakes and their verdicts interleave (up to the floating-point slack of each attempt).\<close>

theorem listener_admits_bounded:
  assumes "proxyRun cfg conf handshake startProxy labs p"
    and "sorted (t0 # map fst (runOps labs))" and "last (t0 # map fst (runOps labs)) = t1"
  shows "of_nat (length (filter (takesFor k) labs)) \<le>
    10 + of_int (t1 - t0) / of_int (2 * second) + of_nat (attemptsFor k labs) * (10 / 2 ^ 49 :: rat)"
proof -
  have "of_nat (length (filter (takesFor k) labs)) \<le>
    (of_nat (admissions k (NewLimiter DefaultConfig) (runOps labs)) :: rat)"
    using run_admissions [OF assms(1), of k] by (simp add: start_limiter)
  also have "\<dots> \<le> rl_Burst DefaultConfig + earned DefaultConfig (t1 - t0) +
      of_nat (attemptsFor k labs) * slack DefaultConfig"
    using admissions_bound [OF wfConfig_Default wfIdle_Default assms(2,3), of k]
    by (simp add: attemptsFor_count)
  also have "\<dots> = 10 + of_int (t1 - t0) / of_int (2 * second) +
      of_nat (attemptsFor k labs) * (10 / 2 ^ 49)"
    by (simp add: DefaultConfig_def earned_def slack_def)
  finally show ?thesis .
qed

theorem listener_admits_bounded_witness:
  "of_nat (length (filter (takesFor ''10.0.0.7'') (guesses 10))) \<le>
     10 + of_int (5 - 0) / of_int (2 * second) +
     of_nat (attemptsFor ''10.0.0.7'' (guesses 10)) * (10 / 2 ^ 49 :: rat)"
proof -
  from guesses_run [of 10 exampleValid exampleServer exampleHandshake] obtain p
    where "proxyRun exampleValid exampleServer exampleHandshake startProxy (guesses 10) p"
    by auto
  then show ?thesis by (rule listener_admits_bounded) code_simp+
qed



end
