(* ===== verification/Fair_Use.thy ===== *)
theory Fair_Use
  imports Listener
begin

text \<open>
  Who uses the listener fairly is served, whatever others do: a source that has made fewer attempts
  than the burst of \<open>internal/ratelimit/ratelimit.go\<close> and has a place for one more handshake is
  admitted by the limiter, and so taken by the listener of \<open>internal/proxy/proxy.go\<close>.
\<close>

subsection \<open>What is left of the burst\<close>

text \<open>A source after \<open>a\<close> attempts and \<open>f\<close> failures: its bucket holds the rest of the burst, and it is
  not blocked before the tenth failure.\<close>

definition fairSource :: "nat \<Rightarrow> nat \<Rightarrow> source \<Rightarrow> bool" where
  "fairSource a f s \<longleftrightarrow> 10 - of_nat a \<le> src_tokens s \<and> length (src_failures s) \<le> f \<and>
     (f < 10 \<longrightarrow> src_blockedTil s = 0)"

definition fair :: "string \<Rightarrow> nat \<Rightarrow> nat \<Rightarrow> Limiter \<Rightarrow> bool" where
  "fair k a f l \<longleftrightarrow> (case lim_sources l k of None \<Rightarrow> True | Some s \<Rightarrow> fairSource a f s)"

lemma fairSource_more: "fairSource a f s \<Longrightarrow> a \<le> a' \<Longrightarrow> f \<le> f' \<Longrightarrow> fairSource a' f' s"
  by (auto simp: fairSource_def)

lemma fair_found: "fair k a f l \<Longrightarrow> lim_cfg l = DefaultConfig \<Longrightarrow> fairSource a f (found l k now)"
  by (cases "lim_sources l k")
    (auto simp: fair_def fairSource_def found_Some found_None DefaultConfig_def)

lemma fair_evict: "fair k a f l \<Longrightarrow> fair k a f (evictLocked l now)"
  by (auto simp: fair_def evictLocked_source split: option.splits)

lemma fair_cong: "lim_sources l' k = lim_sources l k \<Longrightarrow> fair k a f l' \<longleftrightarrow> fair k a f l"
  by (simp add: fair_def)

lemma fair_refill:
  assumes "okSource DefaultConfig s" "fairSource a f s"
  shows "fairSource a f (refill DefaultConfig now s)"
proof -
  have "src_tokens s \<le> f64 (src_tokens s + f64 (e * rl_Rate DefaultConfig))" if "0 < e" for e
  proof -
    have "0 \<le> f64 (e * rl_Rate DefaultConfig)"
      using that by (intro f64r.fl_nonneg) (simp add: DefaultConfig_def)
    then have "f64 (src_tokens s) \<le> f64 (src_tokens s + f64 (e * rl_Rate DefaultConfig))"
      using assms(1) by (intro f64_mono) (simp_all add: okSource_def)
    with assms(1) show ?thesis by (simp add: okSource_def)
  qed
  moreover have "src_tokens s \<le> rl_Burst DefaultConfig" using assms(1) by (simp add: okSource_def)
  ultimately have "src_tokens s \<le> src_tokens (refill DefaultConfig now s)"
    by (auto simp: refill_def Let_def)
  with assms(2) show ?thesis unfolding fairSource_def by auto
qed

lemma fair_takeToken:
  assumes "fairSource a f s" "1 \<le> src_tokens s"
  shows "fairSource (Suc a) f (takeToken s)"
proof -
  have "10 - of_nat (Suc a) \<le> f64 (src_tokens s - 1)"
  proof (cases "a < 10")
    case True
    have "f64 (of_int (9 - int a)) \<le> f64 (src_tokens s - 1)"
      using True assms(1) by (intro f64_mono) (simp_all add: fairSource_def)
    moreover have "f64 (of_int (9 - int a)) = (of_int (9 - int a) :: rat)"
      using True by (intro f64_of_int) simp
    ultimately show ?thesis by simp
  next
    case False
    have "0 \<le> f64 (src_tokens s - 1)" using assms(2) by (intro f64r.fl_nonneg) simp
    with False show ?thesis by simp
  qed
  with assms(1) show ?thesis by (simp add: fairSource_def takeToken_def)
qed

lemma fair_noteFailure:
  assumes "fairSource a f s"
  shows "fairSource a (Suc f) (noteFailure DefaultConfig now s)"
proof -
  have "length (filter (\<lambda>x. now - rl_FailureWindow DefaultConfig < x) (src_failures s)) \<le> f"
    using assms le_trans [OF length_filter_le] by (auto simp: fairSource_def)
  with assms show ?thesis
    by (auto simp: fairSource_def noteFailure_def Let_def) (simp_all add: DefaultConfig_def)
qed

lemma fair_Acquire:
  assumes inv: "rlInv l" and cfg: "lim_cfg l = DefaultConfig" and fair: "fair (key x) a f l"
  shows "fair (key x) (Suc a) f (snd (Acquire l x now))"
proof -
  let ?s = "found (evictLocked l now) (key x) now"
  have ok: "okSource DefaultConfig ?s"
    using found_ok(1) [OF rlInv_evict [OF inv], of now "key x" now] wfConfig_Default by (simp add: cfg)
  have s: "fairSource a f ?s" using fair_found [OF fair_evict [OF fair]] by (simp add: cfg)
  note r = fair_refill [OF ok s, of now]
  have "fairSource (Suc a) f ?s" "fairSource (Suc a) f (refill DefaultConfig now ?s)"
    using s r fairSource_more by auto
  moreover have "fairSource (Suc a) f (takeToken (refill DefaultConfig now ?s))"
    if "\<not> src_tokens (refill DefaultConfig now ?s) < 1"
    using fair_takeToken [OF r] that by simp
  ultimately show ?thesis by (simp add: Acquire_cases fair_def cfg)
qed

lemma fair_step:
  assumes inv: "rlInv l" and cfg: "lim_cfg l = DefaultConfig" and fair: "fair k a f l"
  shows "fair k (of_bool (attempts k e) + a) (of_bool (failureOf k e) + f) (rlStep l e)"
proof -
  obtain now op where e: "e = (now, op)" by (cases e)
  show ?thesis
  proof (cases op)
    case (OpAcquire x)
    show ?thesis
    proof (cases "key x = k")
      case True
      with fair_Acquire [OF inv cfg, of x a f now] fair e OpAcquire show ?thesis by simp
    next
      case False
      then have "fair k a f (snd (Acquire l x now)) = fair k a f (evictLocked l now)"
        by (intro fair_cong) (rule Acquire_other)
      with fair_evict [OF fair] False e OpAcquire show ?thesis by simp
    qed
  next
    case (OpRelease n)
    have "fair k a f (release l n)"
      using release_source [of l n k] fair by (auto simp: fair_def fairSource_def)
    with e OpRelease show ?thesis by simp
  next
    case (OpFailure x)
    with e fair fair_noteFailure [OF fair_found [OF fair cfg]] show ?thesis
      by (cases "key x = k") (simp_all add: RecordFailure_eq fair_def cfg)
  next
    case (OpSuccess x)
    have "fairSource a f ((found l k now)\<lparr>src_failures := []\<rparr>)"
      using fair_found [OF fair cfg, of now] by (simp add: fairSource_def)
    with e OpSuccess fair show ?thesis
      by (cases "key x = k") (simp_all add: RecordSuccess_eq fair_def)
  qed
qed

lemma fair_run:
  assumes "rlInv l" "lim_cfg l = DefaultConfig" "fair k a f l"
  shows "fair k (attemptCount k es + a) (length (filter (failureOf k) es) + f) (rlRun l es)"
  using assms
proof (induction es arbitrary: l a f)
  case (Cons e es)
  have "rlInv (rlStep l e)" "lim_cfg (rlStep l e) = DefaultConfig"
    using Cons.prems(1,2) wfConfig_Default by (simp_all add: rlInv_step)
  from Cons.IH [OF this fair_step [OF Cons.prems]] show ?case
    by (cases "failureOf k e") (simp_all add: add_ac)
qed simp

text \<open>A fair source with a free handshake is admitted.\<close>

lemma fair_admitted:
  assumes inv: "rlInv l" and cfg: "lim_cfg l = DefaultConfig" and fair: "fair (key x) a f l"
    and few: "a < 10" "f < 10" "openSlots l (key x) < 8" and now: "0 \<le> now"
  shows "fst (fst (Acquire l x now)) = Allowed"
proof -
  let ?s = "found (evictLocked l now) (key x) now"
  have ok: "okSource DefaultConfig ?s" and open_slots: "src_inFlight ?s = openSlots l (key x)"
    using found_ok [OF rlInv_evict [OF inv], of now "key x" now] wfConfig_Default by (simp_all add: cfg)
  have s: "fairSource a f ?s" using fair_found [OF fair_evict [OF fair]] by (simp add: cfg)
  have "1 \<le> src_tokens (refill DefaultConfig now ?s)"
    using fair_refill [OF ok s, of now] few(1) unfolding fairSource_def by linarith
  moreover have "src_blockedTil ?s = 0" using s few(2) by (simp add: fairSource_def)
  ultimately show ?thesis
    using few(3) now by (simp add: Acquire_cases cfg open_slots) (simp add: DefaultConfig_def)
qed

subsection \<open>Every open slot is a handshake\<close>

definition backed :: "string option list \<Rightarrow> (nat \<rightharpoonup> 'c connPhase) \<Rightarrow> bool" where
  "backed rel m \<longleftrightarrow>
     (\<forall>n<length rel. rel ! n \<noteq> None \<longrightarrow> (\<exists>i addr client. m i = Some (Handshaking addr n client)))"

lemma backed_other:
  assumes "backed rel m" "m i = Some q" "\<And>addr n client. q \<noteq> Handshaking addr n client"
  shows "backed rel (m(i := x))"
  unfolding backed_def
proof (intro allI impI)
  fix n
  assume "n < length rel" "rel ! n \<noteq> None"
  with assms(1) obtain j addr client where j: "m j = Some (Handshaking addr n client)"
    by (auto simp: backed_def)
  with assms(2) assms(3) [of addr n client] have "j \<noteq> i" by fastforce
  with j show "\<exists>i' addr client. (m(i := x)) i' = Some (Handshaking addr n client)" by fastforce
qed

lemma backed_add:
  assumes "backed rel m" "m i = None"
  shows "backed (rel @ [Some k]) (m(i \<mapsto> Handshaking addr (length rel) client))"
  unfolding backed_def
proof (intro allI impI)
  fix n
  assume n: "n < length (rel @ [Some k])" "(rel @ [Some k]) ! n \<noteq> None"
  show "\<exists>j addr' client'. (m(i \<mapsto> Handshaking addr (length rel) client)) j = Some (Handshaking addr' n client')"
  proof (cases "n = length rel")
    case True
    then show ?thesis by (intro exI [of _ i]) simp
  next
    case False
    with n have "n < length rel" "rel ! n \<noteq> None" by (auto simp: nth_append)
    with assms(1) obtain j addr' client' where j: "m j = Some (Handshaking addr' n client')"
      unfolding backed_def by blast
    with assms(2) have "j \<noteq> i" by auto
    with j show ?thesis by fastforce
  qed
qed

lemma backed_refused: "backed rel m \<Longrightarrow> backed (rel @ [None]) m"
  by (auto simp: backed_def nth_append)

lemma backed_given_back:
  assumes "backed rel m" "m i = Some (Handshaking addr n client)"
  shows "backed (rel[n := None]) (m(i \<mapsto> q))"
  unfolding backed_def
proof (intro allI impI)
  fix n'
  assume n': "n' < length (rel[n := None])" "rel[n := None] ! n' \<noteq> None"
  then have "n' \<noteq> n" by auto
  with n' assms(1) obtain j addr' client' where j: "m j = Some (Handshaking addr' n' client')"
    by (auto simp: backed_def)
  with assms(2) \<open>n' \<noteq> n\<close> have "j \<noteq> i" by auto
  with j show "\<exists>j addr' client'. (m(i \<mapsto> q)) j = Some (Handshaking addr' n' client')" by fastforce
qed

lemma backed_event:
  assumes "proxyEvent cfg conf handshake lab p p'" "proxyInv cfg conf handshake p"
    and "backed (lim_releases (px_limiter p)) (px_conns p)"
  shows "backed (lim_releases (px_limiter p')) (px_conns p')"
  using assms
proof (induction rule: proxyEvent.induct)
  case (Refused p addr now reason rel l)
  then show ?case using lim_releases_Acquire [OF Refused(1)] by (simp split: option.splits)
next
  case (Accepted p addr now n l client)
  have "px_conns p (px_next p) = None"
    using Accepted(3) placesOK_fresh by (auto simp: proxyInv_def)
  from backed_add [OF Accepted(4) this, of "key addr" addr client] lim_releases_Acquire [OF Accepted(1)]
  show ?case by (simp del: fun_upd_apply)
next
  case (NoSlot p addr now n l)
  with lim_releases_Acquire [OF NoSlot(1)] show ?case
    by (simp add: lim_releases_release backed_refused)
next
  case (HandshakeEnds p i addr n client result)
  from backed_given_back [OF HandshakeEnds(4,1)] show ?case
    by (simp add: setConn_def lim_releases_release del: fun_upd_apply)
next
  case (Failed p i addr client now)
  from backed_other [OF Failed(3,1)] show ?case by (simp add: endConn_def del: fun_upd_apply)
next
  case (Dropped p i addr client c)
  from backed_other [OF Dropped(4,1)] show ?case by (simp add: endConn_def del: fun_upd_apply)
next
  case (Served p i addr client c now)
  from backed_other [OF Served(4,1)] show ?case by (simp add: setConn_def del: fun_upd_apply)
next
  case (Channel p i client c k channelType)
  from backed_other [OF Channel(3,1)] show ?case by (simp add: setConn_def del: fun_upd_apply)
next
  case (ChannelDone p i client c k)
  from backed_other [OF ChannelDone(3,1)] show ?case by (simp add: setConn_def del: fun_upd_apply)
next
  case (Closed p i client c k)
  from backed_other [OF Closed(3,1)] show ?case by (simp add: endConn_def del: fun_upd_apply)
qed

lemma backed_reach:
  "proxyReach cfg conf handshake p \<Longrightarrow> backed (lim_releases (px_limiter p)) (px_conns p)"
proof (induction rule: proxyReach.induct)
  case Start
  show ?case by (simp add: backed_def startProxy_def NewLimiter_def)
next
  case (Step p p')
  from Step(2) obtain lab where ev: "proxyEvent cfg conf handshake lab p p'"
    by (auto simp: proxyStep_def)
  from backed_event [OF ev proxyInv_reach [OF Step(1)] Step(3)] show ?case .
qed

lemma slots_are_handshakes:
  assumes "proxyReach cfg conf handshake p"
  shows "openSlots (px_limiter p) k \<le> int (card (handshakesOf p k))"
proof -
  let ?rel = "lim_releases (px_limiter p)" and ?H = "handshakesOf p k"
  define slot where "slot i = (case px_conns p i of Some (Handshaking addr n client) \<Rightarrow> n | _ \<Rightarrow> 0)" for i
  note inv = proxyInv_reach [OF assms]
  have held: "heldInv ?rel (px_conns p)" using inv by (simp add: proxyInv_def)
  have "finite (dom (px_conns p))" using inv by (simp add: proxyInv_def placesOK_def)
  then have "finite ?H" by (rule rev_finite_subset) (auto simp: handshakesOf_def)
  moreover have "{n. n < length ?rel \<and> ?rel ! n = Some k} \<subseteq> slot ` ?H"
  proof
    fix n
    assume n: "n \<in> {n. n < length ?rel \<and> ?rel ! n = Some k}"
    with backed_reach [OF assms] obtain i addr client
      where i: "px_conns p i = Some (Handshaking addr n client)" by (auto simp: backed_def)
    with heldInvD [OF held i] n have "i \<in> ?H" by (auto simp: handshakesOf_def)
    moreover have "slot i = n" using i by (simp add: slot_def)
    ultimately show "n \<in> slot ` ?H" by blast
  qed
  ultimately have "card {n. n < length ?rel \<and> ?rel ! n = Some k} \<le> card ?H"
    by (rule surj_card_le)
  moreover have "card {n. n < length ?rel \<and> ?rel ! n = Some k} = count_list ?rel (Some k)"
    by (simp add: count_list_eq_length_filter length_filter_conv_card eq_commute)
  ultimately show ?thesis by (simp add: openSlots_def)
qed

subsection \<open>No more failures than connections taken\<close>

text \<open>The connections of a source whose verdict is still to come.\<close>

definition undecided :: "'c Proxy \<Rightarrow> string \<Rightarrow> nat set" where
  "undecided p k = {i. \<exists>addr. key addr = k \<and>
     ((\<exists>n client. px_conns p i = Some (Handshaking addr n client)) \<or>
      (\<exists>client r. px_conns p i = Some (Judging addr client r)))}"

lemma undecided_finite: "proxyInv cfg conf handshake p \<Longrightarrow> finite (undecided p k)"
  by (rule rev_finite_subset [of "dom (px_conns p)"]) (auto simp: undecided_def proxyInv_def placesOK_def)

lemma undecided_less:
  assumes "finite (undecided p k)" "undecided p' k \<subseteq> undecided p k - {i}" "i \<in> undecided p k"
  shows "Suc (card (undecided p' k)) \<le> card (undecided p k)"
proof -
  have "card (undecided p' k) \<le> card (undecided p k - {i})"
    using assms(1,2) by (intro card_mono) auto
  also have "Suc \<dots> \<le> card (undecided p k)" using card_Suc_Diff1 [OF assms(1,3)] by simp
  finally show ?thesis by simp
qed

lemma failures_event:
  assumes "proxyEvent cfg conf handshake lab p p'" "proxyInv cfg conf handshake p"
  shows "of_bool (failsFor k lab) + card (undecided p' k) \<le> of_bool (takesFor k lab) + card (undecided p k)"
  using assms
proof (induction rule: proxyEvent.induct)
  case (Accepted p addr now n l client)
  let ?p = "p\<lparr>px_limiter := l, px_conns := (px_conns p)(px_next p \<mapsto> Handshaking addr n client),
    px_slots := px_slots p + 1, px_next := Suc (px_next p)\<rparr>"
  note fin = undecided_finite [OF Accepted(3), of k]
  have "undecided ?p k \<subseteq> (if key addr = k then insert (px_next p) (undecided p k) else undecided p k)"
    by (auto simp: undecided_def split: if_splits)
  from card_mono [OF _ this] fin card_insert_le_m1 [of "Suc (card (undecided p k))" "undecided p k" "px_next p"]
  show ?case by (auto split: if_splits)
next
  case (Failed p i addr client now)
  let ?p = "(endConn p i)\<lparr>px_limiter := RecordFailure (px_limiter p) addr now\<rparr>"
  note fin = undecided_finite [OF Failed(2), of k]
  have sub: "undecided ?p k \<subseteq> undecided p k - {i}"
    by (auto simp: undecided_def endConn_def split: if_splits)
  show ?case
  proof (cases "key addr = k")
    case True
    with Failed(1) have "i \<in> undecided p k" by (auto simp: undecided_def)
    from undecided_less [OF fin sub this] True show ?thesis by simp
  next
    case False
    from card_mono [OF fin] sub False show ?thesis by (auto simp: subset_Diff_insert)
  qed
qed (simp, rule card_mono, erule undecided_finite,
    force simp: undecided_def endConn_def setConn_def split: if_splits)+

lemma failures_run:
  assumes "proxyRun cfg conf handshake p labs p'" "proxyInv cfg conf handshake p"
  shows "length (filter (failsFor k) labs) + card (undecided p' k) \<le>
    length (filter (takesFor k) labs) + card (undecided p k)"
  using assms
proof (induction rule: proxyRun.induct)
  case (Next lab p p' labs p'')
  from Next(3) [OF proxyInv_event [OF Next(1,4)]] failures_event [OF Next(1,4), of k]
  show ?case by (auto split: if_splits)
qed simp

lemma takes_attempts: "length (filter (takesFor k) labs) \<le> attemptsFor k labs"
proof (induction labs)
  case (Cons lab labs)
  then show ?case by (cases lab) (simp_all add: attemptsFor_def)
qed (simp add: attemptsFor_def)

lemma failures_attempts:
  assumes "proxyRun cfg conf handshake startProxy labs p"
  shows "length (filter (failsFor k) labs) \<le> attemptsFor k labs"
  using failures_run [OF assms proxyInv_start, of k] takes_attempts [of k labs]
  by (simp add: undecided_def startProxy_def)

text \<open>A source that uses the listener fairly is admitted.\<close>

lemma fair_source_admitted:
  fixes p :: "'c Proxy"
  assumes run: "proxyRun cfg conf handshake startProxy labs p"
    and few: "attemptsFor (key addr) labs < 10" "card (handshakesOf p (key addr)) < 8"
    and now: "0 \<le> now"
  shows "fst (fst (Acquire (px_limiter p) addr now)) = Allowed"
proof -
  have reach: "proxyReach cfg conf handshake p" by (rule proxyRun_reach [OF run proxyReach.Start])
  have lim: "px_limiter p = rlRun (NewLimiter DefaultConfig) (runOps labs)"
    using limiter_run [OF run] by (simp add: start_limiter)
  have "fair (key addr) (attemptCount (key addr) (runOps labs) + 0)
      (length (filter (failureOf (key addr)) (runOps labs)) + 0) (px_limiter p)"
    unfolding lim
    by (rule fair_run [OF rlInv_New]) (simp_all add: fair_def NewLimiter_def)
  then have fair: "fair (key addr) (attemptsFor (key addr) labs)
      (length (filter (failsFor (key addr)) labs)) (px_limiter p)"
    by (simp add: attemptsFor_count fails_failures)
  have "openSlots (px_limiter p) (key addr) < 8"
    using slots_are_handshakes [OF reach, of "key addr"] few(2) by linarith
  moreover have "length (filter (failsFor (key addr)) labs) < 10"
    using failures_attempts [OF run, of "key addr"] few(1) by linarith
  moreover have "rlInv (px_limiter p)" "lim_cfg (px_limiter p) = DefaultConfig"
    using proxyInv_reach [OF reach] by (simp_all add: proxyInv_def)
  ultimately show ?thesis using fair_admitted [OF _ _ fair few(1) _ _ now] by simp
qed

subsection \<open>Properties\<close>

text \<open>C13: who has access and uses it fairly is served. Whatever other sources did to the listener, a
  source with fewer than ten attempts of its own so far and fewer than eight handshakes under
  way is not throttled: whenever a place is free, which other sources may prevent, and the handshake
  gives the client permissions, or the client's user is an open one, its connection can be taken,
  finish the handshake and be served, under the number the proxy has next.\<close>

theorem fair_user_is_served:
  fixes p :: "'c Proxy"
  assumes "Validate (validationParser parse) c0 = Inr cfg"
    and "NewProxy parse cfg readFile privateKeyOk = Inr conf" and "handshakeSound handshake proves"
    and "proxyRun cfg conf handshake startProxy labs p"
    and "attemptsFor (key addr) labs < 10" and "card (handshakesOf p (key addr)) < 8" and "0 \<le> now"
    and "card (dom (px_conns p)) < 256" and "handshake conf client = Some c"
    and "sc_Permissions c \<noteq> None \<or> isOpenJumpUser cfg (sc_User c)"
  shows "\<exists>n p'. proxyRun cfg conf handshake p [Took addr now n, GaveBack now n, Cleared addr now] p' \<and>
    px_conns p' (px_next p) = Some (Serving client c 0)"
proof -
  have "proxyInv cfg conf handshake p"
    by (rule proxyInv_reach [OF proxyRun_reach [OF assms(4) proxyReach.Start]])
  with assms(8) have "px_slots p < connectionSlots"
    by (simp add: proxyInv_def placesOK_def connectionSlots_def)
  moreover have "mayServe cfg c" using mayServe_iff [OF assms(1-3,9)] assms(10) by simp
  ultimately show ?thesis
    using client_served_events [where handshake = handshake and conf = conf and client = client
        and cfg = cfg, OF fair_source_admitted [OF assms(4-7)]] assms(9)
    by (fastforce simp: proxyRun_Cons)
qed

theorem fair_user_is_served_witness:
  "\<exists>p n p'. proxyRun exampleValid exampleServer exampleHandshake startProxy (guesses 10) p \<and>
     proxyRun exampleValid exampleServer exampleHandshake p [Took (Some ''10.0.0.8:5'') 6 n, GaveBack 6 n,
       Cleared (Some ''10.0.0.8:5'') 6] p' \<and>
     px_conns p' (px_next p) = Some (Serving (''alice'', Some ''blob1'') exampleConn 0)"
proof -
  from guesses_run [of 10 exampleValid exampleServer exampleHandshake] obtain p
    where p: "proxyRun exampleValid exampleServer exampleHandshake startProxy (guesses 10) p"
      "px_slots p = 0" by auto
  have "placesOK connectionSlots (px_conns p) (px_slots p) (px_next p)"
    using proxyInv_reach [OF proxyRun_reach [OF p(1) proxyReach.Start]] by (simp add: proxyInv_def)
  with p(2) have "dom (px_conns p) = {}" by (auto simp: placesOK_def card_eq_0_iff)
  then have none: "px_conns p = Map.empty" by simp
  have few: "attemptsFor (key (Some ''10.0.0.8:5'')) (guesses 10) < 10" by code_simp
  have "card (handshakesOf p (key (Some ''10.0.0.8:5''))) < 8" "card (dom (px_conns p)) < 256"
    by (simp_all add: none handshakesOf_def)
  then obtain n p' where "proxyRun exampleValid exampleServer exampleHandshake p
      [Took (Some ''10.0.0.8:5'') 6 n, GaveBack 6 n, Cleared (Some ''10.0.0.8:5'') 6] p'"
    "px_conns p' (px_next p) = Some (Serving (''alice'', Some ''blob1'') exampleConn 0)"
    using fair_user_is_served [OF exampleConfig_valid [folded exampleKeys_parser] exampleServer_New
        exampleHandshake_sound p(1) few, of 6 "(''alice'', Some ''blob1'')" exampleConn]
      exampleConn_authorized
    by (auto simp: exampleConn_def)
  with p(1) show ?thesis by blast
qed

end
