(* ===== verification/Ctl_Main.thy ===== *)
theory Ctl_Main
  imports Ctl
begin

text \<open>
  \<open>main\<close> of \<open>cmd/sshhub-ctl\<close>: the chosen command as a whole, with the lines it prints, the files it
  leaves and its exit code. The text of an error that Go's library or the operating system words
  is a parameter; the encoding of the JSON rows is left to \<open>encoding/json\<close>.
\<close>

subsection \<open>What is printed\<close>

datatype printed = Line string | JSONRows "row list"

definition tick :: string where
  "tick = map char_of [226, 156, 147 :: nat]"

definition usageLines :: "string list" where
  "usageLines =
     [''Usage: sshhub-ctl <command> [arguments]'', [],
      ''Commands:'',
      ''  add <id>     Add a new reverse backend, generate token, and update config'',
      ''  remove <id>  Remove a backend and its routes from config'',
      ''  list         Show backends with agent status, version, and uptime'',
      ''  list --json  Same, as JSON for scripting'',
      ''  pin          Show the hub key pin agents must use (--hub-pin)'',
      ''  update       Check for and apply updates from GitHub Releases'',
      ''  version      Show current version'', [],
      ''Examples:'',
      ''  sshhub-ctl add worker1'',
      ''  sshhub-ctl add worker1 --end-user deploy'',
      ''  sshhub-ctl pin'',
      ''  sshhub-ctl list'',
      ''  sshhub-ctl update'',
      ''  sshhub-ctl update --check'',
      ''  sshhub-ctl remove worker1'']"

text \<open>The pin, or one of the two notices; \<open>certError\<close> is the text of \<open>x509\<close>'s parse error.\<close>

definition pemErrorText :: "string \<Rightarrow> pemError \<Rightarrow> string" where
  "pemErrorText certError err =
     (case err of
        NoPEMCertificate \<Rightarrow> ''no PEM certificate found''
      | PEMCertificateUnparsable \<Rightarrow> ''parse certificate: '' @ certError)"

definition pinText :: "string \<Rightarrow> shownPin \<Rightarrow> string" where
  "pinText certError p =
     (case p of
        Pin pin \<Rightarrow> pin
      | NotStarted \<Rightarrow> ''<start the hub once to generate its certificate, then run: sshhub-ctl pin>''
      | UnreadableCertificate err \<Rightarrow> ''<unreadable certificate: '' @ pemErrorText certError err @ ''>'')"

definition addLines :: "(nat \<Rightarrow> bool) \<Rightarrow> string \<Rightarrow> addArgs \<Rightarrow> addOutput \<Rightarrow> string list" where
  "addLines isPrint certError a out =
     [[], tick @ '' Backend '' @ quote isPrint (aa_ID a) @ '' registered in '' @ aa_CfgPath a @
        '' (transport only)'', [],
      ''Generated Token:'', ''  '' @ ao_Token out, [],
      ''Hub Key Pin:'', ''  '' @ pinText certError (ao_Pin out), [],
      ''Store the token in a root-only file on the node. Use the trusted'',
      ''scripts/install-agent.sh with --release-dir, --token-file, --hub and --hub-pin.'',
      ''Configure OpenSSH locally and add explicit jump_users grants on the hub.'', [],
      ''To connect from your client:'',
      ''  ssh -J <jump-user>@'' @ ao_Domain out @ '' <backend-user>@'' @ aa_ID a, []]"

definition removeLines :: "(nat \<Rightarrow> bool) \<Rightarrow> removeArgs \<Rightarrow> string list" where
  "removeLines isPrint a =
     [tick @ '' Backend '' @ quote isPrint (ra_ID a) @ '' removed from '' @ ra_CfgPath a]"

text \<open>A line of the table: \<open>%-14s %-9s %-9s %-14s %-11s %s\<close>.\<close>

definition columnWidths :: "nat list" where
  "columnWidths = [14, 9, 9, 14, 11]"

fun tableLine :: "nat list \<Rightarrow> string list \<Rightarrow> string" where
  "tableLine (n # ns) (cell # cells) = padRight n cell @ '' '' @ tableLine ns cells"
| "tableLine [] cells = concat cells"
| "tableLine (n # ns) [] = []"

definition staleLine :: "string \<Rightarrow> (string \<times> string) list \<Rightarrow> string list" where
  "staleLine hubVersion stale =
     (if stale = [] then []
      else [''Agents not on '' @ hubVersion @ '': '' @
            joinWith '', '' (map (\<lambda>(i, v). i @ '' ('' @ v @ '')'') stale)])"

definition listLines :: "string \<Rightarrow> listArgs \<Rightarrow> listing \<Rightarrow> printed list" where
  "listLines statusError a l =
     (case l of
        Rows rows \<Rightarrow> [JSONRows rows]
      | Table cells summary \<Rightarrow> map Line (
          [''Backends configured in '' @ la_CfgPath a @ '':'', [],
           tableLine columnWidths [''ID'', ''STATUS'', ''VERSION'', ''PLATFORM'', ''CONNECTED'', ''END USERS''],
           tableLine columnWidths [replicate 14 CHR ''-'', replicate 9 CHR ''-'', replicate 9 CHR ''-'',
             replicate 14 CHR ''-'', replicate 11 CHR ''-'', replicate 10 CHR ''-'']] @
          map (tableLine columnWidths) cells @ [[]] @
          (case summary of
             None \<Rightarrow>
               [''Live status unavailable ('' @ statusError @ '').'',
                ''Showing configuration only; run on the hub host as root for agent status.'']
           | Some (online, configured, hubVersion, up, stale) \<Rightarrow>
               [itoa online @ ''/'' @ itoa configured @ '' online. Hub '' @ hubVersion @ '', up '' @ up @ ''.''] @
               staleLine hubVersion stale) @ [[]]))"

text \<open>
  The lines of \<open>update\<close>; \<open>fetchError\<close> is the text of the failed request. What an update that
  fails while it is applied prints besides is the fatal error.
\<close>

definition updateLines :: "string \<Rightarrow> string option \<Rightarrow> string \<Rightarrow> string list \<Rightarrow> updateOutcome \<Rightarrow> string list" where
  "updateLines fetchError latest running args outcome =
     (let checking = ''Checking for updates on GitHub... '';
          found = [''Current version: '' @ running,
            checking @ (case latest of Some l \<Rightarrow> ''latest release is '' @ l | None \<Rightarrow> ''failed: '' @ fetchError)];
          target = (if ua_Target (parseUpdate args) \<noteq> [] then ua_Target (parseUpdate args)
                    else (case latest of Some l \<Rightarrow> l | None \<Rightarrow> []));
          applying = ''Downloading and applying '' @ target @ '' from GitHub...'' in
      case outcome of
        CheckFailed \<Rightarrow> found
      | UpToDate \<Rightarrow> found @ [tick @ '' SSHub Gateway is already up to date!'']
      | UpdateAvailable l \<Rightarrow> found @ [''Update available: '' @ running @ '' -> '' @ l]
      | UpdateFailed err \<Rightarrow> found @ [applying]
      | Updated v \<Rightarrow> found @ [applying, ''Restarting sshhub service...'',
          tick @ '' SSHub Gateway successfully updated to '' @ v @ ''!''])"
subsection \<open>The program\<close>

text \<open>
  What a run finds around it: the library functions and the host's answers (\<open>hostname\<close>, the admin
  socket, the clock, GitHub, the installer), and the words of the library's errors.
\<close>

record ctlEnv =
  ce_Decode :: "string \<Rightarrow> Config option"
  ce_Encode :: "Config \<Rightarrow> string option"
  ce_Random :: "string option"
  ce_Faults :: faults
  ce_Temp :: string
  ce_Load :: "files \<Rightarrow> string \<Rightarrow> loadError + Config"
  ce_FQDN :: string
  ce_TLS :: tlsLib
  ce_Certificates :: tlsFiles
  ce_Query :: "queryError + adminStatus"
  ce_Now :: time
  ce_Latest :: "string option"
  ce_Version :: string
  ce_Install :: "string \<Rightarrow> updateError + unit"
  ce_IsPrint :: "nat \<Rightarrow> bool"
  ce_CertError :: string
  ce_StatusError :: string
  ce_FetchError :: string

text \<open>How the process ends: \<open>main\<close> returns, exits, or logs a fatal error, with exit code 1.\<close>

datatype ending = Returned | Exited nat | LoggedFatal ctlFatal | LoggedUpdateFatal updateError

definition exitCode :: "ending \<Rightarrow> nat" where
  "exitCode e = (case e of Returned \<Rightarrow> 0 | Exited n \<Rightarrow> n | LoggedFatal _ \<Rightarrow> 1 | LoggedUpdateFatal _ \<Rightarrow> 1)"

definition ctlMain :: "ctlEnv \<Rightarrow> string list \<Rightarrow> files \<Rightarrow> ending \<times> printed list \<times> files" where
  "ctlMain env osArgs fs =
     (let args = drop 2 osArgs;
          path = defaultConfigPath (\<lambda>p. fs p \<noteq> None) in
      case commandOf osArgs of
        CmdUsage \<Rightarrow> (Exited 1, map Line usageLines, fs)
      | CmdAdd \<Rightarrow>
          (case ctlAdd (ce_Decode env) (ce_Encode env) (ce_Random env) (ce_Faults env) (ce_Temp env)
              (ce_Load env) (ce_FQDN env) (ce_TLS env) (ce_Certificates env) path args fs of
             (Inl err, fs) \<Rightarrow> (LoggedFatal err, [], fs)
           | (Inr out, fs) \<Rightarrow>
               (Returned, map Line (addLines (ce_IsPrint env) (ce_CertError env) (parseAdd path args) out), fs))
      | CmdRemove \<Rightarrow>
          (case ctlRemove (ce_Decode env) (ce_Encode env) (ce_Faults env) (ce_Temp env) path args fs of
             (Inl err, fs) \<Rightarrow> (LoggedFatal err, [], fs)
           | (Inr restarted, fs) \<Rightarrow>
               (Returned, map Line (removeLines (ce_IsPrint env) (parseRemove path args)), fs))
      | CmdList \<Rightarrow>
          (case ctlList (ce_Load env fs) (ce_Query env) (ce_Now env) path args of
             Inl err \<Rightarrow> (LoggedFatal err, [], fs)
           | Inr l \<Rightarrow> (Returned, listLines (ce_StatusError env) (parseList path args) l, fs))
      | CmdUpdate \<Rightarrow>
          let outcome = ctlUpdate (ce_Latest env) (ce_Version env) (ce_Install env) args in
          (case outcome of
             CheckFailed \<Rightarrow> Exited 1
           | UpdateFailed err \<Rightarrow> LoggedUpdateFatal err
           | _ \<Rightarrow> Returned,
           map Line (updateLines (ce_FetchError env) (ce_Latest env) (ce_Version env) args outcome), fs)
      | CmdPin \<Rightarrow>
          (Returned,
           [Line (pinText (ce_CertError env)
              (controlPlanePin (ce_TLS env) (ce_Load env fs (parsePinArgs path args)) (ce_Certificates env)))],
           fs)
      | CmdVersion \<Rightarrow> (Returned, [Line (''sshhub version '' @ ce_Version env)], fs))"

subsection \<open>What a run changes\<close>

text \<open>Only \<open>add\<close> and \<open>remove\<close> write the configuration; a failed edit prints nothing.\<close>

lemma ctlMain_reads:
  assumes "ctlMain env osArgs fs = (e, out, fs')" "fs' \<noteq> fs"
  shows "commandOf osArgs = CmdAdd \<or> commandOf osArgs = CmdRemove"
  using assms by (cases "commandOf osArgs") (auto simp: ctlMain_def Let_def split: sum.splits)

lemma ctlMain_fatal_silent:
  "ctlMain env osArgs fs = (LoggedFatal err, out, fs') \<Longrightarrow> out = []"
  by (cases "commandOf osArgs")
    (auto simp: ctlMain_def Let_def split: sum.splits prod.splits updateOutcome.splits)

text \<open>The usage text comes exactly with exit code 1 and no fatal error, or from a failed check.\<close>

lemma ctlMain_exits:
  "ctlMain env osArgs fs = (Exited n, out, fs') \<longleftrightarrow>
   n = 1 \<and> fs' = fs \<and>
   (commandOf osArgs = CmdUsage \<and> out = map Line usageLines \<or>
    commandOf osArgs = CmdUpdate \<and> ce_Latest env = None \<and>
    out = map Line (updateLines (ce_FetchError env) None (ce_Version env) (drop 2 osArgs) CheckFailed))"
  by (cases "commandOf osArgs")
    (auto simp: ctlMain_def ctlUpdate_def Let_def split: sum.splits prod.splits updateOutcome.splits
      option.splits if_splits)

subsection \<open>The pin\<close>

text \<open>
  A notice in place of a pin is never taken for one: \<open>--hub-pin\<close> refuses it, so an agent installed
  with it does not run without authenticating the hub.
\<close>

lemma pinText_notice_refused:
  assumes "\<And>pin. p \<noteq> Pin pin"
  shows "parsePin (pinText certError p) = Inl PinPrefix"
proof (cases p)
  case (Pin pin)
  with assms show ?thesis by blast
qed (simp_all add: pinText_def parsePin_def pinPrefix_def)

lemma pinText_notice_no_client:
  assumes "\<And>pin. p \<noteq> Pin pin"
  shows "ClientConfig lib name (pinText certError p) = Inl PinPrefix"
proof -
  have "pinText certError p \<noteq> []"
    using pinText_notice_refused [OF assms] assms by (cases p) (auto simp: pinText_def)
  then show ?thesis by (simp add: ClientConfig_def pinText_notice_refused [OF assms])
qed

text \<open>What \<open>pin\<close> prints is either a pin an agent can use or such a notice.\<close>

lemma pin_line_usable:
  assumes "\<And>bytes. length (tl_Sum256 lib bytes) = 32"
  shows "(\<exists>raw. parsePin (pinText certError (controlPlanePin lib loaded certs)) = Inr raw) \<longleftrightarrow>
    (\<exists>pin. controlPlanePin lib loaded certs = Pin pin)"
proof (cases "controlPlanePin lib loaded certs")
  case (Pin pin)
  then obtain cert where "pin = Fingerprint lib cert"
    by (auto simp: controlPlanePin_def FingerprintFromPEM_def Let_def split: option.splits sum.splits if_splits)
  with Pin assms show ?thesis by (simp add: pinText_def parsePin_Fingerprint)
qed (simp_all add: pinText_notice_refused)

subsection \<open>The table\<close>

text \<open>A cell begins at the column its predecessors' widths give, when these fit.\<close>

lemma tableLine_column:
  assumes "i \<le> length ns" "i < length cells"
    and "list_all2 (\<lambda>n cell. list_all isASCII cell \<and> length cell \<le> n) (take i ns) (take i cells)"
  shows "\<exists>tail. drop (sum_list (map Suc (take i ns))) (tableLine ns cells) =
    (if i < length ns then padRight (ns ! i) (cells ! i) else cells ! i) @ tail"
  using assms
proof (induction ns cells arbitrary: i rule: tableLine.induct)
  case (1 n ns cell cells)
  show ?case
  proof (cases i)
    case 0
    then show ?thesis by auto
  next
    case (Suc j)
    with 1(4) have "length (padRight n cell) = n" by (simp add: padRight_length)
    with 1(1) [of j] 1(2-4) Suc show ?thesis by (cases "j < length ns") auto
  qed
next
  case (2 cells)
  then show ?case by (cases cells) auto
qed simp

lemma columns_at: "map (\<lambda>i. sum_list (map Suc (take i columnWidths))) [0..<6] = [0, 15, 25, 35, 50, 62]"
  by (simp add: columnWidths_def upt_rec)

lemma tableRow_length: "length (tableRow users status live now b) = 6"
  by (simp add: tableRow_def Let_def split: option.splits)

text \<open>The second column of a backend's line is its status, when its id is ASCII and fits the first.\<close>

lemma tableLine_status:
  assumes "list_all isASCII (be_ID b)" "length (be_ID b) \<le> 14"
  shows "\<exists>tail. drop 15 (tableLine columnWidths (tableRow users status live now b)) =
    padRight 9 (if live (be_ID b) \<noteq> None then ''online'' else if status = None then ''unknown'' else ''offline'')
      @ tail"
proof -
  have "list_all2 (\<lambda>n cell. list_all isASCII cell \<and> length cell \<le> n) (take 1 columnWidths)
      (take 1 (tableRow users status live now b))"
    using assms by (simp add: tableRow_def Let_def columnWidths_def split: option.splits)
  from tableLine_column [OF _ _ this] show ?thesis
    by (auto simp: tableRow_def Let_def columnWidths_def split: option.splits)
qed

text \<open>A longer id pushes the status out of its column.\<close>

lemma tableLine_pushed:
  assumes "be_ID b = replicate 16 CHR ''x''"
  shows "drop 15 (tableLine columnWidths (tableRow (\<lambda>_. []) None Map.empty 0 b)) =
    ''x unknown   -         -              -           -''"
proof -
  have "tableRow (\<lambda>_. []) None Map.empty 0 b =
      [replicate 16 CHR ''x'', ''unknown'', ''-'', ''-'', ''-'', ''-'']"
    using assms by (simp add: tableRow_def)
  moreover have "drop 15 (tableLine columnWidths
      [replicate 16 CHR ''x'', ''unknown'', ''-'', ''-'', ''-'', ''-'']) =
    ''x unknown   -         -              -           -''"
    by code_simp
  ultimately show ?thesis by simp
qed


end
