(* ===== verification/Spec2Isabelle.thy ===== *)
theory Spec2Isabelle
  imports Agent_Update Update_Lock Generations Network Edits Tunnel Sign_Tool Fair_Use Ctl_Main
begin

text \<open>
  SSHHub, a reverse SSH proxy. Agents on machines behind NAT dial out to the hub's control
  listener and register a backend with that backend's token; users open ProxyJump connections
  to the hub's SSH listener, and the hub bridges a permitted tunnel to the agent's session.
  Hub and agents keep themselves up to date with signed releases.

  The development follows the Go packages under \<open>internal/\<close> and \<open>cmd/\<close>, one theory per
  package or program; a definition has the name of the function or type it models.

  \<^item> \<open>Prelude\<close>, \<open>Go_Strings\<close>, \<open>Go_Net\<close>, \<open>Go_IP\<close>, \<open>Go_Duration\<close>, \<open>Go_Encoding\<close>, \<open>Go_Format\<close>,
    \<open>Float64\<close>: Go's data and the library functions the program uses: results that may be errors, saturating time
    differences, byte strings, \<open>strings\<close>, \<open>strconv.Atoi\<close>, \<open>net.SplitHostPort\<close>, \<open>net.ParseIP\<close>,
    \<open>time.ParseDuration\<close>, base64 and hex, \<open>fmt\<close>'s padding and quoting, float64 rounding. The facts proved there (round
    trips, bounds, injectivity) carry the components.
  \<^item> \<open>Config_Types\<close>: the schema of \<open>internal/config/config.go\<close>, the YAML form of a route and the
    look-ups. \<open>Config_Validate\<close>: \<open>Validate\<close> and \<open>Load\<close>; validation decides the predicate
    \<open>validConfig\<close>, under which the look-ups are exact (locale \<open>directory\<close>). \<open>Config_File\<close>: the
    YAML hooks applied to a whole file, and what a save and a reload keep. \<open>Manage\<close>:
    \<open>internal/config/manage.go\<close>, edits of the configuration file; \<open>Edits\<close>: sequences of them, which
    refine a directory of tokens and grants (\<open>directoryStep\<close>).
  \<^item> \<open>Routing\<close>: \<open>internal/routing/routing.go\<close>, the glob matcher and first-match routing (locale
    \<open>first_match\<close>).
  \<^item> \<open>Rate_Limit\<close>: \<open>internal/ratelimit/ratelimit.go\<close>, each method a function on the limiter, and
    sequences of them by any number of goroutines.
  \<^item> \<open>Control\<close>: \<open>internal/control\<close>, the registry (locale \<open>session_table\<close>), the registration
    exchange on both sides, and the hub's connection handlers as the step relation \<open>hubStep\<close>,
    which refines the table of sessions \<open>sessionSpec\<close>.
  \<^item> \<open>Proxy\<close>: \<open>internal/proxy/proxy.go\<close>, authorization and forwarding, and the SSH listener's
    connections as the step relation \<open>proxyStep\<close> over the limiter; the labels of its steps
    (\<open>proxyEvent\<close>) say what each does with the limiter. \<open>Listener\<close>: runs of that relation, in
    which the limiter's promises become promises about connections taken and turned away;
    \<open>Fair_Use\<close>: a source within the burst is never throttled and its authorized user is served.
    \<open>Bridge\<close>: the copying of a tunnel's bytes, on the hub and on the agent (locale \<open>bridge_main\<close>),
    where a copy waits for its source and for its destination; \<open>Tunnel\<close>: both with the stream between
    them (\<open>tunnelStep\<close>).
  \<^item> \<open>HubTLS\<close>: \<open>internal/hubtls/hubtls.go\<close>, the hub's certificate, its files and its pin.
    \<open>Agent\<close>: \<open>cmd/sshhub-agent\<close> with the agent's side of \<open>internal/control/client.go\<close>: start,
    connection, bridging, and the loop over the turns of a connection; \<open>Agent_Life\<close>: the same loop
    with the peers and streams it meets, as the sequence of what the agent does (\<open>agentLife\<close>), which
    refines the loop. \<open>Hub_Main\<close>: \<open>cmd/sshhub\<close> and \<open>internal/admin\<close>, what a hub that has started
    consists of. \<open>Ctl\<close>: \<open>cmd/sshhub-ctl\<close>, the commands of the operator; \<open>Ctl_Main\<close>: a whole
    run of it, with what it prints and its exit code (\<open>ctlMain\<close>). \<open>Restart\<close>: a hub's starts one
    after the other over its certificate files, and an agent that lives through them. \<open>Network\<close>: the
    control listener among agents and strangers (\<open>netStep\<close>), and which tokens stay secret.
  \<^item> \<open>Versions\<close> (locale \<open>update_order\<close>), \<open>Release\<close>, \<open>Updater\<close>: version comparison, signed
    manifests (\<open>internal/release\<close>, and \<open>cmd/sshhub-sign\<close> with \<open>Sign_Tool\<close>), and the hub's updater
    (\<open>internal/hubupdate\<close>). \<open>Auto_Update\<close>: its background loop with the checker and the installer
    the program gives it, each turn over the directory the turns before left, and the way of a
    release from the signing tool to the binaries. \<open>Generations\<close>: the versions a machine runs as the
    updater replaces its binary and restarts it. \<open>Update_Lock\<close>: several updaters over one
    directory, step by step, which the file lock makes equal to the same calls made one after the
    other, in the order in which they had the lock (\<open>serial\<close>). \<open>Agent_Update\<close>: \<open>cmd/sshhub-agent-update\<close>.

  Code outside the repository is a parameter: the YAML and JSON decoders, the parser of
  authorized keys, Ed25519, SHA-256, X.509 and PEM (the record \<open>tlsLib\<close>), HTTP, the file system,
  the SSH handshake. What is assumed of it is a hypothesis of the property that needs it: that
  the SSH handshake reports only keys its client proved (\<open>handshakeSound\<close>), that only the hub completes
  a TLS handshake with its certificate (\<open>pinnedTo\<close>), that the binary of a release carries the release's
  version (\<open>linked\<close>), that a configuration survives the YAML library (\<open>keepsDirectory\<close>), that a
  signature of the private key verifies under the public one, that a key pair holds the certificate
  it was read from, that a digest has 32 bytes. The witnesses instantiate them. Time is a parameter
  of every operation that reads the clock. The interleaving of goroutines is the choice of the next
  step in \<open>hubStep\<close>, \<open>proxyStep\<close>, \<open>netStep\<close> and \<open>tunnelStep\<close>, that of updater processes in \<open>updStep\<close>; a mutex makes
  the section it guards one step. Loops that may run forever (the updater, the agent) are functions
  of the finite list of turns taken so far.

  Not modelled: yamux beyond the order and the end of its streams, the deadlines of connections, a
  certificate or key file that exists and cannot be examined or read, a failing removal of the temporary
  file of a save (\<open>Save\<close>), the flag package, the texts the daemons and
  the signing tool print, the words of fatal errors, and logging except where the agent limits it. A signal is the end of
  the context (\<open>tn_Done\<close> and its like) in the agent; in the hub it ends the process, whose next start
  is \<open>Restart\<close>. Edits of the configuration file by two tools at once are not modelled: the code takes no
  lock for them, and the later rename wins.

  Below are the properties that span components.
\<close>

subsection \<open>Properties\<close>

text \<open>C1: a tunnel joins a granted user to the authenticated agent. When the SSH listener and the
  control listener run over the same validated configuration and any steps of either were
  taken, every tunnel that is opened runs from a client that is a jump user (proved by key,
  unless that user is open), to the session of a live agent that presented the token of the
  backend, and this backend is granted to the user.\<close>

theorem tunnel_end_to_end:
  assumes "Validate (validationParser parse) c0 = Inr cfg"
    and "NewProxy parse cfg readFile privateKeyOk = Inr conf" and "handshakeSound handshake proves"
    and "proxyReach cfg conf handshake p" and "hubReach cfg hubVersion h"
    and "px_conns p i = Some (Serving client c k)"
    and "forward cfg (hub_registry h) openStream channelAccepted (sc_User c) payload = Bridged b s"
  shows "(\<exists>u\<in>set (cfg_JumpUsers cfg). ju_Name u = sc_User c \<and> b \<in> set (ju_Backends u) \<and>
      (ju_Keys u = [] \<or>
       (\<exists>pk t. t \<in> set (ju_Keys u) \<and> proves client pk \<and> keyAllowed parse pk t))) \<and>
    (\<exists>req. \<exists>bk\<in>set (cfg_Backends cfg). hub_handlers h s = Some (Connected b req) \<and>
      be_ID bk = b \<and> be_Token bk = rq_Token req \<and> rq_Token req \<noteq> [])"
proof
  from assms(7) obtain cn where cn: "hub_registry h b = Some cn" "s = cn_session cn"
    unfolding forward_iff by blast
  from tunnel_needs_jump_access [OF assms(1-4,6,7)]
  show "\<exists>u\<in>set (cfg_JumpUsers cfg). ju_Name u = sc_User c \<and> b \<in> set (ju_Backends u) \<and>
      (ju_Keys u = [] \<or>
       (\<exists>pk t. t \<in> set (ju_Keys u) \<and> proves client pk \<and> keyAllowed parse pk t))" by blast
  from hubInv_registered [OF hubInv_reach [OF assms(5)] cn(1)] resolveToken_valid [OF assms(1)]
  show "\<exists>req. \<exists>bk\<in>set (cfg_Backends cfg). hub_handlers h s = Some (Connected b req) \<and>
      be_ID bk = b \<and> be_Token bk = rq_Token req \<and> rq_Token req \<noteq> []"
    unfolding authenticated_def cn(2) by metis
qed

theorem tunnel_end_to_end_witness:
  "\<exists>(h :: Hub) s req. \<exists>bk\<in>set (cfg_Backends exampleValid).
     hub_handlers h s = Some (Connected ''web1'' req) \<and> be_ID bk = ''web1'' \<and>
     be_Token bk = rq_Token req"
proof -
  obtain h :: Hub and cn where h: "hubReach exampleValid ''0.9.0'' h"
    "hub_registry h ''web1'' = Some cn"
    using example_connected by blast
  obtain p i where p: "proxyReach exampleValid exampleServer exampleHandshake p"
    "px_conns p i = Some (Serving (''alice'', Some ''blob1'') exampleConn 0)"
    using exampleConn_served by blast
  from tunnel_end_to_end [OF exampleConfig_valid [folded exampleKeys_parser] exampleServer_New
      exampleHandshake_sound p(1) h(1) p(2) examplePayload_forwarded [OF h(2)]]
  show ?thesis by blast
qed

text \<open>C14: what \<open>sshhub-ctl add\<close> leaves. When the command succeeds on a configuration the hub
  accepts, and the YAML library reads back what it wrote, the hub accepts the new file, through the
  hooks of routes and of the waiting time, exactly if the new id is nobody's alias and the token
  nobody else's: the command does not check either. Then an agent with the token shown is told the
  new backend, and every other token means what it meant.\<close>

theorem added_backend_registers:
  fixes args defaultPath
  defines "a \<equiv> parseAdd defaultPath args"
  assumes run: "ctlAdd (yamlUnmarshal decoder) (yamlMarshal encoder) random flt tmp load fqdn lib tls
      defaultPath args fs = (Inr out, fs')"
    and before: "fs (aa_CfgPath a) = Some bytes" "decoder bytes = Some fc" "decodeConfig fc = Inr c"
      "Validate parseKey c = Inr c1"
    and random: "random \<noteq> Some []"
    and tmp: "tmp \<noteq> aa_CfgPath a" "fs tmp = None"
    and yaml: "\<And>x b. encoder x = Some b \<Longrightarrow> decoder b = Some x"
  shows "((\<exists>cfg. Load parseKey (yamlUnmarshal decoder) (fs' (aa_CfgPath a)) = Inr cfg) \<longleftrightarrow>
      aa_ID a \<notin> aliasesIn c \<and> ao_Token out \<notin> be_Token ` set (cfg_Backends c)) \<and>
    (\<forall>cfg. Load parseKey (yamlUnmarshal decoder) (fs' (aa_CfgPath a)) = Inr cfg \<longrightarrow>
      clientRegister (\<lambda>r. case snd (serverRegister (resolveToken cfg) hubVersion True (Some r) True)
          of [] \<Rightarrow> None | x # _ \<Rightarrow> Some x) True True requested (ao_Token out) hostKey version goos arch =
        Inr (aa_ID a) \<and>
      (\<forall>t. t \<noteq> ao_Token out \<longrightarrow> BackendByToken cfg t = BackendByToken c1 t))"
proof -
  let ?new = "addBackend (aa_ID a) (ao_Token out) c"
  let ?fresh = "aa_ID a \<notin> aliasesIn c \<and> ao_Token out \<notin> be_Token ` set (cfg_Backends c)"
  have dec: "yamlUnmarshal decoder bytes = Some c" using before(2,3) by (simp add: yamlUnmarshal_def)
  obtain trace where add: "AddBackend (yamlUnmarshal decoder) (yamlMarshal encoder) random flt tmp
      (aa_CfgPath a) (aa_ID a) (aa_CustomToken a) (aa_EndUser a) fs = (Inr (ao_Token out), trace)"
    "fs' = last (fs # trace)"
    using ctlAdd_Inr [OF run] unfolding a_def by blast
  note saved = AddBackend_InrD [OF add(1) before(1) dec]
  note token = AddBackend_token_set [OF add(1) random]
  obtain b where b: "fs' (aa_CfgPath a) = Some b" "encoder (encodeConfig ?new) = Some b"
    using Save_Inr_last [OF saved(3) tmp] add(2) unfolding yamlMarshal_def by force
  have "list_all decodedRoute (cfg_Routes ?new)"
    using decoded_routes(2) [OF before(3)] by (simp add: addBackend_def)
  from reload_config [OF this] yaml [OF b(2)]
  have again: "yamlUnmarshal decoder b = Some (reloaded ?new)" by (simp add: yamlUnmarshal_def)
  with b(1) have load: "Load parseKey (yamlUnmarshal decoder) (fs' (aa_CfgPath a)) = Inr cfg \<longleftrightarrow>
      Validate parseKey (reloaded ?new) = Inr cfg" for cfg
    by (auto simp: Load_Inr)
  have "validConfig parseKey c" using before(4) by (simp add: Validate_iff)
  from validConfig_add [OF this] saved(1,2) token
  have accepts: "(\<exists>cfg. Validate parseKey (reloaded ?new) = Inr cfg) \<longleftrightarrow> ?fresh"
    by (simp add: Validate_iff valid_reloaded)
  have "clientRegister (\<lambda>r. case snd (serverRegister (resolveToken cfg) hubVersion True (Some r) True)
        of [] \<Rightarrow> None | x # _ \<Rightarrow> Some x) True True requested (ao_Token out) hostKey version goos arch =
      Inr (aa_ID a) \<and> (\<forall>t. t \<noteq> ao_Token out \<longrightarrow> BackendByToken cfg t = BackendByToken c1 t)"
    if cfg: "Validate parseKey (reloaded ?new) = Inr cfg" for cfg
  proof -
    from accepts cfg have fresh: ?fresh by blast
    note effect = AddBackend_correct [OF add(1) before(1) dec before(4) conjunct1 [OF fresh]
        conjunct2 [OF fresh] token tmp]
    have meaning: "BackendByToken cfg t = (if t = ao_Token out then Some (newBackend (aa_ID a) (ao_Token out))
        else BackendByToken c1 t)" for t
      using effect Validate_lookups(1) [OF cfg] Validate_lookups(1) [OF before(4)] by simp
    then have "resolveToken cfg (ao_Token out) requested = Some (aa_ID a)"
      by (simp add: resolveToken_def)
    with meaning saved(1) token show ?thesis by (simp add: registration_agrees)
  qed
  with accepts load show ?thesis by simp
qed

theorem added_backend_registers_witness:
  "\<exists>cfg. clientRegister (\<lambda>r. case snd (serverRegister (resolveToken cfg) ''0.9.0'' True (Some r) True)
      of [] \<Rightarrow> None | x # _ \<Rightarrow> Some x) True True [] ''t9'' [] [] [] [] = Inr ''new1''"
proof -
  let ?new = "addBackend ''new1'' ''t9'' (reloaded exampleConfig)"
  let ?file = "encodeConfig exampleConfig" and ?file' = "encodeConfig ?new"
  let ?decoder = "\<lambda>b. Some (if b = ''new'' then ?file' else ?file)"
  let ?encoder = "\<lambda>x. if x = ?file' then Some ''new'' else None"
  have args: "parseAdd ''hub.yaml'' [''new1'', ''--token'', ''t9''] =
      \<lparr>aa_CfgPath = ''hub.yaml'', aa_HubAddr = [], aa_CustomToken = ''t9'', aa_EndUser = [],
       aa_NoRestart = False, aa_ID = ''new1''\<rparr>"
    by (simp add: parseAdd_def addBody_def hasPrefix_def)
  have dec: "decodeConfig ?file = Inr (reloaded exampleConfig)"
    by (rule reload_config) (simp add: exampleConfig_def decodedRoute_def)
  have unknown: "BackendByID (reloaded exampleConfig) ''new1'' = None" by code_simp
  obtain out fs' where run: "ctlAdd (yamlUnmarshal ?decoder) (yamlMarshal ?encoder) None noFaults ''tmp''
      (\<lambda>_ _. Inr exampleValid) ''hub'' exampleTLS Map.empty ''hub.yaml'' [''new1'', ''--token'', ''t9'']
      [''hub.yaml'' \<mapsto> ''old''] = (Inr out, fs')" "ao_Token out = ''t9''"
    using dec unknown by (simp add: ctlAdd_def args Let_def AddBackend_def readConfig_def Save_def
        noFaults_def yamlUnmarshal_def yamlMarshal_def containsAny_def hasPrefix_def)
  have "''new1'' \<notin> aliasesIn (reloaded exampleConfig)" by code_simp
  moreover have "''t9'' \<notin> be_Token ` set (cfg_Backends (reloaded exampleConfig))" by code_simp
  moreover obtain c1 where c1: "Validate exampleParser (reloaded exampleConfig) = Inr c1"
    using exampleConfig_valid valid_reloaded [of exampleParser exampleConfig] by (auto simp: Validate_iff)
  moreover have law: "?decoder b = Some x" if "?encoder x = Some b" for x b
    using that by (simp split: if_splits)
  ultimately show ?thesis
    using added_backend_registers [OF run(1) _ _ dec c1 _ _ _ law,
        of _ "''0.9.0''" "[]" "[]" "[]" "[]" "[]"]
    by (simp add: args run(2)) blast
qed

text \<open>C7: the wait the operator wrote is the wait the hub keeps. When the hub has started with a
  configuration file, its updater changes a binary only if the file does not switch updates
  off, and then to what the trusted key signed for a newer release that \<open>mayInstall\<close> allows under the
  wait of the file: one that has been public for so long, or that the trusted key signed as urgent,
  or any where the wait is zero. The wait is the parsed text of \<open>auto_update_wait\<close>, whatever YAML
  type its spelling has, or 48 hours where the file has no value there, which includes a null: the
  YAML library calls no hook for it.\<close>

theorem written_wait_kept:
  assumes "hubMain lib env hostname parse (yamlUnmarshal decoder) (Some bytes) readFile privateKeyOk tfs =
      (Inr parts, tfs')"
    and "decoder bytes = Some fc"
    and "fs' \<in> set (autoUpdates b (hp_Wait parts) ws fs)" and "fs' n \<noteq> fs n"
  shows "\<exists>wait w tag content. w \<in> set ws \<and>
    (case fc_AutoUpdateWait fc of
       None \<Rightarrow> wait = 48 * hour
     | Some node \<Rightarrow> node_Kind node = ScalarNode \<and> parseAutoUpdateWait (node_Value node) = Inr wait \<and>
         toLower (trimSpace (node_Value node)) \<notin> set disablingWords) \<and>
    fs' n = Some content \<and> n \<in> set binNames \<and> mayInstall b wait w tag \<and>
    authentic (hb_Lib b) (hb_Key b) (ut_Net w) (hb_Untar b) (hb_Asset b) tag n content"
proof -
  from hubMain_Inr [OF assms(1)] obtain c where
    c: "yamlUnmarshal decoder bytes = Some c" "Validate (validationParser parse) c = Inr (hp_Config parts)"
      "hp_Wait parts = ResolvedAutoUpdateWait (hp_Config parts)" by (metis option.inject)
  with assms(2) have dec: "decodeConfig fc = Inr c"
    by (auto simp: yamlUnmarshal_def split: sum.splits)
  have wait: "hp_Wait parts = ResolvedAutoUpdateWait c"
    and valid: "validConfig (validationParser parse) c"
    using c(2,3) by (auto simp: Validate_iff ResolvedAutoUpdateWait_def)
  have on: "0 \<le> hp_Wait parts" and "fs' \<in> set (updateTurns b (hp_Wait parts) ws fs)"
    using assms(3) by (auto simp: autoUpdates_def split: if_splits)
  from turns_change [OF this(2), of n] assms(4) obtain w tag content where
    w: "w \<in> set ws" "n \<in> set binNames" "fs' n = Some content" "mayInstall b (hp_Wait parts) w tag"
      "authentic (hb_Lib b) (hb_Key b) (ut_Net w) (hb_Untar b) (hb_Asset b) tag n content" by blast
  have "case fc_AutoUpdateWait fc of
       None \<Rightarrow> hp_Wait parts = 48 * hour
     | Some node \<Rightarrow> node_Kind node = ScalarNode \<and>
         parseAutoUpdateWait (node_Value node) = Inr (hp_Wait parts) \<and>
         toLower (trimSpace (node_Value node)) \<notin> set disablingWords"
    using decodeConfig_wait [OF dec] validConfig_wait [OF valid] wait on
    by (auto simp: ResolvedAutoUpdateWait_def DefaultAutoUpdateWait_def dest: wait_enabled
        split: option.splits)
  with w show ?thesis by blast
qed

theorem written_wait_kept_witness:
  "\<exists>wait w tag. parseAutoUpdateWait ''48h'' = Inr wait \<and>
     w \<in> set [exampleTurn (Some (''v0.5.0'', 1000)) 2000,
       exampleTurn (Some (''v0.5.0'', 1000)) 172800000001000] \<and> mayInstall exampleBuild wait w tag"
proof -
  let ?ws = "[exampleTurn (Some (''v0.5.0'', 1000)) 2000,
    exampleTurn (Some (''v0.5.0'', 1000)) 172800000001000]"
  let ?decoder = "\<lambda>b :: string. Some (encodeConfig exampleConfig)"
  have "decodeConfig (encodeConfig exampleConfig) = Inr (reloaded exampleConfig)"
    by (rule reload_config) (simp add: exampleConfig_def decodedRoute_def)
  moreover have "Validate exampleParser (reloaded exampleConfig) = Inr exampleValid" by code_simp
  moreover have "ResolvedAutoUpdateWait exampleValid = 48 * hour" by code_simp
  ultimately have start: "hubMain exampleTLS exampleStart None exampleKeys (yamlUnmarshal ?decoder) (Some [])
      (\<lambda>_. Some ''pem'') (\<lambda>_. True) Map.empty = (Inr exampleParts, exampleFiles)"
    using exampleServer_New example_controlTLS
    by (simp add: hubMain_def Load_def exampleKeys_parser Let_def exampleParts_def updateModeOf_def
        AutoUpdateDisabled_def yamlUnmarshal_def)
  have "map (\<lambda>fs. fs ''sshhub'') (autoUpdates exampleBuild (48 * hour) ?ws Map.empty) =
      [Some ''hub'', Some ''hub'']"
    by code_simp
  then obtain fs' rest where fs': "autoUpdates exampleBuild (hp_Wait exampleParts) ?ws Map.empty = fs' # rest"
    "fs' ''sshhub'' = Some ''hub''" by (auto simp: exampleParts_def)
  then have "fs' \<in> set (autoUpdates exampleBuild (hp_Wait exampleParts) ?ws Map.empty)" by simp
  from written_wait_kept [OF start refl this, of "''sshhub''"] fs'(2) show ?thesis
    by (auto simp: encodeConfig_def exampleConfig_def MarshalWait_def)
qed

end
